(* ===== verification/VioPrelude.thy ===== *)
theory VioPrelude
  imports Main "HOL-Library.Word" "HOL-Library.Monad_Syntax" "HOL-Library.Multiset"
begin

text \<open>
  Shared vocabulary of the development: the fixed-width integer types of the C sources
  (\<^verbatim>\<open>src/VirtIO/linux/types.h\<close>), the status codes of the driver interfaces,
  array accesses that fail outside the array, and the generic lemmas on words, lists and
  multisets that the component theories share.

  A computation of type \<open>'a option\<close> returns \<open>None\<close> when the modelled code would
  access an array out of range, would not terminate, or would call \<open>KeBugCheck\<close>: no
  later statement of the source runs. Theorems that an operation returns are therefore
  theorems of memory safety and termination too.
\<close>

unbundle bit_operations_syntax

type_synonym u8 = "8 word"
type_synonym u16 = "16 word"
type_synonym u32 = "32 word"
type_synonym u64 = "64 word"

named_theorems vq_simps \<open>unfolding rules of the virtqueue models\<close>
named_theorems inv_intros \<open>introduction rules for the ring invariants\<close>

subsection \<open>Status codes\<close>

text \<open>
  The status codes the modelled sources return, one constructor per name. A code that an
  external routine returns without the sources naming it is \<open>STATUS_OTHER\<close> with its
  32-bit value; \<open>NT_SUCCESS\<close> is non-negativity of the signed value.
\<close>

datatype ntstatus =
    STATUS_SUCCESS
  | STATUS_TIMEOUT
  | STATUS_UNSUCCESSFUL
  | STATUS_INVALID_PARAMETER
  | STATUS_NOT_FOUND
  | STATUS_INSUFFICIENT_RESOURCES
  | STATUS_DEVICE_NOT_CONNECTED
  | STATUS_DEVICE_BUSY
  | STATUS_DEVICE_CONFIGURATION_ERROR
  | STATUS_NO_SUCH_DEVICE
  | STATUS_NO_MORE_ENTRIES
  | STATUS_OBJECT_NAME_EXISTS
  | STATUS_OTHER u32

fun NT_SUCCESS :: "ntstatus \<Rightarrow> bool" where
  "NT_SUCCESS STATUS_SUCCESS = True"
| "NT_SUCCESS STATUS_TIMEOUT = True"
| "NT_SUCCESS STATUS_OBJECT_NAME_EXISTS = True"
| "NT_SUCCESS (STATUS_OTHER w) = (0 \<le> sint w)"
| "NT_SUCCESS _ = False"

subsection \<open>Checked array accesses\<close>

definition rd :: "'a list \<Rightarrow> 'w::len word \<Rightarrow> 'a option" where
  "rd xs i = (if unat i < length xs then Some (xs ! unat i) else None)"

definition upd :: "'a list \<Rightarrow> 'w::len word \<Rightarrow> ('a \<Rightarrow> 'a) \<Rightarrow> 'a list option" where
  "upd xs i f = (if unat i < length xs then Some (xs[unat i := f (xs ! unat i)]) else None)"

definition nth_opt :: "'a list \<Rightarrow> nat \<Rightarrow> 'a option" where
  "nth_opt xs i = (if i < length xs then Some (xs ! i) else None)"

lemma rd_in [simp]: "unat i < length xs \<Longrightarrow> rd xs i = Some (xs ! unat i)"
  by (simp add: rd_def)

lemma upd_in [simp]:
  "unat i < length xs \<Longrightarrow> upd xs i f = Some (xs[unat i := f (xs ! unat i)])"
  by (simp add: upd_def)

lemma nth_opt_in [simp]: "i < length xs \<Longrightarrow> nth_opt xs i = Some (xs ! i)"
  by (simp add: nth_opt_def)

lemma rd_SomeD: "rd xs i = Some x \<Longrightarrow> unat i < length xs \<and> x = xs ! unat i"
  by (simp add: rd_def split: if_splits)

lemma upd_SomeD:
  "upd xs i f = Some ys \<Longrightarrow> unat i < length xs \<and> ys = xs[unat i := f (xs ! unat i)]"
  by (simp add: upd_def split: if_splits)

subsection \<open>Words\<close>

lemma unat_plus_small:
  fixes x y :: "'a::len word"
  shows "unat x + unat y < 2 ^ LENGTH('a) \<Longrightarrow> unat (x + y) = unat x + unat y"
  by (simp add: unat_word_ariths)

lemma unat_minus_le:
  fixes x y :: "'a::len word"
  shows "y \<le> x \<Longrightarrow> unat (x - y) = unat x - unat y"
  by (simp add: unat_sub)

lemma unat_pred: "0 < unat x \<Longrightarrow> unat (x - 1) = unat x - 1" for x :: "'a::len word"
  by (subst unat_minus_le) (auto simp: word_le_nat_alt)

lemma and_not_mask: "x AND NOT (mask n) = x - take_bit n (x :: 'a::len word)"
proof -
  have "x - take_bit n x = x AND NOT (take_bit n x)"
    by (rule disjunctive_diff) (simp add: bit_take_bit_iff)
  also have "\<dots> = x AND NOT (mask n)"
    by (rule bit_eqI) (auto simp: bit_and_iff bit_not_iff bit_take_bit_iff bit_mask_iff)
  finally show ?thesis by simp
qed

lemma unat_and_not_mask: "unat (x AND NOT (mask n)) = unat (x :: 'a::len word) div 2 ^ n * 2 ^ n"
proof -
  have t: "unat (take_bit n x) = unat x mod 2 ^ n"
    unfolding take_bit_eq_mod [symmetric] by (rule unsigned_take_bit_eq)
  have "unat (x - take_bit n x) = unat x - unat (take_bit n x)"
    by (rule unat_minus_le) (simp add: word_le_nat_alt t)
  then show ?thesis by (simp add: and_not_mask t minus_mod_eq_div_mult)
qed

lemma unat_Suc_small:
  fixes x :: "'a::len word"
  shows "Suc (unat x) < 2 ^ LENGTH('a) \<Longrightarrow> unat (x + 1) = Suc (unat x)"
  by (simp add: unat_word_ariths)

lemma unat_of_nat_small: "n < 2 ^ LENGTH('a) \<Longrightarrow> unat (word_of_nat n :: 'a::len word) = n"
  by (simp add: unat_of_nat)

lemma unat_ucast_16_32 [simp]: "unat (ucast (i :: u16) :: u32) = unat i"
proof -
  have "unat i < 2 ^ LENGTH(16)" by (rule unsigned_less)
  then show ?thesis by (simp add: unsigned_ucast_eq take_bit_nat_eq_self_iff)
qed

lemma unat_ucast_32_16: "unat (i :: u32) < 2 ^ 16 \<Longrightarrow> unat (ucast i :: u16) = unat i"
  by (simp add: unsigned_ucast_eq take_bit_nat_eq_self_iff)

lemma unat_ucast_32_64 [simp]: "unat (ucast (i :: u32) :: u64) = unat i"
proof -
  have "unat i < 2 ^ LENGTH(32)" by (rule unsigned_less)
  then show ?thesis by (simp add: unsigned_ucast_eq take_bit_nat_eq_self_iff)
qed

lemma unat_ucast_16_64 [simp]: "unat (ucast (i :: u16) :: u64) = unat i"
proof -
  have "unat i < 2 ^ LENGTH(16)" by (rule unsigned_less)
  then show ?thesis by (simp add: unsigned_ucast_eq take_bit_nat_eq_self_iff)
qed

lemma unat_lt_16: "unat (x :: u16) < 2 ^ 16"
  using unsigned_less [of x, where ?'a = nat] by simp

lemma unat_lt_32: "unat (x :: u32) < 2 ^ 32"
  using unsigned_less [of x, where ?'a = nat] by simp

lemma unat_lt_64: "unat (x :: u64) < 2 ^ 64"
  using unsigned_less [of x, where ?'a = nat] by simp

lemma ucast_ucast_16_32: "ucast (ucast (i :: u16) :: u32) = i"
  using unsigned_less [where ?'b = 16 and ?'a = nat, of i] by (intro word_unat_eq_iff [THEN iffD2]) (simp add: unat_ucast_32_16)

text \<open>Masking with a power of two minus one is the remainder.\<close>

lemma and_mask_mod:
  fixes x m :: "'a::len word"
  assumes "unat m = 2 ^ k"
  shows "unat (x AND (m - 1)) = unat x mod 2 ^ k"
proof -
  have "1 \<le> m" using assms by (simp add: word_le_nat_alt)
  then have "unat (m - 1) = 2 ^ k - 1"
    using assms by (simp add: unat_sub)
  then have "unat (m - 1) = mask k" by (simp add: mask_eq_exp_minus_1)
  then have "unat (x AND (m - 1)) = unat x AND mask k"
    by (simp add: unsigned_and_eq)
  then show ?thesis by (simp add: take_bit_eq_mask [symmetric] take_bit_eq_mod)
qed

subsection \<open>Lists and multisets\<close>

text \<open>
  A list of indices that is a permutation of \<open>[0..<n]\<close>: how the descriptor table is
  divided between the free list and the chains in flight.
\<close>

definition perm_upt :: "nat \<Rightarrow> nat list \<Rightarrow> bool" where
  "perm_upt n xs \<longleftrightarrow> mset xs = mset [0..<n]"

lemma perm_upt_distinct: "perm_upt n xs \<Longrightarrow> distinct xs"
  unfolding perm_upt_def by (metis distinct_upt mset_eq_imp_distinct_iff)

lemma perm_upt_set: "perm_upt n xs \<Longrightarrow> set xs = {0..<n}"
  unfolding perm_upt_def by (metis atLeastLessThan_upt set_mset_mset)

lemma perm_upt_length: "perm_upt n xs \<Longrightarrow> length xs = n"
  unfolding perm_upt_def by (metis diff_zero length_upt size_mset)

lemma perm_upt_mset: "perm_upt n xs \<Longrightarrow> mset ys = mset xs \<Longrightarrow> perm_upt n ys"
  by (simp add: perm_upt_def)

lemma perm_upt_upt: "perm_upt n [0..<n]"
  by (simp add: perm_upt_def)

lemma nth_update_notin: "k \<notin> A \<Longrightarrow> i \<in> A \<Longrightarrow> xs[k := v] ! i = xs ! i"
  by (metis nth_list_update_neq)

subsection \<open>Windows of a ring\<close>

text \<open>
  A free-running 16-bit index reduced modulo the ring size: the entries from index \<open>i\<close>
  on, read through \<open>f\<close>, are the list \<open>xs\<close>.
\<close>

definition ring_window :: "nat \<Rightarrow> 'a list \<Rightarrow> u16 \<Rightarrow> ('a \<Rightarrow> 'b) \<Rightarrow> 'b list \<Rightarrow> bool" where
  "ring_window n ring i f xs \<longleftrightarrow> (\<forall>j < length xs. f (ring ! ((unat i + j) mod n)) = xs ! j)"

lemma mod_add_cancel_le:
  fixes i j k n :: nat
  assumes "(i + j) mod n = (i + k) mod n" "j \<le> k" "k < n"
  shows "j = k"
proof -
  have "n dvd (i + k) - (i + j)"
    using assms by (subst mod_eq_dvd_iff_nat [symmetric]) simp_all
  then have "n dvd k - j" by simp
  with assms show ?thesis by (auto dest: dvd_imp_le)
qed

lemma mod_add_cancel_less:
  fixes i j k n :: nat
  assumes "(i + j) mod n = (i + k) mod n" "j < n" "k < n"
  shows "j = k"
  using assms mod_add_cancel_le [of i j n k] mod_add_cancel_le [of i k n j]
  by (cases "j \<le> k") auto

lemma unat_add_of_nat_mod:
  fixes i :: u16
  assumes "n dvd 2 ^ 16"
  shows "unat (i + word_of_nat j) mod n = (unat i + j) mod n"
proof -
  have "unat (i + word_of_nat j) = (unat i + j) mod 2 ^ 16"
    by (simp add: unat_word_ariths unat_of_nat mod_simps)
  then show ?thesis using assms by (simp add: mod_mod_cancel)
qed

lemma ring_window_Nil [simp]: "ring_window n ring i f []"
  by (simp add: ring_window_def)

lemma ring_window_push:
  assumes "ring_window n ring i f xs" "length xs < n" "n \<le> length ring"
  shows "ring_window n (ring[(unat i + length xs) mod n := v]) i f (xs @ [f v])"
  unfolding ring_window_def
proof (intro allI impI)
  fix j assume j: "j < length (xs @ [f v])"
  have ne: "(unat i + j) mod n \<noteq> (unat i + length xs) mod n" if "j < length xs"
    using mod_add_cancel_less [of "unat i" j n "length xs"] assms that by auto
  have "(unat i + length xs) mod n < length ring"
    using assms by (meson le_less_trans less_le_trans mod_less_divisor not_le zero_le)
  then show "f (ring[(unat i + length xs) mod n := v] ! ((unat i + j) mod n)) = (xs @ [f v]) ! j"
    using assms(1) j ne by (cases "j < length xs") (auto simp: ring_window_def nth_append less_Suc_eq)
qed

lemma ring_window_pop:
  assumes "ring_window n ring i f (x # xs)" "n dvd 2 ^ 16"
  shows "f (ring ! (unat i mod n)) = x" and "ring_window n ring (i + 1) f xs"
proof -
  show "f (ring ! (unat i mod n)) = x"
    using assms(1) by (auto simp: ring_window_def dest: spec [of _ 0])
  show "ring_window n ring (i + 1) f xs"
    unfolding ring_window_def
  proof (intro allI impI)
    fix j assume "j < length xs"
    moreover have "(unat (i + 1) + j) mod n = (unat i + Suc j) mod n"
      using unat_add_of_nat_mod [OF assms(2), of i 1] by (metis add.assoc mod_add_left_eq
          of_nat_1 plus_1_eq_Suc)
    ultimately show "f (ring ! ((unat (i + 1) + j) mod n)) = xs ! j"
      using assms(1) by (auto simp: ring_window_def dest: spec [of _ "Suc j"])
  qed
qed

lemma ring_window_update_outside:
  assumes "ring_window n ring i f xs" "n \<le> k" "0 < n"
  shows "ring_window n (ring[k := v]) i f xs"
  unfolding ring_window_def
proof (intro allI impI)
  fix j assume "j < length xs"
  moreover have "k \<noteq> (unat i + j) mod n"
    using assms mod_less_divisor [of n "unat i + j"] by linarith
  ultimately show "f (ring[k := v] ! ((unat i + j) mod n)) = xs ! j"
    using assms by (simp add: ring_window_def)
qed

end
