(* ===== verification/SplitRing.thy ===== *)
theory SplitRing
  imports VioPrelude
begin

text \<open>
  The split virtqueue of \<^verbatim>\<open>src/VirtIO/VirtIORing.c\<close>: descriptor table, available
  ring and used ring as they lie in the memory shared with the device, the private
  \<open>virtqueue_split\<close> block, and one definition per routine of the file, in the file's
  order. An opaque pointer is an \<open>'o option\<close> (\<open>None\<close> is \<open>NULL\<close>). The flag
  \<open>event_suppression_enabled\<close> of the owning device is an argument \<open>ev\<close> of the
  routines that read it through \<open>vq->vdev\<close>. Memory barriers order the writes for the
  device; the definitions perform the writes in the source's order.
\<close>

subsection \<open>Shared memory\<close>

definition VIRTQ_DESC_F_NEXT :: u16 where "VIRTQ_DESC_F_NEXT = 1"
definition VIRTQ_DESC_F_WRITE :: u16 where "VIRTQ_DESC_F_WRITE = 2"
definition VIRTQ_DESC_F_INDIRECT :: u16 where "VIRTQ_DESC_F_INDIRECT = 4"
definition VIRTQ_USED_F_NO_NOTIFY :: u16 where "VIRTQ_USED_F_NO_NOTIFY = 1"
definition VIRTQ_AVAIL_F_NO_INTERRUPT :: u16 where "VIRTQ_AVAIL_F_NO_INTERRUPT = 1"
definition VQ_ADD_BUFFER_SUCCESS :: int where "VQ_ADD_BUFFER_SUCCESS = 0"
definition ENOSPC :: int where "ENOSPC = 28"

lemmas split_flag_defs =
  VIRTQ_DESC_F_NEXT_def VIRTQ_DESC_F_WRITE_def VIRTQ_DESC_F_INDIRECT_def
  VIRTQ_USED_F_NO_NOTIFY_def VIRTQ_AVAIL_F_NO_INTERRUPT_def

record scatterlist =
  physAddr :: u64
  sg_length :: u32

record vring_desc =
  desc_addr :: u64
  desc_len :: u32
  desc_flags :: u16
  desc_next :: u16

record vring_avail =
  avail_flags :: u16
  avail_idx :: u16
  avail_ring :: "u16 list"

record vring_used_elem =
  elem_id :: u32
  elem_len :: u32

text \<open>
  The flexible array \<open>avail->ring\<close> has \<open>num + 1\<close> entries: \<open>vring_used_event\<close> is
  \<open>ring[num]\<close>. The half word behind the used ring that \<open>vring_avail_event\<close> reads is
  the field \<open>used_avail_event\<close>.
\<close>

record vring_used =
  used_flags :: u16
  used_idx :: u16
  used_ring :: "vring_used_elem list"
  used_avail_event :: u16

subsection \<open>Layout of the ring memory\<close>

definition DESC_INDEX :: "u32 \<Rightarrow> u32 \<Rightarrow> u32" where
  "DESC_INDEX num i = i AND (num - 1)"

definition vring_init :: "u32 \<Rightarrow> u64 \<Rightarrow> u32 \<Rightarrow> u64 \<times> u64 \<times> u64" where
  "vring_init num p align =
     (let desc = p;
          avail = p + ucast num * 16;
          ring_end = avail + 4 + 2 * ucast num
      in (desc, avail, (ring_end + 2 + ucast align - 1) AND NOT (ucast align - 1)))"

definition vring_size_split :: "u32 \<Rightarrow> u32 \<Rightarrow> u32" where
  "vring_size_split num align =
     ucast ((((16 * ucast num + 2 * ucast (3 + num) + ucast align - 1) :: u64)
               AND ucast (NOT (align - 1))) + 2 * 3 + 8 * ucast num)"

subsection \<open>Event suppression\<close>

definition vring_need_event :: "u16 \<Rightarrow> u16 \<Rightarrow> u16 \<Rightarrow> bool" where
  "vring_need_event event_idx new_idx old \<longleftrightarrow> new_idx - event_idx - 1 < new_idx - old"

subsection \<open>The private queue state\<close>

record 'o virtqueue_split =
  sq_index :: u32
  sq_num :: u32
  sq_desc :: "vring_desc list"
  sq_avail :: vring_avail
  sq_used :: vring_used
  master_flags :: u16
  master_idx :: u16
  num_unused :: u32
  num_added_since_kick :: u32
  first_unused :: u16
  last_used :: u16
  opaque :: "'o option list"

definition has_next :: "vring_desc \<Rightarrow> bool" where
  "has_next d \<longleftrightarrow> desc_flags d AND VIRTQ_DESC_F_NEXT \<noteq> 0"

definition set_used_event :: "'o virtqueue_split \<Rightarrow> u16 \<Rightarrow> 'o virtqueue_split option" where
  "set_used_event vq v = do {
     ring \<leftarrow> upd (avail_ring (sq_avail vq)) (sq_num vq) (\<lambda>_. v);
     Some (vq\<lparr>sq_avail := (sq_avail vq)\<lparr>avail_ring := ring\<rparr>\<rparr>)
   }"

text \<open>Returns the index of the first unused descriptor.\<close>

definition get_unused_desc :: "'o virtqueue_split \<Rightarrow> (u16 \<times> 'o virtqueue_split) option" where
  "get_unused_desc vq = do {
     d \<leftarrow> rd (sq_desc vq) (first_unused vq);
     Some (first_unused vq,
           vq\<lparr>first_unused := desc_next d, num_unused := num_unused vq - 1\<rparr>)
   }"

text \<open>
  The loop of \<open>put_unused_desc_chain\<close>: follow \<open>next\<close> while the flag is set, counting
  the descriptors passed. A cyclic chain does not return.
\<close>

partial_function (option) chain_walk ::
  "vring_desc list \<Rightarrow> u16 \<Rightarrow> u32 \<Rightarrow> (u16 \<times> u32) option" where
  "chain_walk ds idx n = do {
     d \<leftarrow> rd ds idx;
     (if has_next d then chain_walk ds (desc_next d) (n + 1) else Some (idx, n))
   }"

declare chain_walk.simps [code]

definition put_unused_desc_chain ::
  "'o virtqueue_split \<Rightarrow> u16 \<Rightarrow> 'o virtqueue_split option" where
  "put_unused_desc_chain vq start = do {
     opq \<leftarrow> upd (opaque vq) start (\<lambda>_. None);
     (idx, n) \<leftarrow> chain_walk (sq_desc vq) start (num_unused vq);
     ds \<leftarrow> upd (sq_desc vq) idx
            (\<lambda>d. d\<lparr>desc_flags := VIRTQ_DESC_F_NEXT, desc_next := first_unused vq\<rparr>);
     Some (vq\<lparr>opaque := opq, sq_desc := ds, num_unused := n + 1, first_unused := start\<rparr>)
   }"

subsection \<open>Adding a buffer\<close>

text \<open>
  The loop that fills the indirect table: \<open>k\<close> elements remain, \<open>i\<close> is the C loop
  counter.
\<close>

fun fill_indirect ::
  "nat \<Rightarrow> scatterlist list \<Rightarrow> u32 \<Rightarrow> nat \<Rightarrow> vring_desc list \<Rightarrow> vring_desc list option" where
  "fill_indirect 0 sg out i desc = Some desc"
| "fill_indirect (Suc k) sg out i desc = do {
     s \<leftarrow> nth_opt sg i;
     d \<leftarrow> nth_opt desc i;
     fill_indirect k sg out (Suc i)
       (desc[i := d\<lparr>desc_flags := (if i < unat out then 0 else VIRTQ_DESC_F_WRITE)
                                   OR VIRTQ_DESC_F_NEXT,
                    desc_addr := physAddr s,
                    desc_len := sg_length s,
                    desc_next := word_of_nat i + 1\<rparr>])
   }"

definition clear_next :: "vring_desc \<Rightarrow> vring_desc" where
  "clear_next d = d\<lparr>desc_flags := desc_flags d AND NOT VIRTQ_DESC_F_NEXT\<rparr>"

text \<open>Writes one regular descriptor: address, length, flags and the next field.\<close>

definition write_desc ::
  "'o virtqueue_split \<Rightarrow> u16 \<Rightarrow> scatterlist \<Rightarrow> bool \<Rightarrow> 'o virtqueue_split option" where
  "write_desc vq idx s w = do {
     ds \<leftarrow> upd (sq_desc vq) idx
       (\<lambda>d. d\<lparr>desc_addr := physAddr s, desc_len := sg_length s,
              desc_flags := VIRTQ_DESC_F_NEXT OR (if w then VIRTQ_DESC_F_WRITE else 0),
              desc_next := first_unused vq\<rparr>);
     Some (vq\<lparr>sq_desc := ds\<rparr>)
   }"

text \<open>The loop over the descriptors after the first one.\<close>

fun add_rest ::
  "nat \<Rightarrow> scatterlist list \<Rightarrow> u32 \<Rightarrow> nat \<Rightarrow> u16 \<Rightarrow> 'o virtqueue_split
     \<Rightarrow> (u16 \<times> 'o virtqueue_split) option" where
  "add_rest 0 sg out i last_idx vq = Some (last_idx, vq)"
| "add_rest (Suc k) sg out i last_idx vq = do {
     (idx, vq1) \<leftarrow> get_unused_desc vq;
     s \<leftarrow> nth_opt sg i;
     vq2 \<leftarrow> write_desc vq1 idx s (unat out \<le> i);
     add_rest k sg out (Suc i) idx vq2
   }"

text \<open>The common tail: publish the head in the available ring, then the index.\<close>

definition publish :: "'o virtqueue_split \<Rightarrow> u16 \<Rightarrow> 'o virtqueue_split option" where
  "publish vq idx = do {
     ring \<leftarrow> upd (avail_ring (sq_avail vq)) (DESC_INDEX (sq_num vq) (ucast (master_idx vq))) (\<lambda>_. idx);
     Some (vq\<lparr>sq_avail := (sq_avail vq)\<lparr>avail_ring := ring, avail_idx := master_idx vq + 1\<rparr>,
              master_idx := master_idx vq + 1,
              num_added_since_kick := num_added_since_kick vq + 1\<rparr>)
   }"

definition add_indirect ::
  "'o virtqueue_split \<Rightarrow> scatterlist list \<Rightarrow> u32 \<Rightarrow> u32 \<Rightarrow> 'o option
     \<Rightarrow> vring_desc list \<Rightarrow> u64 \<Rightarrow> (u16 \<times> 'o virtqueue_split \<times> vring_desc list) option" where
  "add_indirect vq sg out n opq table phys_indirect = do {
     table1 \<leftarrow> fill_indirect (unat n) sg out 0 table;
     table2 \<leftarrow> upd table1 (n - 1) clear_next;
     (idx, vq1) \<leftarrow> get_unused_desc vq;
     ds \<leftarrow> upd (sq_desc vq1) idx
       (\<lambda>d. d\<lparr>desc_flags := VIRTQ_DESC_F_INDIRECT, desc_addr := phys_indirect, desc_len := n * 16\<rparr>);
     ops \<leftarrow> upd (opaque vq1) idx (\<lambda>_. opq);
     Some (idx, vq1\<lparr>sq_desc := ds, opaque := ops\<rparr>, table2)
   }"

definition add_direct ::
  "'o virtqueue_split \<Rightarrow> scatterlist list \<Rightarrow> u32 \<Rightarrow> u32 \<Rightarrow> 'o option
     \<Rightarrow> (u16 \<times> 'o virtqueue_split) option" where
  "add_direct vq sg out n opq = do {
     (idx, vq1) \<leftarrow> get_unused_desc vq;
     ops \<leftarrow> upd (opaque vq1) idx (\<lambda>_. opq);
     s \<leftarrow> nth_opt sg 0;
     vq2 \<leftarrow> write_desc (vq1\<lparr>opaque := ops\<rparr>) idx s (out = 0);
     (last_idx, vq3) \<leftarrow> add_rest (unat n - 1) sg out 1 idx vq2;
     ds \<leftarrow> upd (sq_desc vq3) last_idx clear_next;
     Some (idx, vq3\<lparr>sq_desc := ds\<rparr>)
   }"

definition virtqueue_add_buf_split ::
  "'o virtqueue_split \<Rightarrow> scatterlist list \<Rightarrow> u32 \<Rightarrow> u32 \<Rightarrow> 'o option
     \<Rightarrow> vring_desc list option \<Rightarrow> u64
     \<Rightarrow> (int \<times> 'o virtqueue_split \<times> vring_desc list option) option" where
  "virtqueue_add_buf_split vq sg out inn opq va_indirect phys_indirect =
     (let n = out + inn in
      if va_indirect \<noteq> None \<and> 1 < n \<and> 0 < num_unused vq then do {
        table \<leftarrow> va_indirect;
        (idx, vq1, table1) \<leftarrow> add_indirect vq sg out n opq table phys_indirect;
        vq2 \<leftarrow> publish vq1 idx;
        Some (VQ_ADD_BUFFER_SUCCESS, vq2, Some table1)
      } else if num_unused vq < n then Some (- ENOSPC, vq, va_indirect)
      else do {
        (idx, vq1) \<leftarrow> add_direct vq sg out n opq;
        vq2 \<leftarrow> publish vq1 idx;
        Some (VQ_ADD_BUFFER_SUCCESS, vq2, va_indirect)
      })"

subsection \<open>Interrupt state and fetching a buffer\<close>

definition virtqueue_is_interrupt_enabled_split :: "'o virtqueue_split \<Rightarrow> bool" where
  "virtqueue_is_interrupt_enabled_split vq \<longleftrightarrow>
     \<not> (master_flags vq AND VIRTQ_AVAIL_F_NO_INTERRUPT \<noteq> 0)"

text \<open>
  The outer result is the model's failure value; the inner one is the return value:
  \<open>None\<close> for \<open>NULL\<close> with \<open>*len\<close> not written, otherwise the opaque pointer and the
  length stored in \<open>*len\<close>.
\<close>

definition virtqueue_get_buf_split ::
  "bool \<Rightarrow> 'o virtqueue_split \<Rightarrow> (('o option \<times> u32) option \<times> 'o virtqueue_split) option" where
  "virtqueue_get_buf_split ev vq =
     (if last_used vq = used_idx (sq_used vq) then Some (None, vq)
      else do {
        e \<leftarrow> rd (used_ring (sq_used vq)) (DESC_INDEX (sq_num vq) (ucast (last_used vq)));
        let idx = (ucast (elem_id e) :: u16);
        opq \<leftarrow> rd (opaque vq) idx;
        vq1 \<leftarrow> put_unused_desc_chain vq idx;
        let vq2 = vq1\<lparr>last_used := last_used vq1 + 1\<rparr>;
        vq3 \<leftarrow> (if ev \<and> virtqueue_is_interrupt_enabled_split vq2
                then set_used_event vq2 (last_used vq2) else Some vq2);
        Some (Some (opq, elem_len e), vq3)
      })"

definition virtqueue_has_buf_split :: "'o virtqueue_split \<Rightarrow> bool" where
  "virtqueue_has_buf_split vq \<longleftrightarrow> last_used vq \<noteq> used_idx (sq_used vq)"

definition virtqueue_kick_prepare_split ::
  "bool \<Rightarrow> 'o virtqueue_split \<Rightarrow> bool \<times> 'o virtqueue_split" where
  "virtqueue_kick_prepare_split ev vq =
     (let wrap_around = (2 ^ 16 \<le> num_added_since_kick vq);
          old = master_idx vq - ucast (num_added_since_kick vq);
          new = master_idx vq;
          vq1 = vq\<lparr>num_added_since_kick := 0\<rparr>
      in (if ev then wrap_around \<or> vring_need_event (used_avail_event (sq_used vq)) new old
          else \<not> (used_flags (sq_used vq) AND VIRTQ_USED_F_NO_NOTIFY \<noteq> 0), vq1))"

text \<open>The boolean tells that \<open>virtqueue_notify\<close> is called, which it always is.\<close>

definition virtqueue_kick_always_split :: "'o virtqueue_split \<Rightarrow> bool \<times> 'o virtqueue_split" where
  "virtqueue_kick_always_split vq = (True, vq\<lparr>num_added_since_kick := 0\<rparr>)"

definition clear_no_interrupt :: "bool \<Rightarrow> 'o virtqueue_split \<Rightarrow> 'o virtqueue_split" where
  "clear_no_interrupt ev vq =
     (if \<not> virtqueue_is_interrupt_enabled_split vq then
        let vq1 = vq\<lparr>master_flags := master_flags vq AND NOT VIRTQ_AVAIL_F_NO_INTERRUPT\<rparr>
        in if \<not> ev then vq1\<lparr>sq_avail := (sq_avail vq1)\<lparr>avail_flags := master_flags vq1\<rparr>\<rparr> else vq1
      else vq)"

definition virtqueue_enable_cb_split ::
  "bool \<Rightarrow> 'o virtqueue_split \<Rightarrow> (bool \<times> 'o virtqueue_split) option" where
  "virtqueue_enable_cb_split ev vq = do {
     vq1 \<leftarrow> set_used_event (clear_no_interrupt ev vq) (last_used vq);
     Some (last_used vq1 = used_idx (sq_used vq1), vq1)
   }"

text \<open>
  The comparison at the end is between \<open>int\<close>s: both indices are promoted before the
  subtraction, so the difference can be negative.
\<close>

definition virtqueue_enable_cb_delayed_split ::
  "bool \<Rightarrow> 'o virtqueue_split \<Rightarrow> (bool \<times> 'o virtqueue_split) option" where
  "virtqueue_enable_cb_delayed_split ev vq =
     (let vq1 = clear_no_interrupt ev vq;
          bufs = (word_of_nat (unat (master_idx vq1 - last_used vq1) * 3 div 4) :: u16)
      in do {
        vq2 \<leftarrow> set_used_event vq1 (last_used vq1 + bufs);
        Some (int (unat (used_idx (sq_used vq2))) - int (unat (last_used vq2)) \<le> int (unat bufs), vq2)
      })"

definition virtqueue_disable_cb_split :: "bool \<Rightarrow> 'o virtqueue_split \<Rightarrow> 'o virtqueue_split" where
  "virtqueue_disable_cb_split ev vq =
     (if virtqueue_is_interrupt_enabled_split vq then
        let vq1 = vq\<lparr>master_flags := master_flags vq OR VIRTQ_AVAIL_F_NO_INTERRUPT\<rparr>
        in if \<not> ev then vq1\<lparr>sq_avail := (sq_avail vq1)\<lparr>avail_flags := master_flags vq1\<rparr>\<rparr> else vq1
      else vq)"

subsection \<open>Creation, shutdown and detaching\<close>

text \<open>The loop that links the unused descriptors; \<open>i\<close> is a 16-bit counter.\<close>

partial_function (option) link_unused ::
  "u32 \<Rightarrow> u16 \<Rightarrow> vring_desc list \<Rightarrow> vring_desc list option" where
  "link_unused num i ds =
     (if ucast i < num - 1 then do {
        ds1 \<leftarrow> upd ds i (\<lambda>d. d\<lparr>desc_flags := VIRTQ_DESC_F_NEXT, desc_next := i + 1\<rparr>);
        link_unused num (i + 1) ds1
      } else Some ds)"

declare link_unused.simps [code]

text \<open>
  The \<open>pages\<close> argument is the ring memory as \<open>vring_init\<close> divides it. The outer
  \<open>option\<close> is the model's failure value, the inner one the returned pointer.
\<close>

definition vring_new_virtqueue_split ::
  "u32 \<Rightarrow> u32 \<Rightarrow> vring_desc list \<times> vring_avail \<times> vring_used
     \<Rightarrow> 'o virtqueue_split option option" where
  "vring_new_virtqueue_split index num pages =
     (if DESC_INDEX num num \<noteq> 0 then Some None
      else case pages of (desc, avail, used) \<Rightarrow> do {
        ds \<leftarrow> link_unused num 0 desc;
        Some (Some \<lparr>sq_index = index, sq_num = num, sq_desc = ds, sq_avail = avail, sq_used = used,
                    master_flags = 0, master_idx = 0, num_unused = num, num_added_since_kick = 0,
                    first_unused = 0, last_used = 0, opaque = replicate (unat num) None\<rparr>)
      })"

definition zero_desc :: vring_desc where
  "zero_desc = \<lparr>desc_addr = 0, desc_len = 0, desc_flags = 0, desc_next = 0\<rparr>"

text \<open>\<open>RtlZeroMemory\<close> over the ring memory.\<close>

definition zero_pages :: "u32 \<Rightarrow> vring_desc list \<times> vring_avail \<times> vring_used" where
  "zero_pages num =
     (replicate (unat num) zero_desc,
      \<lparr>avail_flags = 0, avail_idx = 0, avail_ring = replicate (unat num + 1) 0\<rparr>,
      \<lparr>used_flags = 0, used_idx = 0,
       used_ring = replicate (unat num) \<lparr>elem_id = 0, elem_len = 0\<rparr>, used_avail_event = 0\<rparr>)"

definition virtqueue_shutdown_split :: "'o virtqueue_split \<Rightarrow> 'o virtqueue_split option option" where
  "virtqueue_shutdown_split vq =
     vring_new_virtqueue_split (sq_index vq) (sq_num vq) (zero_pages (sq_num vq))"

text \<open>
  The search loop of \<open>virtqueue_detach_unused_buf_split\<close>: \<open>k\<close> indices remain,
  \<open>idx\<close> is the current one.
\<close>

fun detach_loop ::
  "nat \<Rightarrow> u16 \<Rightarrow> 'o virtqueue_split \<Rightarrow> ('o option \<times> 'o virtqueue_split) option" where
  "detach_loop 0 idx vq = Some (None, vq)"
| "detach_loop (Suc k) idx vq = do {
     opq \<leftarrow> rd (opaque vq) idx;
     (case opq of
        Some p \<Rightarrow> do {
          vq1 \<leftarrow> put_unused_desc_chain vq idx;
          let m = master_idx vq1 - 1;
          Some (Some p, vq1\<lparr>master_idx := m, sq_avail := (sq_avail vq1)\<lparr>avail_idx := m\<rparr>\<rparr>)
        }
      | None \<Rightarrow> detach_loop k (idx + 1) vq)
   }"

definition virtqueue_detach_unused_buf_split ::
  "'o virtqueue_split \<Rightarrow> ('o option \<times> 'o virtqueue_split) option" where
  "virtqueue_detach_unused_buf_split vq = detach_loop (unat (ucast (sq_num vq) :: u16)) 0 vq"

definition vring_control_block_size_split :: "u16 \<Rightarrow> u32 \<Rightarrow> u32" where
  "vring_control_block_size_split qsize sizeof_virtqueue_split =
     sizeof_virtqueue_split + 8 * ucast qsize"

definition virtio_get_indirect_page_capacity :: u32 where
  "virtio_get_indirect_page_capacity = 4096 div 16"

end
