(* ===== verification/VirtqueueSpec.thy ===== *)
theory VirtqueueSpec
  imports SplitRing
begin

text \<open>
  The contract of \<open>struct virtqueue\<close> (\<^verbatim>\<open>src/VirtIO/VirtIO.h\<close>), independent of the
  ring layout. The abstract queue records the buffers the driver has handed over and not
  fetched back: for each one its buffer id, the number of descriptors it occupies and
  the opaque pointer. Buffers the device has not taken yet are queued in \<open>a_avail\<close>,
  buffers it has returned and the driver has not fetched in \<open>a_done\<close>, both oldest
  first. The locale \<open>virtqueue\<close> states what a ring layout promises; drivers use its
  lemmas only. The device is the environment: it takes buffers in order and returns
  each taken buffer once, in any order.
\<close>

subsection \<open>The abstract queue\<close>

record 'o avq =
  a_size :: nat
  a_out :: "(nat \<times> nat \<times> 'o) list"
  a_avail :: "nat list"
  a_done :: "(nat \<times> u32) list"

definition a_ids :: "'o avq \<Rightarrow> nat list" where
  "a_ids a = map fst (a_out a)"

definition a_descs :: "'o avq \<Rightarrow> nat" where
  "a_descs a = sum_list (map (fst \<circ> snd) (a_out a))"

definition a_free :: "'o avq \<Rightarrow> nat" where
  "a_free a = a_size a - a_descs a"

definition a_lookup :: "'o avq \<Rightarrow> nat \<Rightarrow> (nat \<times> 'o) option" where
  "a_lookup a = map_of (a_out a)"

definition avq_ok :: "'o avq \<Rightarrow> bool" where
  "avq_ok a \<longleftrightarrow>
     distinct (a_ids a) \<and> (\<forall>x \<in> set (a_out a). 0 < fst (snd x)) \<and> a_descs a \<le> a_size a \<and>
     distinct (a_avail a @ map fst (a_done a)) \<and>
     set (a_avail a @ map fst (a_done a)) \<subseteq> set (a_ids a)"

definition a_empty :: "nat \<Rightarrow> 'o avq" where
  "a_empty n = \<lparr>a_size = n, a_out = [], a_avail = [], a_done = []\<rparr>"

definition a_add :: "nat \<Rightarrow> nat \<Rightarrow> 'o \<Rightarrow> 'o avq \<Rightarrow> 'o avq" where
  "a_add bid n p a = a\<lparr>a_out := a_out a @ [(bid, n, p)], a_avail := a_avail a @ [bid]\<rparr>"

definition a_take :: "'o avq \<Rightarrow> 'o avq" where
  "a_take a = a\<lparr>a_avail := tl (a_avail a)\<rparr>"

definition a_complete :: "nat \<Rightarrow> u32 \<Rightarrow> 'o avq \<Rightarrow> 'o avq" where
  "a_complete bid len a = a\<lparr>a_done := a_done a @ [(bid, len)]\<rparr>"

definition a_remove :: "nat \<Rightarrow> (nat \<times> 'b) list \<Rightarrow> (nat \<times> 'b) list" where
  "a_remove bid xs = filter (\<lambda>x. fst x \<noteq> bid) xs"

definition a_fetch :: "'o avq \<Rightarrow> 'o avq" where
  "a_fetch a = a\<lparr>a_out := a_remove (fst (hd (a_done a))) (a_out a), a_done := tl (a_done a)\<rparr>"

text \<open>What the device may return: a buffer it has taken and not returned yet.\<close>

definition a_held :: "'o avq \<Rightarrow> nat \<Rightarrow> bool" where
  "a_held a bid \<longleftrightarrow>
     bid \<in> set (a_ids a) \<and> bid \<notin> set (a_avail a) \<and> bid \<notin> fst ` set (a_done a)"

lemmas avq_defs = a_ids_def a_descs_def a_free_def a_lookup_def avq_ok_def a_empty_def a_add_def
  a_take_def a_complete_def a_remove_def a_fetch_def a_held_def

lemma avq_ok_empty: "avq_ok (a_empty n)"
  by (simp add: avq_defs)

lemma avq_ok_add:
  "avq_ok a \<Longrightarrow> bid \<notin> set (a_ids a) \<Longrightarrow> 0 < n \<Longrightarrow> n \<le> a_free a \<Longrightarrow> avq_ok (a_add bid n p a)"
  by (auto simp: avq_defs)

lemma avq_ok_take: "avq_ok a \<Longrightarrow> avq_ok (a_take a)"
  by (cases "a_avail a") (auto simp: avq_defs)

lemma avq_ok_complete: "avq_ok a \<Longrightarrow> a_held a bid \<Longrightarrow> avq_ok (a_complete bid len a)"
  by (auto simp: avq_defs)

lemma set_a_remove: "fst ` set (a_remove bid xs) = fst ` set xs - {bid}"
  by (auto simp: a_remove_def)

lemma sum_list_a_remove_le:
  fixes xs :: "(nat \<times> nat \<times> 'o) list"
  shows "sum_list (map (fst \<circ> snd) (a_remove bid xs)) \<le> sum_list (map (fst \<circ> snd) xs)"
  by (induction xs) (auto simp: a_remove_def)

lemma sum_list_a_remove:
  fixes xs :: "(nat \<times> nat \<times> 'o) list"
  shows "distinct (map fst xs) \<Longrightarrow> (bid, n, p) \<in> set xs \<Longrightarrow>
    sum_list (map (fst \<circ> snd) (a_remove bid xs)) + n = sum_list (map (fst \<circ> snd) xs)"
proof (induction xs)
  case (Cons x xs)
  show ?case
  proof (cases "x = (bid, n, p)")
    case True
    with Cons.prems have "\<forall>y \<in> set xs. fst y \<noteq> bid" by force
    then have "a_remove bid xs = xs" by (simp add: a_remove_def)
    with True show ?thesis by (simp add: a_remove_def)
  next
    case False
    with Cons.prems have mem: "(bid, n, p) \<in> set xs" by simp
    then have "bid \<in> fst ` set xs" by force
    with Cons.prems have "fst x \<noteq> bid" by auto
    with mem Cons.IH Cons.prems show ?thesis by (simp add: a_remove_def)
  qed
qed simp

lemma avq_ok_fetch: "avq_ok a \<Longrightarrow> a_done a \<noteq> [] \<Longrightarrow> avq_ok (a_fetch a)"
proof -
  assume ok: "avq_ok a" and ne: "a_done a \<noteq> []"
  then obtain bid len ds where d: "a_done a = (bid, len) # ds"
    by (metis list.exhaust prod.exhaust)
  have le: "sum_list (map (fst \<circ> snd) (a_remove bid (a_out a))) \<le> a_size a"
    using ok sum_list_a_remove_le [of bid "a_out a"] by (simp add: avq_ok_def a_descs_def)
  have dist: "distinct (map fst (a_remove bid (a_out a)))"
    using ok by (simp add: avq_ok_def a_ids_def a_remove_def distinct_map_filter)
  have sub: "set (a_avail a @ map fst ds) \<subseteq> fst ` set (a_remove bid (a_out a))"
    unfolding set_a_remove using ok d unfolding avq_ok_def a_ids_def by simp blast
  show ?thesis
    using ok le dist d sub by (simp add: avq_ok_def a_ids_def a_descs_def a_fetch_def)
      (simp add: a_remove_def)
qed

lemma a_descs_fetch:
  "avq_ok a \<Longrightarrow> a_done a = (bid, len) # ds \<Longrightarrow> a_lookup a bid = Some (n, p) \<Longrightarrow>
   a_descs (a_fetch a) + n = a_descs a"
  using sum_list_a_remove [of "a_out a" bid n p]
  by (simp add: avq_ok_def a_ids_def a_descs_def a_fetch_def a_lookup_def map_of_eq_Some_iff)

lemma a_lookup_done:
  "avq_ok a \<Longrightarrow> a_done a = (bid, len) # ds \<Longrightarrow> \<exists>n p. a_lookup a bid = Some (n, p)"
  by (auto simp: avq_ok_def a_ids_def a_lookup_def map_of_eq_Some_iff)

lemma a_remove_other: "bid \<notin> fst ` set xs \<Longrightarrow> a_remove bid xs = xs"
  by (auto simp: a_remove_def filter_id_conv)

lemma a_remove_split:
  "distinct (map fst (xs @ (bid, y) # ys)) \<Longrightarrow> a_remove bid (xs @ (bid, y) # ys) = xs @ ys"
  using a_remove_other [of bid xs] a_remove_other [of bid ys] by (auto simp: a_remove_def)

lemma length_a_remove:
  "distinct (map fst xs) \<Longrightarrow> bid \<in> fst ` set xs \<Longrightarrow> Suc (length (a_remove bid xs)) = length xs"
proof -
  assume d: "distinct (map fst xs)" and "bid \<in> fst ` set xs"
  then obtain us y vs where "xs = us @ (bid, y) # vs"
    by (force dest: split_list)
  with d show ?thesis by (simp add: a_remove_split del: map_append)
qed

text \<open>No queue holds more buffers than descriptors.\<close>

lemma sum_list_pos_length:
  "\<forall>x \<in> set xs. 0 < f x \<Longrightarrow> length xs \<le> sum_list (map f xs)" for f :: "'b \<Rightarrow> nat"
  by (induction xs) (auto simp: Suc_le_eq add_strict_mono)

lemma avq_ok_lengths:
  assumes "avq_ok a"
  shows "length (a_out a) \<le> a_size a" and "length (a_avail a) + length (a_done a) \<le> length (a_out a)"
proof -
  have "length (a_out a) \<le> a_descs a"
    unfolding a_descs_def using assms by (intro sum_list_pos_length) (auto simp: avq_ok_def)
  with assms show "length (a_out a) \<le> a_size a" by (simp add: avq_ok_def)
  have "card (set (a_avail a @ map fst (a_done a))) \<le> card (set (a_ids a))"
    using assms by (intro card_mono) (auto simp: avq_ok_def)
  then show "length (a_avail a) + length (a_done a) \<le> length (a_out a)"
    using assms distinct_card [of "a_avail a @ map fst (a_done a)"] card_length [of "a_ids a"]
    by (simp add: avq_ok_def a_ids_def)
qed

lemma map_of_filter_neq: "b \<noteq> c \<Longrightarrow> map_of (filter (\<lambda>x. fst x \<noteq> c) xs) b = map_of xs b"
  by (induction xs) auto

subsection \<open>The interface\<close>

text \<open>
  \<open>add_buf\<close>, \<open>get_buf\<close> and \<open>has_buf\<close> are the function pointers of
  \<open>struct virtqueue\<close>. The result of \<open>add_buf\<close> is the return value, the queue and the
  contents of the indirect page (\<open>'t option\<close>, \<open>None\<close> when the driver passes no page);
  \<open>room\<close> is the number of entries the page holds and \<open>next_id\<close> the id the next buffer
  gets. \<open>device_use a bid len\<close> is the write
  by which the device returns a buffer; \<open>rel\<close> relates a ring to the abstract queue.
\<close>

definition descs_needed :: "'t option \<Rightarrow> nat \<Rightarrow> nat" where
  "descs_needed page n = (if page = None then n else 1)"

text \<open>
  How drivers use the two queue ends: the fetch loop that runs until \<open>NULL\<close> and the
  detach loop of the cleanup paths, both with a bound on the number of iterations.
\<close>

fun fetch_all ::
  "('q \<Rightarrow> (('o option \<times> u32) option \<times> 'q) option) \<Rightarrow> nat \<Rightarrow> 'q \<Rightarrow> (('o \<times> u32) list \<times> 'q) option" where
  "fetch_all get 0 q = None"
| "fetch_all get (Suc k) q = do {
     (r, q1) \<leftarrow> get q;
     (case r of
        Some (Some p, len) \<Rightarrow> do { (xs, q2) \<leftarrow> fetch_all get k q1; Some ((p, len) # xs, q2) }
      | _ \<Rightarrow> Some ([], q1))
   }"

fun detach_all ::
  "('q \<Rightarrow> ('o option \<times> 'q) option) \<Rightarrow> nat \<Rightarrow> 'q \<Rightarrow> ('o list \<times> 'q) option" where
  "detach_all det 0 q = None"
| "detach_all det (Suc k) q = do {
     (r, q1) \<leftarrow> det q;
     (case r of
        Some p \<Rightarrow> do { (xs, q2) \<leftarrow> detach_all det k q1; Some (p # xs, q2) }
      | None \<Rightarrow> Some ([], q1))
   }"

text \<open>
  Interleavings of the driver with a conforming device. A trace records the pointers the
  driver handed over (\<open>ins\<close>) and the ones it got back (\<open>outs\<close>); the abstract queue is
  the device's view and says which buffers it may take and return.
\<close>

inductive vq_trace ::
  "('q \<Rightarrow> scatterlist list \<Rightarrow> u32 \<Rightarrow> u32 \<Rightarrow> 'o option \<Rightarrow> 't option \<Rightarrow> u64 \<Rightarrow> (int \<times> 'q \<times> 't option) option)
   \<Rightarrow> ('q \<Rightarrow> (('o option \<times> u32) option \<times> 'q) option) \<Rightarrow> ('o avq \<Rightarrow> nat \<Rightarrow> u32 \<Rightarrow> 'q \<Rightarrow> 'q)
   \<Rightarrow> ('q \<Rightarrow> nat) \<Rightarrow> ('t \<Rightarrow> nat) \<Rightarrow> 'q \<Rightarrow> 'o avq \<Rightarrow> 'q \<Rightarrow> 'o avq \<Rightarrow> 'o list \<Rightarrow> 'o list \<Rightarrow> bool"
  for add_buf get_buf device_use next_id room q0 a0 where
  start: "vq_trace add_buf get_buf device_use next_id room q0 a0 q0 a0 [] []"
| drv_add:
  "vq_trace add_buf get_buf device_use next_id room q0 a0 q a ins outs \<Longrightarrow>
   0 < unat out + unat inn \<Longrightarrow> unat out + unat inn < 2 ^ 16 \<Longrightarrow> unat out + unat inn \<le> length sg \<Longrightarrow>
   \<forall>t. page = Some t \<longrightarrow> unat out + unat inn \<le> room t \<Longrightarrow>
   add_buf q sg out inn (Some p) page pa = Some (r, q', page') \<Longrightarrow>
   vq_trace add_buf get_buf device_use next_id room q0 a0 q'
     (if r = 0 then a_add (next_id q) (descs_needed page (unat out + unat inn)) p a else a)
     (if r = 0 then ins @ [p] else ins) outs"
| drv_get:
  "vq_trace add_buf get_buf device_use next_id room q0 a0 q a ins outs \<Longrightarrow>
   get_buf q = Some (r, q') \<Longrightarrow>
   vq_trace add_buf get_buf device_use next_id room q0 a0 q' (if r = None then a else a_fetch a) ins
     (case r of Some (Some p, len) \<Rightarrow> outs @ [p] | _ \<Rightarrow> outs)"
| dev_take:
  "vq_trace add_buf get_buf device_use next_id room q0 a0 q a ins outs \<Longrightarrow>
   a_avail a \<noteq> [] \<Longrightarrow>
   vq_trace add_buf get_buf device_use next_id room q0 a0 q (a_take a) ins outs"
| dev_use:
  "vq_trace add_buf get_buf device_use next_id room q0 a0 q a ins outs \<Longrightarrow>
   a_held a bid \<Longrightarrow>
   vq_trace add_buf get_buf device_use next_id room q0 a0 (device_use a bid len q) (a_complete bid len a)
     ins outs"

text \<open>The pointers of the buffers that are out.\<close>

definition a_ptrs :: "'o avq \<Rightarrow> 'o multiset" where
  "a_ptrs a = mset (map (snd \<circ> snd) (a_out a))"

lemma a_ptrs_add [simp]: "a_ptrs (a_add bid n p a) = a_ptrs a + {#p#}"
  by (simp add: a_ptrs_def a_add_def)

lemma a_ptrs_same [simp]: "a_ptrs (a_take a) = a_ptrs a" "a_ptrs (a_complete bid len a) = a_ptrs a"
  by (simp_all add: a_ptrs_def a_take_def a_complete_def)

lemma a_ptrs_remove:
  assumes "distinct (map fst xs)" "(bid, n, p) \<in> set xs"
  shows "mset (map (snd \<circ> snd) xs) = mset (map (snd \<circ> snd) (a_remove bid xs)) + {#p#}"
proof -
  obtain us vs where "xs = us @ (bid, n, p) # vs" using assms(2) by (auto dest: split_list)
  then show ?thesis using assms(1) by (simp add: a_remove_split del: map_append distinct_append)
qed

lemma a_ptrs_fetch:
  "avq_ok a \<Longrightarrow> a_done a = (bid, len) # ds \<Longrightarrow> a_lookup a bid = Some (n, p) \<Longrightarrow>
   a_ptrs a = a_ptrs (a_fetch a) + {#p#}"
  using a_ptrs_remove [of "a_out a" bid n p]
  by (auto simp: avq_ok_def a_ids_def a_ptrs_def a_fetch_def a_lookup_def dest: map_of_SomeD)

locale virtqueue =
  fixes add_buf :: "'q \<Rightarrow> scatterlist list \<Rightarrow> u32 \<Rightarrow> u32 \<Rightarrow> 'o option \<Rightarrow> 't option \<Rightarrow> u64
                      \<Rightarrow> (int \<times> 'q \<times> 't option) option"
    and get_buf :: "'q \<Rightarrow> (('o option \<times> u32) option \<times> 'q) option"
    and has_buf :: "'q \<Rightarrow> bool option"
    and device_use :: "'o avq \<Rightarrow> nat \<Rightarrow> u32 \<Rightarrow> 'q \<Rightarrow> 'q"
    and next_id :: "'q \<Rightarrow> nat"
    and room :: "'t \<Rightarrow> nat"
    and rel :: "'q \<Rightarrow> 'o avq \<Rightarrow> bool"
  assumes rel_ok: "rel q a \<Longrightarrow> avq_ok a"
    and add_accepts:
      "rel q a \<Longrightarrow> 0 < unat out + unat inn \<Longrightarrow> unat out + unat inn < 2 ^ 16 \<Longrightarrow>
       unat out + unat inn \<le> length sg \<Longrightarrow>
       \<forall>t. page = Some t \<longrightarrow> unat out + unat inn \<le> room t \<Longrightarrow>
       descs_needed page (unat out + unat inn) \<le> a_free a \<Longrightarrow>
       \<exists>q' page'. add_buf q sg out inn (Some p) page pa = Some (0, q', page') \<and>
               map_option room page' = map_option room page \<and> next_id q \<notin> set (a_ids a) \<and>
               rel q' (a_add (next_id q) (descs_needed page (unat out + unat inn)) p a)"
    and add_refuses:
      "rel q a \<Longrightarrow> 0 < unat out + unat inn \<Longrightarrow> unat out + unat inn < 2 ^ 32 \<Longrightarrow>
       a_free a < descs_needed page (unat out + unat inn) \<Longrightarrow>
       add_buf q sg out inn (Some p) page pa = Some (- ENOSPC, q, page)"
    and take_rel: "rel q a \<Longrightarrow> a_avail a \<noteq> [] \<Longrightarrow> rel q (a_take a)"
    and use_rel: "rel q a \<Longrightarrow> a_held a bid \<Longrightarrow> rel (device_use a bid len q) (a_complete bid len a)"
    and get_empty: "rel q a \<Longrightarrow> a_done a = [] \<Longrightarrow> get_buf q = Some (None, q)"
    and get_next:
      "rel q a \<Longrightarrow> a_done a = (bid, len) # ds \<Longrightarrow> a_lookup a bid = Some (n, p) \<Longrightarrow>
       \<exists>q'. get_buf q = Some (Some (Some p, len), q') \<and> rel q' (a_fetch a)"
    and has_iff: "rel q a \<Longrightarrow> has_buf q = Some (a_done a \<noteq> [])"

context virtqueue
begin

lemma add_returns:
  assumes "rel q a" "0 < unat out + unat inn" "unat out + unat inn < 2 ^ 16"
    "unat out + unat inn \<le> length sg" "\<forall>t. page = Some t \<longrightarrow> unat out + unat inn \<le> room t"
  shows "\<exists>r q' page'. add_buf q sg out inn (Some p) page pa = Some (r, q', page') \<and>
    (r = 0 \<longleftrightarrow> descs_needed page (unat out + unat inn) \<le> a_free a) \<and>
    (r = 0 \<or> r = - ENOSPC) \<and>
    (r = 0 \<longrightarrow> next_id q \<notin> set (a_ids a)) \<and>
    rel q' (if r = 0 then a_add (next_id q) (descs_needed page (unat out + unat inn)) p a else a)"
proof (cases "descs_needed page (unat out + unat inn) \<le> a_free a")
  case True
  then show ?thesis using add_accepts [OF assms True] by fastforce
next
  case False
  then have "add_buf q sg out inn (Some p) page pa = Some (- ENOSPC, q, page)"
    using assms by (intro add_refuses) auto
  then show ?thesis using assms(1) False by (simp add: ENOSPC_def)
qed

lemma get_returns:
  assumes rel: "rel q a"
  shows "\<exists>r q'. get_buf q = Some (r, q') \<and> rel q' (if r = None then a else a_fetch a) \<and>
    (case a_done a of
       [] \<Rightarrow> r = None
     | (bid, len) # ds \<Rightarrow> \<exists>n p. a_lookup a bid = Some (n, p) \<and> r = Some (Some p, len))"
proof (cases "a_done a")
  case Nil
  then show ?thesis using get_empty [OF rel] rel by simp
next
  case (Cons x ds)
  obtain bid len where x: "x = (bid, len)" by (cases x)
  obtain n p where lk: "a_lookup a bid = Some (n, p)"
    using a_lookup_done [OF rel_ok [OF rel]] Cons x by blast
  then show ?thesis using get_next [OF rel Cons [unfolded x] lk] Cons x by auto
qed

text \<open>
  The invariant of every interleaving: the relation is kept, and the pointers that came
  back together with those still out are those that were out at the start and those
  handed over since. No buffer is lost and none is returned twice.
\<close>

lemma trace_rel:
  assumes "vq_trace add_buf get_buf device_use next_id room q0 a0 q a ins outs" "rel q0 a0"
  shows "rel q a \<and> mset outs + a_ptrs a = mset ins + a_ptrs a0"
  using assms
proof (induction rule: vq_trace.induct)
  case (drv_add q a ins outs out inn sg page p pa r q' page')
  then have "rel q a" by simp
  from add_returns [OF this drv_add(2-5), of p pa]
  have "rel q' (if r = 0 then a_add (next_id q) (descs_needed page (unat out + unat inn)) p a else a)"
    using drv_add(6) by auto
  with drv_add show ?case by auto
next
  case (drv_get q a ins outs r q')
  then have rel: "rel q a" and eq: "mset outs + a_ptrs a = mset ins + a_ptrs a0" by auto
  from get_returns [OF rel] drv_get(2) have
    r: "rel q' (if r = None then a else a_fetch a)"
       "case a_done a of
       [] \<Rightarrow> r = None
     | (bid, len) # ds \<Rightarrow> \<exists>n p. a_lookup a bid = Some (n, p) \<and> r = Some (Some p, len)"
    by auto
  show ?case
  proof (cases "a_done a")
    case Nil
    then show ?thesis using r eq by simp
  next
    case (Cons x ds)
    then obtain bid len n p where "a_done a = (bid, len) # ds" "a_lookup a bid = Some (n, p)"
      "r = Some (Some p, len)" using r(2) by (cases x) auto
    moreover from this have "a_ptrs a = a_ptrs (a_fetch a) + {#p#}"
      using a_ptrs_fetch [OF rel_ok [OF rel]] by blast
    ultimately show ?thesis using r(1) eq by (simp add: add.assoc)
  qed
next
  case (dev_take q a ins outs)
  then show ?case using take_rel by simp
next
  case (dev_use q a ins outs bid len)
  then show ?case using use_rel by simp
qed simp

text \<open>The fetch loop ends and returns what the device has completed, in order.\<close>

lemma fetch_all_done:
  "rel q a \<Longrightarrow> length (a_done a) < k \<Longrightarrow>
   \<exists>xs q'. fetch_all get_buf k q = Some (xs, q') \<and>
     map (\<lambda>(p, len). (Some p, len)) xs = map (\<lambda>(bid, len). (map_option snd (a_lookup a bid), len)) (a_done a) \<and>
     rel q' (a\<lparr>a_out := filter (\<lambda>x. fst x \<notin> fst ` set (a_done a)) (a_out a), a_done := []\<rparr>)"
proof (induction k arbitrary: q a)
  case (Suc k)
  show ?case
  proof (cases "a_done a")
    case Nil
    then have "fetch_all get_buf (Suc k) q = Some ([], q)" using get_empty [OF Suc.prems(1)] by simp
    moreover have "rel q (a\<lparr>a_done := []\<rparr>)" using Suc.prems(1) Nil by (cases a) simp
    ultimately show ?thesis using Nil by simp
  next
    case (Cons x ds)
    obtain bid len where x: "x = (bid, len)" by (cases x)
    note ok = rel_ok [OF Suc.prems(1)]
    obtain n p where lk: "a_lookup a bid = Some (n, p)"
      using a_lookup_done [OF ok] Cons x by blast
    obtain q1 where q1: "get_buf q = Some (Some (Some p, len), q1)" "rel q1 (a_fetch a)"
      using get_next [OF Suc.prems(1) Cons [unfolded x] lk] by blast
    have dn: "a_done (a_fetch a) = ds" using Cons by (simp add: a_fetch_def)
    obtain xs q2 where r: "fetch_all get_buf k q1 = Some (xs, q2)"
      "map (\<lambda>(p, len). (Some p, len)) xs =
         map (\<lambda>(bid, len). (map_option snd (a_lookup (a_fetch a) bid), len)) ds"
      "rel q2 (a_fetch a\<lparr>a_out := filter (\<lambda>x. fst x \<notin> fst ` set ds) (a_out (a_fetch a)), a_done := []\<rparr>)"
      using Suc.IH [OF q1(2)] Suc.prems(2) Cons dn by auto
    have same: "a_lookup (a_fetch a) b = a_lookup a b" if "b \<noteq> bid" for b
      using that Cons x by (auto simp: a_lookup_def a_fetch_def a_remove_def map_of_filter_neq)
    have "bid \<notin> fst ` set ds" using ok Cons x by (auto simp: avq_ok_def)
    then have "map (\<lambda>(bid, len). (map_option snd (a_lookup (a_fetch a) bid), len)) ds =
        map (\<lambda>(bid, len). (map_option snd (a_lookup a bid), len)) ds"
      using same by (auto simp: image_iff)
    moreover have "filter (\<lambda>x. fst x \<notin> fst ` set ds) (a_out (a_fetch a)) =
        filter (\<lambda>y. fst y \<notin> fst ` set (a_done a)) (a_out a)"
      using Cons x by (auto simp: a_fetch_def a_remove_def intro: filter_cong)
    ultimately show ?thesis using r q1(1) Cons x lk by (auto simp: a_fetch_def)
  qed
qed simp

end

text \<open>Interrupt control: the callbacks are switched without disturbing the queue.\<close>

locale virtqueue_cb = virtqueue add_buf get_buf has_buf device_use next_id room rel
  for add_buf :: "'q \<Rightarrow> scatterlist list \<Rightarrow> u32 \<Rightarrow> u32 \<Rightarrow> 'o option \<Rightarrow> 't option \<Rightarrow> u64
                    \<Rightarrow> (int \<times> 'q \<times> 't option) option"
    and get_buf and has_buf and device_use and next_id and room and rel +
  fixes enable_cb :: "'q \<Rightarrow> (bool \<times> 'q) option"
    and disable_cb :: "'q \<Rightarrow> 'q"
    and kick_prepare :: "'q \<Rightarrow> bool \<times> 'q"
  assumes enable_rel: "rel q a \<Longrightarrow> \<exists>q'. enable_cb q = Some (a_done a = [], q') \<and> rel q' a"
    and disable_rel: "rel q a \<Longrightarrow> rel (disable_cb q) a"
    and kick_rel: "rel q a \<Longrightarrow> rel (snd (kick_prepare q)) a"

text \<open>
  Cleanup: buffers are detached in any order, after the device has been reset.
  \<open>owned q xs\<close> is the part of the relation that survives: the buffers the queue holds.
\<close>

locale virtqueue_cleanup =
  fixes rel :: "'q \<Rightarrow> 'o avq \<Rightarrow> bool"
    and owned :: "'q \<Rightarrow> nat \<Rightarrow> (nat \<times> nat \<times> 'o) list \<Rightarrow> bool"
    and detach :: "'q \<Rightarrow> ('o option \<times> 'q) option"
    and shutdown :: "'q \<Rightarrow> 'q option option"
  assumes rel_owned: "rel q a \<Longrightarrow> owned q (a_size a) (a_out a)"
    and owned_distinct: "owned q s xs \<Longrightarrow> distinct (map fst xs)"
    and detach_none: "owned q s [] \<Longrightarrow> detach q = Some (None, q)"
    and detach_some:
      "owned q s xs \<Longrightarrow> xs \<noteq> [] \<Longrightarrow>
       \<exists>bid n p q'. detach q = Some (Some p, q') \<and> (bid, n, p) \<in> set xs \<and>
                    owned q' s (a_remove bid xs)"
    and shutdown_rel: "owned q s xs \<Longrightarrow> \<exists>q'. shutdown q = Some (Some q') \<and> rel q' (a_empty s)"

context virtqueue_cleanup
begin

lemma detach_all_ptrs:
  "owned q s xs \<Longrightarrow> length xs < k \<Longrightarrow>
   \<exists>ps q'. detach_all detach k q = Some (ps, q') \<and> mset ps = mset (map (snd \<circ> snd) xs) \<and> owned q' s []"
proof (induction k arbitrary: q xs)
  case (Suc k)
  show ?case
  proof (cases "xs = []")
    case True
    then show ?thesis using Suc.prems detach_none [of q s] by simp
  next
    case False
    obtain bid n p q1 where d: "detach q = Some (Some p, q1)" "(bid, n, p) \<in> set xs"
      "owned q1 s (a_remove bid xs)"
      using detach_some [OF Suc.prems(1) False] by blast
    note dist = owned_distinct [OF Suc.prems(1)]
    have "Suc (length (a_remove bid xs)) = length xs"
      using d(2) by (intro length_a_remove [OF dist]) force
    then have "length (a_remove bid xs) < k" using Suc.prems(2) by simp
    from Suc.IH [OF d(3) this] obtain ps q2 where "detach_all detach k q1 = Some (ps, q2)"
      "mset ps = mset (map (snd \<circ> snd) (a_remove bid xs))" "owned q2 s []"
      by blast
    then show ?thesis using d a_ptrs_remove [OF dist d(2)] by (auto simp: comp_def)
  qed
qed simp

end

end
