(* ===== verification/DescPool.thy ===== *)
theory DescPool
  imports VirtqueueSpec
begin

text \<open>
  The bookkeeping both ring layouts share: a table of \<open>n\<close> entries linked by a next field,
  divided between a free list and the chains of the buffers in flight, with a data
  pointer at the first entry of each chain. The split ring links descriptors, the packed
  ring links its per-buffer states.
\<close>

subsection \<open>Linked lists in a table\<close>

fun linked_by :: "(nat \<Rightarrow> nat) \<Rightarrow> nat list \<Rightarrow> bool" where
  "linked_by f (x # y # zs) \<longleftrightarrow> f x = y \<and> linked_by f (y # zs)"
| "linked_by f _ = True"

lemma linked_by_append:
  "linked_by f (xs @ ys) \<longleftrightarrow> linked_by f xs \<and> linked_by f ys \<and>
     (xs \<noteq> [] \<and> ys \<noteq> [] \<longrightarrow> f (last xs) = hd ys)"
proof (induction xs)
  case (Cons x xs)
  then show ?case by (cases xs; cases ys) auto
qed simp

lemma linked_by_cong:
  "linked_by f xs \<Longrightarrow> (\<And>i. i \<in> set xs \<Longrightarrow> g i = f i) \<Longrightarrow> linked_by g xs"
  by (induction f xs rule: linked_by.induct) auto

lemma linked_by_tl: "linked_by f (x # xs) \<Longrightarrow> linked_by f xs \<and> (xs \<noteq> [] \<longrightarrow> f x = hd xs)"
  by (cases xs) auto

lemma linked_by_take: "linked_by f xs \<Longrightarrow> linked_by f (take n xs)"
  by (metis append_take_drop_id linked_by_append)

lemma linked_by_drop: "linked_by f xs \<Longrightarrow> linked_by f (drop n xs)"
  by (metis append_take_drop_id linked_by_append)

lemma linked_by_upt: "\<forall>j. a \<le> j \<and> Suc j < n \<longrightarrow> f j = Suc j \<Longrightarrow> linked_by f [a..<n]"
proof (induction "n - a" arbitrary: a)
  case (Suc m)
  then have IH: "linked_by f [Suc a..<n]" by simp
  show ?case
  proof (cases "Suc a < n")
    case True
    then have "[a..<n] = a # Suc a # [Suc (Suc a)..<n]" "[Suc a..<n] = Suc a # [Suc (Suc a)..<n]"
      by (simp_all add: upt_conv_Cons)
    then show ?thesis using IH Suc.prems True by simp
  next
    case False
    then have "[a..<n] = [a]" using Suc.hyps(2) by (simp add: upt_conv_Cons)
    then show ?thesis by simp
  qed
qed simp

text \<open>Putting a chain in front of the free list: its last entry is redirected.\<close>

lemma linked_by_put:
  assumes "linked_by f c" "distinct c" "c \<noteq> []" "fl \<noteq> [] \<longrightarrow> v = hd fl" "linked_by f fl"
    "set c \<inter> set fl = {}"
  shows "linked_by (f(last c := v)) (c @ fl)"
proof -
  obtain b where c: "c = b @ [last c]" using assms(3) by (metis append_butlast_last_id)
  then have nb: "last c \<notin> set b" using assms(2) by (metis distinct_append disjoint_iff list.set_intros(1))
  have nf: "last c \<notin> set fl" using assms(3,6) last_in_set [of c] by blast
  have "linked_by f (b @ [last c])" using assms(1) c by simp
  then have "linked_by f b" and e: "b \<noteq> [] \<Longrightarrow> f (last b) = last c"
    by (simp_all add: linked_by_append)
  from \<open>linked_by f b\<close> have "linked_by (f(last c := v)) b"
    by (rule linked_by_cong) (use nb in auto)
  moreover have "linked_by (f(last c := v)) fl"
    by (rule linked_by_cong [OF assms(5)]) (use nf in auto)
  moreover have "b \<noteq> [] \<Longrightarrow> (f(last c := v)) (last b) = f (last b)"
    using nb by (metis fun_upd_other last_in_set)
  ultimately have "linked_by (f(last c := v)) ((b @ [last c]) @ fl)"
    using e assms(4) by (simp only: linked_by_append) simp
  then show ?thesis using c by simp
qed

subsection \<open>Chains in flight\<close>

definition heads :: "(nat list \<times> 'o) list \<Rightarrow> (nat \<times> 'o) list" where
  "heads out = map (\<lambda>(c, p). (hd c, p)) out"

definition entries :: "(nat list \<times> 'o) list \<Rightarrow> (nat \<times> nat \<times> 'o) list" where
  "entries out = map (\<lambda>(c, p). (hd c, length c, p)) out"

lemma entries_sum: "sum_list (map (fst \<circ> snd) (entries out)) = length (concat (map fst out))"
  by (induction out) (auto simp: entries_def)

lemma heads_entries: "map fst (entries out) = map (hd \<circ> fst) out" "map fst (heads out) = map (hd \<circ> fst) out"
  by (auto simp: entries_def heads_def)

lemma hd_distinct:
  assumes "distinct (concat (map fst out))" "\<forall>x \<in> set out. fst x \<noteq> []"
  shows "distinct (map (hd \<circ> fst) out)"
  using assms
proof (induction out)
  case (Cons x out)
  have "hd (fst x) \<notin> (hd \<circ> fst) ` set out"
  proof
    assume "hd (fst x) \<in> (hd \<circ> fst) ` set out"
    then obtain y where y: "y \<in> set out" "hd (fst x) = hd (fst y)" by auto
    have "hd (fst x) \<in> set (fst x)" "hd (fst y) \<in> set (fst y)"
      using y(1) Cons.prems by (auto intro: hd_in_set)
    moreover have "set (fst x) \<inter> set (fst y) = {}" using y(1) Cons.prems by auto
    ultimately show False using y(2) by auto
  qed
  with Cons show ?case by auto
qed simp

lemma entries_append [simp]: "entries (xs @ ys) = entries xs @ entries ys"
  by (simp add: entries_def)

lemma entries_mem:
  "(bid, n, p) \<in> set (entries out) \<Longrightarrow> \<exists>us c vs. out = us @ (c, p) # vs \<and> hd c = bid \<and> length c = n"
  by (force simp: entries_def dest: split_list)

lemma entries_split: "entries (us @ (c, p) # vs) = entries us @ (hd c, length c, p) # entries vs"
  by (simp add: entries_def)

lemma map_of_heads_remove:
  assumes "distinct (map (hd \<circ> fst) (us @ (c, p) # vs))"
  shows "map_of (heads (us @ vs)) = (map_of (heads (us @ (c, p) # vs)))(hd c := None)"
proof
  fix i
  have "map_of (heads us) (hd c) = None" "map_of (heads vs) (hd c) = None"
    using assms by (auto simp: map_of_eq_None_iff heads_def image_iff)
  then show "map_of (heads (us @ vs)) i = ((map_of (heads (us @ (c, p) # vs)))(hd c := None)) i"
    by (auto simp: heads_def map_add_def split: option.splits)
qed

subsection \<open>The pool\<close>

definition pool ::
  "nat \<Rightarrow> (nat \<Rightarrow> nat) \<Rightarrow> nat \<Rightarrow> (nat \<Rightarrow> 'o option) \<Rightarrow> nat list \<Rightarrow> (nat list \<times> 'o) list \<Rightarrow> bool" where
  "pool n nxt first data fl out \<longleftrightarrow>
     linked_by nxt fl \<and> (fl \<noteq> [] \<longrightarrow> first = hd fl) \<and>
     (\<forall>x \<in> set out. fst x \<noteq> [] \<and> linked_by nxt (fst x)) \<and>
     (\<forall>i < n. data i = map_of (heads out) i) \<and> perm_upt n (fl @ concat (map fst out))"

lemma pool_distinct: "pool n nxt first data fl out \<Longrightarrow> distinct (fl @ concat (map fst out))"
  by (auto simp: pool_def simp del: distinct_append dest: perm_upt_distinct)

lemma pool_bound:
  assumes "pool n nxt first data fl out" "i \<in> set fl \<union> (\<Union>x \<in> set out. set (fst x))"
  shows "i < n"
proof -
  have "set (fl @ concat (map fst out)) = {0..<n}"
    using assms(1) by (intro perm_upt_set) (simp add: pool_def)
  moreover have "i \<in> set (fl @ concat (map fst out))" using assms(2) by auto
  ultimately show ?thesis by auto
qed

lemma pool_nonempty: "pool n nxt first data fl out \<Longrightarrow> x \<in> set out \<Longrightarrow> fst x \<noteq> []"
  by (auto simp: pool_def)

lemma pool_heads: "pool n nxt first data fl out \<Longrightarrow> distinct (map (hd \<circ> fst) out)"
  using pool_distinct [of n nxt first data fl out] pool_nonempty [of n nxt first data fl out]
  by (intro hd_distinct) auto

lemma pool_length:
  "pool n nxt first data fl out \<Longrightarrow> length fl + sum_list (map (fst \<circ> snd) (entries out)) = n"
  unfolding entries_sum by (auto simp: pool_def dest!: perm_upt_length)

lemma pool_free:
  assumes "pool n nxt first data fl out"
  shows "linked_by nxt fl" "fl \<noteq> [] \<Longrightarrow> first = hd fl" "distinct fl" "\<forall>i \<in> set fl. i < n" "length fl \<le> n"
  using assms pool_distinct [OF assms] pool_bound [OF assms] pool_length [OF assms]
  by (auto simp: pool_def)

lemma pool_chain_free: "pool n nxt first data fl out \<Longrightarrow> x \<in> set out \<Longrightarrow> set (fst x) \<inter> set fl = {}"
  using pool_distinct [of n nxt first data fl out] by auto

lemma pool_head:
  assumes "pool n nxt first data fl (us @ (c, p) # vs)"
  shows "data (hd c) = Some p" "hd c < n" "c \<noteq> []"
proof -
  show ne: "c \<noteq> []" using pool_nonempty [OF assms, of "(c, p)"] by simp
  then show b: "hd c < n" by (intro pool_bound [OF assms]) auto
  have "map_of (heads (us @ (c, p) # vs)) (hd c) = Some p"
  proof (rule map_of_is_SomeI)
    show "distinct (map fst (heads (us @ (c, p) # vs)))"
      unfolding heads_entries by (rule pool_heads [OF assms])
  qed (simp add: heads_def)
  then show "data (hd c) = Some p" using assms b by (simp add: pool_def)
qed

lemma pool_entries_remove:
  assumes "pool n nxt first data fl (us @ (c, p) # vs)"
  shows "a_remove (hd c) (entries (us @ (c, p) # vs)) = entries (us @ vs)"
proof -
  have "distinct (map fst (entries (us @ (c, p) # vs)))"
    unfolding heads_entries by (rule pool_heads [OF assms])
  then show ?thesis
    using a_remove_split [of "entries us" "hd c" "(length c, p)" "entries vs", folded entries_split entries_append]
    by blast
qed

lemma pool_entries_pos: "pool n nxt first data fl out \<Longrightarrow> x \<in> set (entries out) \<Longrightarrow> 0 < fst (snd x)"
  using pool_nonempty by (fastforce simp: entries_def)

lemma pool_put:
  assumes p: "pool n nxt first data fl (us @ (c, p) # vs)"
  shows "pool n (nxt(last c := first)) (hd c) (data(hd c := None)) (c @ fl) (us @ vs)"
proof -
  let ?out = "us @ (c, p) # vs"
  have dist: "distinct (fl @ concat (map fst ?out))" by (rule pool_distinct [OF p])
  have ne: "c \<noteq> []" using pool_head(3) [OF p] .
  have lk: "linked_by (nxt(last c := first)) (c @ fl)"
    using p dist ne by (intro linked_by_put) (auto simp: pool_def)
  have cs: "fst x \<noteq> [] \<and> linked_by (nxt(last c := first)) (fst x)" if x: "x \<in> set (us @ vs)" for x
  proof -
    have "last c \<notin> set (fst x)" using dist x last_in_set [OF ne] by auto
    moreover have "linked_by nxt (fst x)" "fst x \<noteq> []" using p x by (auto simp: pool_def)
    ultimately show ?thesis by (auto elim!: linked_by_cong)
  qed
  have pm: "perm_upt n ((c @ fl) @ concat (map fst (us @ vs)))"
    by (rule perm_upt_mset [of _ "fl @ concat (map fst ?out)"]) (use p in \<open>auto simp: pool_def\<close>)
  show ?thesis
    using lk cs pm ne p map_of_heads_remove [OF pool_heads [OF p]]
    by (simp add: pool_def)
qed

lemma pool_take:
  assumes p: "pool n nxt first data fl out" and k: "0 < k" "k \<le> length fl"
    and nxt: "\<forall>i < n. nxt' i = nxt i" and first': "drop k fl \<noteq> [] \<longrightarrow> first' = hd (drop k fl)"
    and data': "\<forall>i < n. data' i = (data(hd fl := Some q)) i"
  shows "pool n nxt' first' data' (drop k fl) (out @ [(take k fl, q)])"
proof -
  note F = pool_free [OF p]
  have ne: "fl \<noteq> []" using k by auto
  have b: "\<forall>i \<in> set (drop k fl). i < n" "\<forall>i \<in> set (take k fl). i < n"
    using F(4) by (meson in_set_dropD in_set_takeD)+
  have lk: "linked_by nxt' (drop k fl)" "linked_by nxt' (take k fl)"
    using linked_by_drop [OF F(1), of k] linked_by_take [OF F(1), of k] b nxt
    by (auto elim!: linked_by_cong)
  have cs: "fst x \<noteq> [] \<and> linked_by nxt' (fst x)" if x: "x \<in> set out" for x
  proof -
    have "\<forall>i \<in> set (fst x). i < n" using x by (auto intro!: pool_bound [OF p])
    moreover have "fst x \<noteq> []" "linked_by nxt (fst x)" using p x by (auto simp: pool_def)
    ultimately show ?thesis using nxt by (auto elim!: linked_by_cong)
  qed
  have hdt: "hd (take k fl) = hd fl" using k by simp
  have "hd fl \<notin> fst ` set (heads out)"
  proof
    assume "hd fl \<in> fst ` set (heads out)"
    then obtain x where x: "x \<in> set out" "hd fl = hd (fst x)" by (auto simp: heads_def)
    moreover have "hd (fst x) \<in> set (fst x)" using pool_nonempty [OF p x(1)] by simp
    moreover have "hd fl \<in> set fl" using ne by simp
    ultimately show False using pool_chain_free [OF p x(1)] by auto
  qed
  then have none: "map_of (heads out) (hd fl) = None" by (simp add: map_of_eq_None_iff)
  have dt: "\<forall>i < n. data' i = map_of (heads (out @ [(take k fl, q)])) i"
    using data' p none by (auto simp: pool_def heads_def hdt map_add_def split: option.splits)
  have pm: "perm_upt n (drop k fl @ concat (map fst (out @ [(take k fl, q)])))"
  proof (rule perm_upt_mset [of _ "fl @ concat (map fst out)"])
    have "mset fl = mset (take k fl) + mset (drop k fl)"
      by (metis append_take_drop_id mset_append)
    then show "mset (drop k fl @ concat (map fst (out @ [(take k fl, q)]))) =
        mset (fl @ concat (map fst out))" by simp
  qed (use p in \<open>simp add: pool_def\<close>)
  show ?thesis unfolding pool_def using lk cs dt pm first' k ne by auto
qed

lemma pool_init: "\<forall>j. Suc j < n \<longrightarrow> nxt j = Suc j \<Longrightarrow> \<forall>i < n. data i = None \<Longrightarrow> pool n nxt 0 data [0..<n] []"
  by (auto simp: pool_def heads_def perm_upt_upt intro!: linked_by_upt)

text \<open>The part of the abstract queue a pool represents.\<close>

lemma pool_avq:
  assumes "pool n nxt first data fl out" "a_out a = entries out" "a_size a = n"
  shows "a_free a = length fl"
  using pool_length [OF assms(1)] assms(2,3) by (simp add: a_free_def a_descs_def)

end
