(* ===== verification/SplitRingProofs.thy ===== *)
theory SplitRingProofs
  imports DescPool
begin

text \<open>
  Correctness of the split ring. The invariant \<open>split_inv\<close> divides the descriptor table
  between the free list and the chains in flight; \<open>split_rel\<close> adds the contents of the
  available and used rings and relates the queue to the abstract one. The main results
  are that every routine of \<^verbatim>\<open>src/VirtIO/VirtIORing.c\<close> returns on a related queue and
  refines the abstract operation; they are packaged as interpretations of the
  \<open>virtqueue\<close> locales.
\<close>

subsection \<open>The invariant\<close>

definition dnext :: "vring_desc list \<Rightarrow> nat \<Rightarrow> nat" where
  "dnext ds i = unat (desc_next (ds ! i))"

abbreviation linked :: "vring_desc list \<Rightarrow> nat list \<Rightarrow> bool" where
  "linked ds \<equiv> linked_by (dnext ds)"

fun chain :: "vring_desc list \<Rightarrow> nat list \<Rightarrow> bool" where
  "chain ds [] \<longleftrightarrow> False"
| "chain ds [x] \<longleftrightarrow> \<not> has_next (ds ! x)"
| "chain ds (x # y # zs) \<longleftrightarrow>
     has_next (ds ! x) \<and> unat (desc_next (ds ! x)) = y \<and> chain ds (y # zs)"

definition split_shape :: "'o virtqueue_split \<Rightarrow> bool" where
  "split_shape vq \<longleftrightarrow>
     (\<exists>k \<le> 15. unat (sq_num vq) = 2 ^ k) \<and>
     length (sq_desc vq) = unat (sq_num vq) \<and> length (opaque vq) = unat (sq_num vq) \<and>
     length (avail_ring (sq_avail vq)) = Suc (unat (sq_num vq)) \<and>
     length (used_ring (sq_used vq)) = unat (sq_num vq)"

definition split_inv :: "'o virtqueue_split \<Rightarrow> nat list \<Rightarrow> (nat list \<times> 'o) list \<Rightarrow> bool" where
  "split_inv vq fl out \<longleftrightarrow>
     split_shape vq \<and> unat (num_unused vq) = length fl \<and>
     pool (unat (sq_num vq)) (dnext (sq_desc vq)) (unat (first_unused vq)) (\<lambda>i. opaque vq ! i) fl out \<and>
     (\<forall>x \<in> set out. chain (sq_desc vq) (fst x))"

definition split_owned :: "'o virtqueue_split \<Rightarrow> nat \<Rightarrow> (nat \<times> nat \<times> 'o) list \<Rightarrow> bool" where
  "split_owned vq s xs \<longleftrightarrow>
     s = unat (sq_num vq) \<and> (\<exists>fl out. split_inv vq fl out \<and> xs = entries out)"

definition split_rings :: "'o virtqueue_split \<Rightarrow> nat list \<Rightarrow> (nat \<times> u32) list \<Rightarrow> bool" where
  "split_rings vq av dn \<longleftrightarrow>
     avail_idx (sq_avail vq) = master_idx vq \<and>
     ring_window (unat (sq_num vq)) (avail_ring (sq_avail vq))
       (master_idx vq - word_of_nat (length av)) unat av \<and>
     used_idx (sq_used vq) = last_used vq + word_of_nat (length dn) \<and>
     ring_window (unat (sq_num vq)) (used_ring (sq_used vq)) (last_used vq)
       (\<lambda>e. (unat (elem_id e), elem_len e)) dn"

definition split_rel :: "'o virtqueue_split \<Rightarrow> 'o avq \<Rightarrow> bool" where
  "split_rel vq a \<longleftrightarrow>
     avq_ok a \<and> split_owned vq (a_size a) (a_out a) \<and> split_rings vq (a_avail a) (a_done a)"

subsection \<open>Shape and partition\<close>

lemma split_shape_bounds:
  assumes "split_shape vq"
  shows "0 < unat (sq_num vq)" "unat (sq_num vq) \<le> 2 ^ 15" "unat (sq_num vq) dvd 2 ^ 16"
proof -
  obtain k where k: "k \<le> 15" "unat (sq_num vq) = 2 ^ k"
    using assms by (auto simp: split_shape_def)
  then show "0 < unat (sq_num vq)" by simp
  show "unat (sq_num vq) \<le> 2 ^ 15"
    unfolding k(2) by (rule power_increasing) (use k in auto)
  show "unat (sq_num vq) dvd 2 ^ 16"
    unfolding k(2) by (rule le_imp_power_dvd) (use k in auto)
qed

lemma DESC_INDEX_mod:
  assumes "split_shape vq"
  shows "unat (DESC_INDEX (sq_num vq) (ucast (i :: u16))) = unat i mod unat (sq_num vq)"
proof -
  obtain k where k: "unat (sq_num vq) = 2 ^ k"
    using assms by (auto simp: split_shape_def)
  with and_mask_mod [OF k, of "ucast i"] k show ?thesis by (simp add: DESC_INDEX_def)
qed

lemma split_inv_shape: "split_inv vq fl out \<Longrightarrow> split_shape vq"
  by (simp add: split_inv_def)

lemma split_inv_pool:
  "split_inv vq fl out \<Longrightarrow>
   pool (unat (sq_num vq)) (dnext (sq_desc vq)) (unat (first_unused vq)) (\<lambda>i. opaque vq ! i) fl out"
  by (simp add: split_inv_def)

lemma chain_not_Nil: "chain ds c \<Longrightarrow> c \<noteq> []"
  by auto

lemma chain_linked: "chain ds c \<Longrightarrow> linked ds c"
  by (induction ds c rule: chain.induct) (auto simp: dnext_def)

lemma dnext_update: "k < length ds \<Longrightarrow> dnext (ds[k := d]) = (dnext ds)(k := unat (desc_next d))"
  by (auto simp: dnext_def nth_list_update)

lemma chain_cong:
  "chain ds xs \<Longrightarrow> (\<And>i. i \<in> set xs \<Longrightarrow> ds' ! i = ds ! i) \<Longrightarrow> chain ds' xs"
  by (induction ds xs rule: chain.induct) auto

lemma chain_update: "chain ds xs \<Longrightarrow> k \<notin> set xs \<Longrightarrow> chain (ds[k := d]) xs"
  by (erule chain_cong) (simp add: nth_update_notin)

lemma linked_update: "linked ds xs \<Longrightarrow> k \<notin> set xs \<Longrightarrow> linked (ds[k := d]) xs"
  by (erule linked_by_cong) (simp add: dnext_def nth_update_notin)

subsection \<open>Returning a chain to the free list\<close>

text \<open>What a change of the descriptor bookkeeping leaves alone.\<close>

definition same_rings :: "'o virtqueue_split \<Rightarrow> 'o virtqueue_split \<Rightarrow> bool" where
  "same_rings vq vq' \<longleftrightarrow>
     sq_index vq' = sq_index vq \<and> sq_num vq' = sq_num vq \<and> sq_avail vq' = sq_avail vq \<and>
     sq_used vq' = sq_used vq \<and> master_flags vq' = master_flags vq \<and>
     master_idx vq' = master_idx vq \<and> last_used vq' = last_used vq \<and>
     num_added_since_kick vq' = num_added_since_kick vq"

lemma chain_walk_chain:
  "chain ds c \<Longrightarrow> \<forall>i \<in> set c. i < length ds \<Longrightarrow> unat idx = hd c \<Longrightarrow>
   \<exists>l. chain_walk ds idx n = Some (l, n + word_of_nat (length c - 1)) \<and> unat l = last c"
proof (induction ds c arbitrary: idx n rule: chain.induct)
  case (2 ds x)
  then show ?case by (subst chain_walk.simps) (auto simp: rd_def)
next
  case (3 ds x y zs)
  then have "\<exists>l. chain_walk ds (desc_next (ds ! x)) (n + 1) =
      Some (l, (n + 1) + word_of_nat (length (y # zs) - 1)) \<and> unat l = last (y # zs)"
    by (intro "3.IH") auto
  with 3 show ?case by (subst chain_walk.simps) (auto simp: rd_def algebra_simps)
qed simp

lemma put_unused_desc_chain_inv:
  assumes inv: "split_inv vq fl (us @ (c, p) # vs)" and idx: "unat idx = hd c"
  shows "\<exists>vq'. put_unused_desc_chain vq idx = Some vq' \<and> split_inv vq' (c @ fl) (us @ vs) \<and>
           same_rings vq vq' \<and> (\<forall>i. i \<notin> set c \<longrightarrow> sq_desc vq' ! i = sq_desc vq ! i)"
proof -
  let ?N = "unat (sq_num vq)" and ?out = "us @ (c, p) # vs"
  have sh: "split_shape vq" by (rule split_inv_shape [OF inv])
  have len: "length (sq_desc vq) = ?N" "length (opaque vq) = ?N"
    using sh by (auto simp: split_shape_def)
  note P = split_inv_pool [OF inv]
  have ch: "chain (sq_desc vq) c" and ne: "c \<noteq> []"
    using inv by (auto simp: split_inv_def dest: chain_not_Nil)
  have bd: "\<forall>i \<in> set c. i < ?N" by (auto intro!: pool_bound [OF P])
  have dist: "distinct (fl @ concat (map fst ?out))" by (rule pool_distinct [OF P])
  have hdN: "hd c < ?N" and lastN: "last c < ?N" using bd ne by auto
  obtain l where walk: "chain_walk (sq_desc vq) idx (num_unused vq) =
      Some (l, num_unused vq + word_of_nat (length c - 1))" and l: "unat l = last c"
    using chain_walk_chain [OF ch _ idx] bd len by auto
  let ?d = "(sq_desc vq ! last c)\<lparr>desc_flags := VIRTQ_DESC_F_NEXT, desc_next := first_unused vq\<rparr>"
  let ?vq = "vq\<lparr>opaque := (opaque vq)[hd c := None], sq_desc := (sq_desc vq)[last c := ?d],
                 num_unused := num_unused vq + word_of_nat (length c - 1) + 1, first_unused := idx\<rparr>"
  have put: "put_unused_desc_chain vq idx = Some ?vq"
    using hdN lastN len by (simp add: put_unused_desc_chain_def walk idx l)
  have cnt: "length fl + length c \<le> ?N"
    using pool_length [OF P] unfolding entries_sum by simp
  have N: "?N \<le> 2 ^ 15" by (rule split_shape_bounds [OF sh])
  have "num_unused vq + word_of_nat (length c - 1) + 1 = num_unused vq + word_of_nat (length c)"
    using ne by (cases c) (simp_all add: algebra_simps)
  moreover have "unat (num_unused vq) = length fl" using inv by (simp add: split_inv_def)
  moreover have "unat (word_of_nat (length c) :: u32) = length c"
    using cnt N by (intro unat_of_nat_small) simp
  ultimately have n: "unat (num_unused vq + word_of_nat (length c - 1) + 1) = length (c @ fl)"
    using cnt N by (simp only: unat_plus_small length_append) (simp add: unat_plus_small)
  have cs: "\<forall>x \<in> set (us @ vs). chain ((sq_desc vq)[last c := ?d]) (fst x)"
  proof
    fix x assume x: "x \<in> set (us @ vs)"
    then have "chain (sq_desc vq) (fst x)" using inv by (auto simp: split_inv_def)
    moreover have "last c \<notin> set (fst x)" using dist x ne by (auto dest: last_in_set)
    ultimately show "chain ((sq_desc vq)[last c := ?d]) (fst x)" by (rule chain_update)
  qed
  have dn: "dnext ((sq_desc vq)[last c := ?d]) = (dnext (sq_desc vq))(last c := unat (first_unused vq))"
    using lastN len by (simp add: dnext_update)
  have op: "(!) ((opaque vq)[hd c := None]) = ((!) (opaque vq))(hd c := None)"
    using hdN len by (intro ext) (simp add: nth_list_update)
  have "pool ?N (dnext ((sq_desc vq)[last c := ?d])) (hd c) ((!) ((opaque vq)[hd c := None])) (c @ fl) (us @ vs)"
    unfolding dn op by (rule pool_put [OF P])
  then have "split_inv ?vq (c @ fl) (us @ vs)"
    using sh n cs idx by (simp add: split_inv_def split_shape_def)
  moreover have "\<forall>i. i \<notin> set c \<longrightarrow> sq_desc ?vq ! i = sq_desc vq ! i"
    using last_in_set [OF ne] by (auto intro: nth_update_notin [of _ "- set c"])
  ultimately show ?thesis using put by (auto simp: same_rings_def)
qed

subsection \<open>Taking descriptors from the free list\<close>

lemma chainI:
  "linked ds c \<Longrightarrow> c \<noteq> [] \<Longrightarrow> \<forall>x \<in> set (butlast c). has_next (ds ! x) \<Longrightarrow> \<not> has_next (ds ! last c) \<Longrightarrow>
   chain ds c"
  by (induction ds c rule: chain.induct) (auto simp: dnext_def)

text \<open>The descriptor table and the opaque array after a chain has been taken.\<close>

lemma split_inv_consume:
  assumes inv: "split_inv vq fl out" and n: "0 < n" "n \<le> length fl"
    and rings: "same_rings vq vq'"
    and len: "length (sq_desc vq') = length (sq_desc vq)"
    and other: "\<forall>m. m \<notin> set (take n fl) \<longrightarrow> sq_desc vq' ! m = sq_desc vq ! m"
    and nx: "\<forall>m \<in> set (take n fl). desc_next (sq_desc vq' ! m) = desc_next (sq_desc vq ! m)"
    and ch: "chain (sq_desc vq') (take n fl)"
    and op: "opaque vq' = (opaque vq)[hd fl := Some p]"
    and first: "drop n fl \<noteq> [] \<longrightarrow> unat (first_unused vq') = hd (drop n fl)"
    and unused: "num_unused vq' = num_unused vq - word_of_nat n"
  shows "split_inv vq' (drop n fl) (out @ [(take n fl, p)])"
proof -
  let ?N = "unat (sq_num vq)"
  note P = split_inv_pool [OF inv]
  have sh: "split_shape vq" by (rule split_inv_shape [OF inv])
  have num: "sq_num vq' = sq_num vq" using rings by (simp add: same_rings_def)
  have sh': "split_shape vq'"
    using sh rings len op by (simp add: split_shape_def same_rings_def)
  have "unat (word_of_nat n :: u32) = n"
    using n pool_free(5) [OF P] split_shape_bounds(2) [OF sh] by (intro unat_of_nat_small) simp
  then have cnt: "unat (num_unused vq') = length (drop n fl)"
    using inv n unfolding unused by (subst unat_minus_le) (auto simp: split_inv_def word_le_nat_alt)
  have cs: "\<forall>x \<in> set (out @ [(take n fl, p)]). chain (sq_desc vq') (fst x)"
  proof
    fix x assume x: "x \<in> set (out @ [(take n fl, p)])"
    show "chain (sq_desc vq') (fst x)"
    proof (cases "x \<in> set out")
      case True
      then have "chain (sq_desc vq) (fst x)" using inv by (simp add: split_inv_def)
      moreover have "set (fst x) \<inter> set (take n fl) = {}"
        using pool_chain_free [OF P True] set_take_subset [of n fl] by auto
      ultimately show ?thesis using other by (elim chain_cong) auto
    qed (use x ch in simp)
  qed
  have "\<forall>i < ?N. dnext (sq_desc vq') i = dnext (sq_desc vq) i"
    using other nx unfolding dnext_def by metis
  then have "pool ?N (dnext (sq_desc vq')) (unat (first_unused vq')) (\<lambda>i. opaque vq' ! i) (drop n fl)
      (out @ [(take n fl, p)])"
    using n first sh by (intro pool_take [OF P]) (auto simp: op nth_list_update split_shape_def)
  then show ?thesis using sh' cnt cs by (simp add: split_inv_def num)
qed

lemma has_next_flags:
  "has_next (d\<lparr>desc_flags := VIRTQ_DESC_F_NEXT OR (if w then VIRTQ_DESC_F_WRITE else 0)\<rparr>)"
  "\<not> has_next (clear_next d)"
  "\<not> has_next (d\<lparr>desc_flags := VIRTQ_DESC_F_INDIRECT\<rparr>)"
  by (simp_all add: has_next_def clear_next_def split_flag_defs and.assoc)

text \<open>What the code stores in a descriptor; the \<open>next\<close> field keeps its value.\<close>

definition seg_desc :: "scatterlist \<Rightarrow> bool \<Rightarrow> vring_desc \<Rightarrow> vring_desc" where
  "seg_desc s w d = d\<lparr>desc_addr := physAddr s, desc_len := sg_length s,
     desc_flags := VIRTQ_DESC_F_NEXT OR (if w then VIRTQ_DESC_F_WRITE else 0)\<rparr>"

lemma seg_desc_next [simp]: "desc_next (seg_desc s w d) = desc_next d"
  by (simp add: seg_desc_def)

lemma clear_next_next [simp]: "desc_next (clear_next d) = desc_next d"
  by (simp add: clear_next_def)

lemma has_next_seg_desc [simp]: "has_next (seg_desc s w d)"
  by (simp add: seg_desc_def has_next_def split_flag_defs)

lemma get_write_step:
  assumes fl: "fl = x # xs" and lk: "linked (sq_desc vq) fl" and hd: "unat (first_unused vq) = hd fl"
    and bd: "x < length (sq_desc vq)" and dist: "distinct fl"
  shows "get_unused_desc vq = Some (first_unused vq, vq\<lparr>first_unused := desc_next (sq_desc vq ! x),
           num_unused := num_unused vq - 1\<rparr>)"
    and "write_desc (vq\<lparr>first_unused := desc_next (sq_desc vq ! x), num_unused := u, opaque := ops\<rparr>)
           (first_unused vq) s w =
         Some (vq\<lparr>first_unused := desc_next (sq_desc vq ! x), num_unused := u, opaque := ops,
           sq_desc := (sq_desc vq)[x := seg_desc s w (sq_desc vq ! x)]\<rparr>)"
    and "xs \<noteq> [] \<longrightarrow> unat (desc_next (sq_desc vq ! x)) = hd xs"
    and "linked ((sq_desc vq)[x := d]) xs"
proof -
  show "get_unused_desc vq = Some (first_unused vq, vq\<lparr>first_unused := desc_next (sq_desc vq ! x),
           num_unused := num_unused vq - 1\<rparr>)"
    using fl hd bd by (simp add: get_unused_desc_def)
  show "write_desc (vq\<lparr>first_unused := desc_next (sq_desc vq ! x), num_unused := u, opaque := ops\<rparr>)
           (first_unused vq) s w =
         Some (vq\<lparr>first_unused := desc_next (sq_desc vq ! x), num_unused := u, opaque := ops,
           sq_desc := (sq_desc vq)[x := seg_desc s w (sq_desc vq ! x)]\<rparr>)"
    using fl hd bd by (simp add: write_desc_def seg_desc_def)
  show "xs \<noteq> [] \<longrightarrow> unat (desc_next (sq_desc vq ! x)) = hd xs"
    using fl linked_by_tl [of "dnext (sq_desc vq)" x xs] lk by (simp add: dnext_def)
  have "linked (sq_desc vq) xs" using fl linked_by_tl [of "dnext (sq_desc vq)" x xs] lk by simp
  then show "linked ((sq_desc vq)[x := d]) xs" using fl dist by (auto intro: linked_update)
qed

lemma add_rest_spec:
  "k \<le> length fl \<Longrightarrow> linked (sq_desc vq) fl \<Longrightarrow> (fl \<noteq> [] \<longrightarrow> unat (first_unused vq) = hd fl) \<Longrightarrow>
   distinct fl \<Longrightarrow> \<forall>i \<in> set fl. i < length (sq_desc vq) \<Longrightarrow> i + k \<le> length sg \<Longrightarrow>
   \<exists>ds f l. add_rest k sg out i lst vq =
       Some (l, vq\<lparr>sq_desc := ds, first_unused := f, num_unused := num_unused vq - word_of_nat k\<rparr>) \<and>
     length ds = length (sq_desc vq) \<and> (drop k fl \<noteq> [] \<longrightarrow> unat f = hd (drop k fl)) \<and>
     (\<forall>m. m \<notin> set (take k fl) \<longrightarrow> ds ! m = sq_desc vq ! m) \<and>
     (\<forall>j < k. ds ! (fl ! j) = seg_desc (sg ! (i + j)) (unat out \<le> i + j) (sq_desc vq ! (fl ! j))) \<and>
     unat l = last (unat lst # take k fl)"
proof (induction k arbitrary: fl i lst vq)
  case 0
  show ?case
    by (rule exI [of _ "sq_desc vq"], rule exI [of _ "first_unused vq"], rule exI [of _ lst])
      (use 0 in auto)
next
  case (Suc k)
  then obtain x xs where fl: "fl = x # xs" by (cases fl) auto
  let ?d = "seg_desc (sg ! i) (unat out \<le> i) (sq_desc vq ! x)"
  let ?vq1 = "vq\<lparr>first_unused := desc_next (sq_desc vq ! x), num_unused := num_unused vq - 1\<rparr>"
  let ?vq2 = "?vq1\<lparr>sq_desc := (sq_desc vq)[x := ?d]\<rparr>"
  note step = get_write_step [OF fl Suc.prems(2)]
  have st: "get_unused_desc vq = Some (first_unused vq, ?vq1)"
    "write_desc ?vq1 (first_unused vq) (sg ! i) (unat out \<le> i) = Some ?vq2"
    using step(1) step(2) [where ops = "opaque vq" and u = "num_unused vq - 1"] Suc.prems fl by auto
  have "\<exists>ds f l. add_rest k sg out (Suc i) (first_unused vq) ?vq2 =
       Some (l, ?vq2\<lparr>sq_desc := ds, first_unused := f, num_unused := num_unused ?vq2 - word_of_nat k\<rparr>) \<and>
     length ds = length (sq_desc ?vq2) \<and> (drop k xs \<noteq> [] \<longrightarrow> unat f = hd (drop k xs)) \<and>
     (\<forall>m. m \<notin> set (take k xs) \<longrightarrow> ds ! m = sq_desc ?vq2 ! m) \<and>
     (\<forall>j < k. ds ! (xs ! j) =
        seg_desc (sg ! (Suc i + j)) (unat out \<le> Suc i + j) (sq_desc ?vq2 ! (xs ! j))) \<and>
     unat l = last (unat (first_unused vq) # take k xs)"
    using Suc.prems fl step(3) step(4) [of ?d] by (intro Suc.IH) auto
  then obtain ds f l where r: "add_rest k sg out (Suc i) (first_unused vq) ?vq2 =
       Some (l, ?vq2\<lparr>sq_desc := ds, first_unused := f, num_unused := num_unused ?vq2 - word_of_nat k\<rparr>)"
     "length ds = length (sq_desc vq)" "drop k xs \<noteq> [] \<longrightarrow> unat f = hd (drop k xs)"
     "\<forall>m. m \<notin> set (take k xs) \<longrightarrow> ds ! m = sq_desc ?vq2 ! m"
     "\<forall>j < k. ds ! (xs ! j) =
        seg_desc (sg ! (Suc i + j)) (unat out \<le> Suc i + j) (sq_desc ?vq2 ! (xs ! j))"
     "unat l = last (unat (first_unused vq) # take k xs)"
    by auto
  have nx: "x \<notin> set xs" using Suc.prems(4) fl by simp
  then have xk: "x \<notin> set (take k xs)" by (meson in_set_takeD)
  have xN: "x < length (sq_desc vq)" using Suc.prems(5) fl by simp
  have seg: "ds ! (fl ! j) = seg_desc (sg ! (i + j)) (unat out \<le> i + j) (sq_desc vq ! (fl ! j))"
    if "j < Suc k" for j
  proof (cases j)
    case 0
    then show ?thesis using r(4) xk fl xN by simp
  next
    case (Suc j')
    then have "xs ! j' \<in> set xs" using that Suc.prems(1) fl by simp
    then have "xs ! j' \<noteq> x" using nx by auto
    then show ?thesis using r(5) that Suc fl by auto
  qed
  have oth: "ds ! m = sq_desc vq ! m" if "m \<notin> set (take (Suc k) fl)" for m
    using that r(4) fl by auto
  have "add_rest (Suc k) sg out i lst vq =
      Some (l, vq\<lparr>sq_desc := ds, first_unused := f, num_unused := num_unused vq - word_of_nat (Suc k)\<rparr>)"
    using Suc.prems(6) r(1) by (simp add: st algebra_simps)
  moreover have "unat l = last (unat lst # take (Suc k) fl)" using r(6) fl Suc.prems(3) by simp
  moreover have "drop (Suc k) fl \<noteq> [] \<longrightarrow> unat f = hd (drop (Suc k) fl)" using r(3) fl by simp
  ultimately show ?case using r(2) seg oth by blast
qed

subsection \<open>Adding a buffer\<close>

text \<open>What the device finds in descriptor \<open>j\<close> of a chain of \<open>n\<close>.\<close>

definition chain_desc :: "scatterlist list \<Rightarrow> u32 \<Rightarrow> nat \<Rightarrow> nat \<Rightarrow> vring_desc \<Rightarrow> vring_desc" where
  "chain_desc sg out n j d =
     (let e = seg_desc (sg ! j) (unat out \<le> j) d in if Suc j = n then clear_next e else e)"

lemma split_inv_linked:
  assumes "split_inv vq fl out"
  shows "linked (sq_desc vq) fl" "fl \<noteq> [] \<Longrightarrow> unat (first_unused vq) = hd fl" "distinct fl"
    "\<forall>i \<in> set fl. i < length (sq_desc vq)" "unat (num_unused vq) = length fl"
  using assms pool_free [OF split_inv_pool [OF assms]]
  by (auto simp: split_inv_def split_shape_def)

lemma chain_desc_chain:
  assumes c: "length c = n" "0 < n" "distinct c" and lk: "linked ds c"
    and d: "\<forall>j < n. ds' ! (c ! j) = chain_desc sg out n j (ds ! (c ! j))"
  shows "chain ds' c"
proof (rule chainI)
  have nx: "desc_next (ds' ! i) = desc_next (ds ! i)" if i: "i \<in> set c" for i
  proof -
    obtain j where "j < n" "i = c ! j" using i c by (auto simp: in_set_conv_nth)
    then show ?thesis using d by (simp add: chain_desc_def Let_def)
  qed
  show "linked ds' c" by (rule linked_by_cong [OF lk]) (simp add: dnext_def nx)
  show "c \<noteq> []" using c by auto
  then have "last c = c ! (n - 1)" using c by (simp add: last_conv_nth)
  then show "\<not> has_next (ds' ! last c)"
    using d c by (simp add: chain_desc_def Let_def has_next_flags)
  show "\<forall>x \<in> set (butlast c). has_next (ds' ! x)"
  proof
    fix x assume "x \<in> set (butlast c)"
    then obtain j where j: "j < n - 1" "x = butlast c ! j" using c by (auto simp: in_set_conv_nth)
    then have "x = c ! j" using c by (simp add: nth_butlast)
    moreover have "Suc j \<noteq> n" "j < n" using j by auto
    ultimately show "has_next (ds' ! x)" using d by (simp add: chain_desc_def Let_def)
  qed
qed

lemma add_direct_spec:
  assumes inv: "split_inv vq fl out" and n: "0 < unat n" "unat n \<le> length fl" "unat n \<le> length sg"
  shows "\<exists>vq'. add_direct vq sg o_cnt n (Some p) = Some (first_unused vq, vq') \<and>
     unat (first_unused vq) = hd fl \<and> same_rings vq vq' \<and>
     split_inv vq' (drop (unat n) fl) (out @ [(take (unat n) fl, p)]) \<and>
     (\<forall>m. m \<notin> set (take (unat n) fl) \<longrightarrow> sq_desc vq' ! m = sq_desc vq ! m) \<and>
     (\<forall>j < unat n. sq_desc vq' ! (fl ! j) = chain_desc sg o_cnt (unat n) j (sq_desc vq ! (fl ! j)))"
proof -
  let ?n = "unat n" and ?ds = "sq_desc vq"
  obtain x xs where fl: "fl = x # xs" using n by (cases fl) auto
  note L = split_inv_linked [OF inv]
  have hd: "unat (first_unused vq) = hd fl" using L(2) fl by simp
  have x: "x < length ?ds" "x < length (opaque vq)"
    using L(4) fl split_inv_shape [OF inv] by (auto simp: split_shape_def)
  let ?ops = "(opaque vq)[x := Some p]" and ?d = "seg_desc (sg ! 0) (unat o_cnt \<le> 0) (?ds ! x)"
  let ?vq1 = "vq\<lparr>first_unused := desc_next (?ds ! x), num_unused := num_unused vq - 1, opaque := ?ops,
                  sq_desc := ?ds[x := ?d]\<rparr>"
  note st = get_write_step [OF fl L(1) hd x(1) L(3)]
  have "\<exists>ds f l. add_rest (?n - 1) sg o_cnt 1 (first_unused vq) ?vq1 =
       Some (l, ?vq1\<lparr>sq_desc := ds, first_unused := f,
                      num_unused := num_unused ?vq1 - word_of_nat (?n - 1)\<rparr>) \<and>
     length ds = length (sq_desc ?vq1) \<and> (drop (?n - 1) xs \<noteq> [] \<longrightarrow> unat f = hd (drop (?n - 1) xs)) \<and>
     (\<forall>m. m \<notin> set (take (?n - 1) xs) \<longrightarrow> ds ! m = sq_desc ?vq1 ! m) \<and>
     (\<forall>j < ?n - 1. ds ! (xs ! j) =
        seg_desc (sg ! (1 + j)) (unat o_cnt \<le> 1 + j) (sq_desc ?vq1 ! (xs ! j))) \<and>
     unat l = last (unat (first_unused vq) # take (?n - 1) xs)"
    using n L fl st(3) st(4) [of ?d] by (intro add_rest_spec) auto
  then obtain ds f l where r: "add_rest (?n - 1) sg o_cnt 1 (first_unused vq) ?vq1 =
       Some (l, ?vq1\<lparr>sq_desc := ds, first_unused := f,
                      num_unused := num_unused ?vq1 - word_of_nat (?n - 1)\<rparr>)"
     "length ds = length ?ds" "drop (?n - 1) xs \<noteq> [] \<longrightarrow> unat f = hd (drop (?n - 1) xs)"
     "\<forall>m. m \<notin> set (take (?n - 1) xs) \<longrightarrow> ds ! m = ?ds[x := ?d] ! m"
     "\<forall>j < ?n - 1. ds ! (xs ! j) =
        seg_desc (sg ! (1 + j)) (unat o_cnt \<le> 1 + j) (?ds[x := ?d] ! (xs ! j))"
     "unat l = last (unat (first_unused vq) # take (?n - 1) xs)"
    by auto
  have t: "take ?n fl = x # take (?n - 1) xs" "drop ?n fl = drop (?n - 1) xs"
    using fl n by (cases ?n; simp)+
  have nx: "x \<notin> set xs" using L(3) fl by simp
  have seg: "ds ! (fl ! j) = seg_desc (sg ! j) (unat o_cnt \<le> j) (?ds ! (fl ! j))" if "j < ?n" for j
  proof (cases j)
    case 0
    have "x \<notin> set (take (?n - 1) xs)" using nx by (meson in_set_takeD)
    then show ?thesis using r(4) 0 fl x by simp
  next
    case (Suc j')
    then have "xs ! j' \<in> set xs" using that n fl by simp
    then have "xs ! j' \<noteq> x" using nx by auto
    then show ?thesis using r(5) that Suc fl by auto
  qed
  have l: "unat l = last (take ?n fl)" using r(6) t hd fl by simp
  have lfl: "last (take ?n fl) = fl ! (?n - 1)" using n by (subst last_conv_nth) auto
  have lN: "unat l < length ds" using l lfl n r(2) L(4) by simp
  let ?ds' = "ds[unat l := clear_next (ds ! unat l)]"
  let ?vq' = "vq\<lparr>sq_desc := ?ds', first_unused := f, opaque := ?ops,
                 num_unused := num_unused vq - 1 - word_of_nat (?n - 1)\<rparr>"
  have sg0: "nth_opt sg 0 = Some (sg ! 0)" using n by (cases sg) (auto intro: nth_opt_in)
  have w0: "unat o_cnt \<le> 0 \<longleftrightarrow> o_cnt = 0" by (simp add: unat_eq_0)
  have run: "add_direct vq sg o_cnt n (Some p) = Some (first_unused vq, ?vq')"
    using st(1) st(2) [where ops = ?ops and u = "num_unused vq - 1" and s = "sg ! 0" and w = "o_cnt = 0"]
      r(1) lN n hd fl x unfolding w0 by (simp add: add_direct_def sg0)
  have oth: "\<forall>m. m \<notin> set (take ?n fl) \<longrightarrow> ?ds' ! m = ?ds ! m"
  proof (intro allI impI)
    fix m assume m: "m \<notin> set (take ?n fl)"
    then have "m \<noteq> unat l" using l t by (metis last_in_set list.distinct(1))
    then show "?ds' ! m = ?ds ! m" using m r(4) t by auto
  qed
  have cd: "\<forall>j < ?n. ?ds' ! (fl ! j) = chain_desc sg o_cnt ?n j (?ds ! (fl ! j))"
  proof (intro allI impI)
    fix j assume j: "j < ?n"
    have "fl ! j = unat l \<longleftrightarrow> Suc j = ?n"
      using l lfl j n nth_eq_iff_index_eq [OF L(3), of j "?n - 1"] by auto
    then show "?ds' ! (fl ! j) = chain_desc sg o_cnt ?n j (?ds ! (fl ! j))"
      using seg [OF j] lN by (auto simp: chain_desc_def)
  qed
  have "linked ?ds (take ?n fl)" by (rule linked_by_take [OF L(1)])
  then have ch: "chain ?ds' (take ?n fl)"
    using n cd L(3) by (intro chain_desc_chain [where n = ?n and sg = sg and out = o_cnt and ds = ?ds]) auto
  have "num_unused vq - 1 - word_of_nat (?n - 1) = num_unused vq - (word_of_nat ?n :: u32)"
    using n by (simp add: of_nat_diff algebra_simps)
  moreover have "\<forall>m \<in> set (take ?n fl). desc_next (?ds' ! m) = desc_next (?ds ! m)"
  proof
    fix m assume "m \<in> set (take ?n fl)"
    then obtain j where "j < ?n" "m = fl ! j" using n by (auto simp: in_set_conv_nth)
    then show "desc_next (?ds' ! m) = desc_next (?ds ! m)"
      using cd by (simp add: chain_desc_def Let_def)
  qed
  ultimately have "split_inv ?vq' (drop ?n fl) (out @ [(take ?n fl, p)])"
    using n oth ch r(2,3) t fl
    by (intro split_inv_consume [OF inv n(1,2)]) (auto simp: same_rings_def)
  then show ?thesis
    using run hd oth cd by (intro exI [of _ ?vq']) (simp add: same_rings_def)
qed

lemma fill_indirect_total:
  "i + k \<le> length sg \<Longrightarrow> i + k \<le> length table \<Longrightarrow>
   \<exists>table'. fill_indirect k sg out i table = Some table' \<and> length table' = length table"
proof (induction k arbitrary: i table)
  case (Suc k)
  then have "i < length sg" "i < length table" by auto
  moreover have "\<exists>t. fill_indirect k sg out (Suc i) (table[i := d]) = Some t \<and> length t = length table" for d
    using Suc.IH [of "Suc i" "table[i := d]"] Suc.prems by simp
  ultimately show ?case by simp
qed simp

lemma add_indirect_spec:
  assumes inv: "split_inv vq fl out" and n: "0 < unat n" "unat n \<le> length sg" "unat n \<le> length table"
    and fl: "fl \<noteq> []"
  shows "\<exists>vq' table'. add_indirect vq sg o_cnt n (Some p) table pa = Some (first_unused vq, vq', table') \<and>
     length table' = length table \<and> unat (first_unused vq) = hd fl \<and> same_rings vq vq' \<and>
     split_inv vq' (drop 1 fl) (out @ [(take 1 fl, p)])"
proof -
  obtain x xs where fl: "fl = x # xs" using fl by (cases fl) auto
  note L = split_inv_linked [OF inv]
  have hd: "unat (first_unused vq) = x" using L(2) fl by simp
  have x: "x < length (sq_desc vq)" "x < length (opaque vq)"
    using L(4) fl split_inv_shape [OF inv] by (auto simp: split_shape_def)
  obtain t where t: "fill_indirect (unat n) sg o_cnt 0 table = Some t" "length t = length table"
    using fill_indirect_total [of 0 "unat n" sg table] n by auto
  have "1 \<le> n" using n by (simp add: word_le_nat_alt)
  then have "unat (n - 1) < length t" using n t by (simp add: unat_minus_le)
  note u = upd_in [OF this, of clear_next]
  let ?d = "(sq_desc vq ! x)\<lparr>desc_flags := VIRTQ_DESC_F_INDIRECT, desc_addr := pa, desc_len := n * 16\<rparr>"
  let ?vq' = "vq\<lparr>first_unused := desc_next (sq_desc vq ! x), num_unused := num_unused vq - 1,
                 sq_desc := (sq_desc vq)[x := ?d], opaque := (opaque vq)[x := Some p]\<rparr>"
  have run: "add_indirect vq sg o_cnt n (Some p) table pa =
      Some (first_unused vq, ?vq', t[unat (n - 1) := clear_next (t ! unat (n - 1))])"
    using t u x hd by (simp add: add_indirect_def get_unused_desc_def)
  have "xs \<noteq> [] \<longrightarrow> unat (desc_next (sq_desc vq ! x)) = hd xs"
    using linked_by_tl [of "dnext (sq_desc vq)" x xs] L(1) fl by (simp add: dnext_def)
  then have "split_inv ?vq' (drop 1 fl) (out @ [(take 1 fl, p)])"
    using x fl by (intro split_inv_consume [OF inv])
      (auto simp: same_rings_def has_next_def split_flag_defs nth_list_update)
  then show ?thesis using run t(2) hd fl by (auto simp: same_rings_def)
qed

text \<open>Publishing the head appends it to the window of the available ring.\<close>

lemma publish_spec:
  assumes sh: "split_shape vq" and rings: "split_rings vq av dn" and len: "length av < unat (sq_num vq)"
  shows "\<exists>vq'. publish vq idx = Some vq' \<and> split_rings vq' (av @ [unat idx]) dn \<and>
     sq_num vq' = sq_num vq \<and> (\<forall>fl out. split_inv vq fl out \<longrightarrow> split_inv vq' fl out) \<and>
     sq_desc vq' = sq_desc vq \<and> num_added_since_kick vq' = num_added_since_kick vq + 1 \<and>
     master_idx vq' = master_idx vq + 1"
proof -
  let ?N = "unat (sq_num vq)" and ?i = "unat (master_idx vq) mod unat (sq_num vq)"
  note B = split_shape_bounds [OF sh]
  let ?vq' = "vq\<lparr>sq_avail := (sq_avail vq)\<lparr>avail_ring := (avail_ring (sq_avail vq))[?i := idx],
                    avail_idx := master_idx vq + 1\<rparr>, master_idx := master_idx vq + 1,
                    num_added_since_kick := num_added_since_kick vq + 1\<rparr>"
  have al: "length (avail_ring (sq_avail vq)) = Suc ?N" using sh by (simp add: split_shape_def)
  have iN: "?i < ?N" using B(1) by simp
  have run: "publish vq idx = Some ?vq'"
    using iN al by (simp add: publish_def DESC_INDEX_mod [OF sh] less_Suc_eq)
  let ?t = "master_idx vq - word_of_nat (length av)"
  have "unat (?t + word_of_nat (length av)) mod ?N = (unat ?t + length av) mod ?N"
    by (rule unat_add_of_nat_mod [OF B(3)])
  then have slot: "?i = (unat ?t + length av) mod ?N" by simp
  have "ring_window ?N ((avail_ring (sq_avail vq))[?i := idx]) ?t unat (av @ [unat idx])"
    unfolding slot using rings len al by (intro ring_window_push) (auto simp: split_rings_def)
  moreover have "master_idx vq + 1 - word_of_nat (length (av @ [unat idx])) = ?t" by simp
  ultimately have "split_rings ?vq' (av @ [unat idx]) dn"
    using rings by (simp add: split_rings_def)
  moreover have "split_inv ?vq' fl out" if "split_inv vq fl out" for fl out
    using that al by (simp add: split_inv_def split_shape_def)
  ultimately show ?thesis using run by (intro exI [of _ ?vq']) simp
qed

lemma same_rings_split_rings:
  "same_rings vq vq' \<Longrightarrow> split_rings vq' av dn = split_rings vq av dn"
  by (simp add: same_rings_def split_rings_def)

lemma split_relE:
  assumes "split_rel vq a"
  obtains fl out where "split_inv vq fl out" "a_out a = entries out" "a_size a = unat (sq_num vq)"
    "avq_ok a" "split_rings vq (a_avail a) (a_done a)" "a_free a = length fl"
proof -
  obtain fl out where inv: "split_inv vq fl out" "a_out a = entries out" "a_size a = unat (sq_num vq)"
    using assms by (auto simp: split_rel_def split_owned_def)
  moreover have "a_free a = length fl"
    using inv by (intro pool_avq [OF split_inv_pool [OF inv(1)]])
  ultimately show ?thesis using assms by (intro that) (auto simp: split_rel_def)
qed

lemma split_relI:
  "avq_ok a \<Longrightarrow> split_inv vq fl out \<Longrightarrow> a_out a = entries out \<Longrightarrow> a_size a = unat (sq_num vq) \<Longrightarrow>
   split_rings vq (a_avail a) (a_done a) \<Longrightarrow> split_rel vq a"
  by (auto simp: split_rel_def split_owned_def)

text \<open>The common end of both branches of \<open>virtqueue_add_buf_split\<close>.\<close>

lemma publish_rel:
  assumes rel: "split_rel vq a" and inv: "split_inv vq fl out" "a_out a = entries out"
    and n: "0 < n" "n \<le> length fl" and idx: "unat idx = hd fl"
    and sr: "same_rings vq vq1" and inv1: "split_inv vq1 (drop n fl) (out @ [(take n fl, p)])"
  shows "\<exists>vq2. publish vq1 idx = Some vq2 \<and> split_rel vq2 (a_add (hd fl) n p a) \<and>
     hd fl \<notin> set (a_ids a) \<and> sq_desc vq2 = sq_desc vq1"
proof -
  obtain fl' out' where r: "a_size a = unat (sq_num vq)" "avq_ok a"
    "split_rings vq (a_avail a) (a_done a)" "a_free a = length fl"
    using rel inv by (elim split_relE) (auto dest!: split_inv_pool pool_length)
  have ent: "entries (out @ [(take n fl, p)]) = a_out a @ [(hd fl, n, p)]"
    using n inv(2) by (simp add: entries_def min_def)
  have "distinct (map fst (entries (out @ [(take n fl, p)])))"
    using pool_heads [OF split_inv_pool [OF inv1]] by (simp add: heads_entries)
  then have fresh: "hd fl \<notin> set (a_ids a)" unfolding ent by (auto simp: a_ids_def)
  have ok: "avq_ok (a_add (hd fl) n p a)"
    using r n fresh by (intro avq_ok_add) auto
  have num: "sq_num vq1 = sq_num vq" using sr by (simp add: same_rings_def)
  have "length (a_avail a) < unat (sq_num vq1)"
    using avq_ok_lengths [OF ok] r(1) num by (simp add: a_add_def)
  then obtain vq2 where "publish vq1 idx = Some vq2" and
    p2: "split_rings vq2 (a_avail a @ [unat idx]) (a_done a)" "sq_num vq2 = sq_num vq1"
    "split_inv vq2 (drop n fl) (out @ [(take n fl, p)])" "sq_desc vq2 = sq_desc vq1"
    using publish_spec [of vq1 "a_avail a" "a_done a" idx] split_inv_shape [OF inv1] inv1 r(3)
      same_rings_split_rings [OF sr] by auto
  moreover have "split_rel vq2 (a_add (hd fl) n p a)"
    using ok p2 ent idx r(1) num by (intro split_relI [where fl = "drop n fl" and out = "out @ [(take n fl, p)]"])
      (simp_all add: a_add_def)
  ultimately show ?thesis using fresh by blast
qed

lemma split_add_accepts:
  assumes rel: "split_rel vq a" and n: "0 < unat out + unat inn" "unat out + unat inn < 2 ^ 32"
    "unat out + unat inn \<le> length sg"
    and page: "\<forall>t. page = Some t \<longrightarrow> unat out + unat inn \<le> length t"
    and free: "descs_needed page (unat out + unat inn) \<le> a_free a"
  shows "\<exists>vq' page'. virtqueue_add_buf_split vq sg out inn (Some p) page pa = Some (0, vq', page') \<and>
     map_option length page' = map_option length page \<and> unat (first_unused vq) \<notin> set (a_ids a) \<and>
     split_rel vq' (a_add (unat (first_unused vq)) (descs_needed page (unat out + unat inn)) p a)"
proof -
  let ?n = "unat out + unat inn"
  obtain fl o_list where r: "split_inv vq fl o_list" "a_out a = entries o_list" "a_free a = length fl"
    using rel by (elim split_relE)
  have un: "unat (out + inn) = ?n" using n by (simp add: unat_plus_small)
  have nu: "unat (num_unused vq) = length fl" using r by (simp add: split_inv_def)
  show ?thesis
  proof (cases "page \<noteq> None \<and> 1 < ?n")
    case True
    then obtain t where t: "page = Some t" by auto
    have one: "1 \<le> length fl" using free r(3) t by (simp add: descs_needed_def)
    have g: "1 < out + inn" "0 < num_unused vq"
      using True un one nu by (auto simp: word_less_nat_alt)
    obtain vq1 t' where i: "add_indirect vq sg out (out + inn) (Some p) t pa = Some (first_unused vq, vq1, t')"
      "length t' = length t" "unat (first_unused vq) = hd fl" "same_rings vq vq1"
      "split_inv vq1 (drop 1 fl) (o_list @ [(take 1 fl, p)])"
      using add_indirect_spec [OF r(1), of "out + inn" sg t out p pa] un n page t one by fastforce
    obtain vq2 where "publish vq1 (first_unused vq) = Some vq2"
      "split_rel vq2 (a_add (hd fl) 1 p a)" "hd fl \<notin> set (a_ids a)"
      using publish_rel [OF rel r(1,2) _ one i(3,4,5)] by auto
    then show ?thesis using i g t
      by (simp add: virtqueue_add_buf_split_def descs_needed_def VQ_ADD_BUFFER_SUCCESS_def)
  next
    case False
    have dn: "descs_needed page ?n = ?n" using False n by (auto simp: descs_needed_def)
    then have nf: "?n \<le> length fl" using free r(3) by simp
    have g: "\<not> (page \<noteq> None \<and> 1 < out + inn \<and> 0 < num_unused vq)" "\<not> num_unused vq < out + inn"
      using False un nf nu by (auto simp: word_less_nat_alt)
    obtain vq1 where d: "add_direct vq sg out (out + inn) (Some p) = Some (first_unused vq, vq1)"
      "unat (first_unused vq) = hd fl" "same_rings vq vq1"
      "split_inv vq1 (drop ?n fl) (o_list @ [(take ?n fl, p)])"
      using add_direct_spec [OF r(1), of "out + inn" sg out p] un n nf by auto
    obtain vq2 where "publish vq1 (first_unused vq) = Some vq2"
      "split_rel vq2 (a_add (hd fl) ?n p a)" "hd fl \<notin> set (a_ids a)"
      using publish_rel [OF rel r(1,2) n(1) nf d(2,3,4)] by auto
    then show ?thesis using d(1,2) g dn
      by (intro exI [of _ vq2] exI [of _ page])
        (auto simp: virtqueue_add_buf_split_def Let_def VQ_ADD_BUFFER_SUCCESS_def simp del: not_None_eq)
  qed
qed

lemma split_add_refuses:
  assumes rel: "split_rel vq a" and n: "0 < unat out + unat inn" "unat out + unat inn < 2 ^ 32"
    and full: "a_free a < descs_needed page (unat out + unat inn)"
  shows "virtqueue_add_buf_split vq sg out inn opq page pa = Some (- ENOSPC, vq, page)"
proof -
  obtain fl o_list where r: "split_inv vq fl o_list" "a_free a = length fl"
    using rel by (elim split_relE)
  have un: "unat (out + inn) = unat out + unat inn" using n by (simp add: unat_plus_small)
  have nu: "unat (num_unused vq) = length fl" using r by (simp add: split_inv_def)
  have "\<not> (page \<noteq> None \<and> 1 < out + inn \<and> 0 < num_unused vq)" "num_unused vq < out + inn"
    using full n un nu r(2) by (auto simp: word_less_nat_alt descs_needed_def split: if_splits)
  then show ?thesis by (auto simp: virtqueue_add_buf_split_def Let_def simp del: not_None_eq)
qed

end
