(* ===== verification/SplitRingRefine.thy ===== *)
theory SplitRingRefine
  imports SplitRingProofs
begin

text \<open>
  The split ring implements the virtqueue contract: fetching, creation, interrupt control
  and cleanup, and the interpretations of the \<open>virtqueue\<close> locales for the routines of
  \<^verbatim>\<open>src/VirtIO/VirtIORing.c\<close>.
\<close>

subsection \<open>Fetching a buffer\<close>

lemma set_used_event_rel:
  assumes "split_rel vq a"
  shows "\<exists>vq'. set_used_event vq v = Some vq' \<and> split_rel vq' a \<and> last_used vq' = last_used vq \<and>
           sq_used vq' = sq_used vq \<and> sq_desc vq' = sq_desc vq"
proof -
  obtain fl out where r: "split_inv vq fl out" "a_out a = entries out" "a_size a = unat (sq_num vq)"
    "avq_ok a" "split_rings vq (a_avail a) (a_done a)"
    using assms by (elim split_relE)
  let ?N = "unat (sq_num vq)" and ?ring = "avail_ring (sq_avail vq)"
  have sh: "split_shape vq" by (rule split_inv_shape [OF r(1)])
  have len: "length ?ring = Suc ?N" using sh by (simp add: split_shape_def)
  let ?vq' = "vq\<lparr>sq_avail := (sq_avail vq)\<lparr>avail_ring := ?ring[?N := v]\<rparr>\<rparr>"
  have "set_used_event vq v = Some ?vq'" using len by (simp add: set_used_event_def)
  moreover have "split_inv ?vq' fl out" using r(1) by (simp add: split_inv_def split_shape_def)
  moreover have "split_rings ?vq' (a_avail a) (a_done a)"
    using r(5) split_shape_bounds(1) [OF sh]
    by (auto simp: split_rings_def intro: ring_window_update_outside)
  ultimately show ?thesis using r by (intro exI [of _ ?vq']) (auto intro: split_relI)
qed

lemma split_get_empty:
  assumes "split_rel vq a" "a_done a = []"
  shows "virtqueue_get_buf_split ev vq = Some (None, vq)"
  using assms by (simp add: split_rel_def split_rings_def virtqueue_get_buf_split_def)

lemma split_has_iff:
  assumes "split_rel vq a"
  shows "virtqueue_has_buf_split vq \<longleftrightarrow> a_done a \<noteq> []"
proof -
  obtain fl out where r: "split_inv vq fl out" "a_size a = unat (sq_num vq)" "avq_ok a"
    "split_rings vq (a_avail a) (a_done a)"
    using assms by (elim split_relE)
  have "length (a_done a) \<le> 2 ^ 15"
    using avq_ok_lengths [OF r(3)] split_shape_bounds(2) [OF split_inv_shape [OF r(1)]] r(2) by linarith
  then have "unat (word_of_nat (length (a_done a)) :: u16) = length (a_done a)"
    by (intro unat_of_nat_small) simp
  then have "(word_of_nat (length (a_done a)) :: u16) = 0 \<longleftrightarrow> a_done a = []"
    by (metis length_0_conv unat_0 unat_eq_0)
  then show ?thesis using r(4) by (simp add: virtqueue_has_buf_split_def split_rings_def)
qed

lemma split_get_next:
  assumes rel: "split_rel vq a" and dn: "a_done a = (bid, len) # ds"
    and lk: "a_lookup a bid = Some (n, p)"
  shows "\<exists>vq'. virtqueue_get_buf_split ev vq = Some (Some (Some p, len), vq') \<and> split_rel vq' (a_fetch a)"
proof -
  obtain fl out where r: "split_inv vq fl out" "a_out a = entries out" "a_size a = unat (sq_num vq)"
    "avq_ok a" "split_rings vq (a_avail a) (a_done a)"
    using rel by (elim split_relE)
  let ?N = "unat (sq_num vq)"
  have sh: "split_shape vq" by (rule split_inv_shape [OF r(1)])
  note B = split_shape_bounds [OF sh]
  have "(bid, n, p) \<in> set (entries out)" using lk r(2) by (auto simp: a_lookup_def dest: map_of_SomeD)
  from entries_mem [OF this] obtain us c vs where o: "out = us @ (c, p) # vs" "hd c = bid" by auto
  note inv = r(1) [unfolded o(1)]
  note P = split_inv_pool [OF inv]
  note opq = pool_head(1,2) [OF P]
  let ?i = "unat (last_used vq) mod ?N"
  let ?e = "used_ring (sq_used vq) ! ?i"
  have win: "ring_window ?N (used_ring (sq_used vq)) (last_used vq)
       (\<lambda>e. (unat (elem_id e), elem_len e)) ((bid, len) # ds)"
    using r(5) dn by (simp add: split_rings_def)
  note pop = ring_window_pop [OF win B(3)]
  have e: "unat (elem_id ?e) = bid" "elem_len ?e = len" using pop(1) by auto
  have idx: "unat (ucast (elem_id ?e) :: u16) = hd c"
    using e(1) o(2) opq(2) B(2) by (subst unat_ucast_32_16) auto
  obtain vq1 where put: "put_unused_desc_chain vq (ucast (elem_id ?e)) = Some vq1"
    "split_inv vq1 (c @ fl) (us @ vs)" "same_rings vq vq1"
    using put_unused_desc_chain_inv [OF inv idx] by auto
  let ?vq2 = "vq1\<lparr>last_used := last_used vq1 + 1\<rparr>"
  have "split_rings ?vq2 (a_avail a) ds"
    using r(5) dn pop(2) put(3) by (simp add: split_rings_def same_rings_def algebra_simps)
  moreover have "split_inv ?vq2 (c @ fl) (us @ vs)" using put(2) by (simp add: split_inv_def split_shape_def)
  moreover have "a_out (a_fetch a) = entries (us @ vs)"
    using pool_entries_remove [OF P] r(2) o dn by (simp add: a_fetch_def)
  moreover have "avq_ok (a_fetch a)" using r(4) dn by (intro avq_ok_fetch) auto
  moreover have "sq_num vq1 = sq_num vq" using put(3) by (simp add: same_rings_def)
  ultimately have rel2: "split_rel ?vq2 (a_fetch a)"
    using r(3) dn by (intro split_relI [where fl = "c @ fl" and out = "us @ vs"]) (simp_all add: a_fetch_def)
  have ne: "last_used vq \<noteq> used_idx (sq_used vq)"
    using split_has_iff [OF rel] dn by (simp add: virtqueue_has_buf_split_def)
  have iN: "?i < length (used_ring (sq_used vq))" "length (opaque vq) = ?N"
    using B(1) sh by (auto simp: split_shape_def)
  have "\<exists>vq3. (if ev \<and> virtqueue_is_interrupt_enabled_split ?vq2
      then set_used_event ?vq2 (last_used ?vq2) else Some ?vq2) = Some vq3 \<and> split_rel vq3 (a_fetch a)"
    using set_used_event_rel [OF rel2, of "last_used ?vq2"] rel2
    by (cases "ev \<and> virtqueue_is_interrupt_enabled_split ?vq2") auto
  then obtain vq3 where v3: "(if ev \<and> virtqueue_is_interrupt_enabled_split ?vq2
      then set_used_event ?vq2 (last_used ?vq2) else Some ?vq2) = Some vq3" "split_rel vq3 (a_fetch a)"
    by blast
  have "virtqueue_get_buf_split ev vq = Some (Some (Some p, len), vq3)"
    using ne iN put(1) opq idx e(2) v3(1)
    by (simp add: virtqueue_get_buf_split_def DESC_INDEX_mod [OF sh] Let_def del: if_split)
  then show ?thesis using v3(2) by blast
qed

subsection \<open>The device\<close>

text \<open>
  The device returns a buffer by writing the next entry of the used ring and then the
  index. It reads the available ring without writing to it.
\<close>

definition split_device_use ::
  "'o avq \<Rightarrow> nat \<Rightarrow> u32 \<Rightarrow> 'o virtqueue_split \<Rightarrow> 'o virtqueue_split" where
  "split_device_use a bid len vq =
     (let u = sq_used vq in
      vq\<lparr>sq_used := u\<lparr>
           used_ring := (used_ring u)[unat (used_idx u) mod unat (sq_num vq) :=
                          \<lparr>elem_id = word_of_nat bid, elem_len = len\<rparr>],
           used_idx := used_idx u + 1\<rparr>\<rparr>)"

lemma split_take_rel:
  assumes rel: "split_rel vq a" and ne: "a_avail a \<noteq> []"
  shows "split_rel vq (a_take a)"
proof -
  obtain fl out where r: "split_inv vq fl out" "a_out a = entries out" "a_size a = unat (sq_num vq)"
    "avq_ok a" "split_rings vq (a_avail a) (a_done a)"
    using rel by (elim split_relE)
  obtain x av where av: "a_avail a = x # av" using ne by (cases "a_avail a") auto
  let ?t = "master_idx vq - word_of_nat (length (a_avail a))"
  have "ring_window (unat (sq_num vq)) (avail_ring (sq_avail vq)) (?t + 1) unat av"
    using r(5) av by (intro ring_window_pop [OF _ split_shape_bounds(3) [OF split_inv_shape [OF r(1)]]])
      (auto simp: split_rings_def)
  moreover have "?t + 1 = master_idx vq - word_of_nat (length av)" using av by simp
  ultimately have "split_rings vq av (a_done a)"
    using r(5) by (simp add: split_rings_def)
  then show ?thesis using r av avq_ok_take [OF r(4)]
    by (intro split_relI [OF _ r(1)]) (auto simp: a_take_def)
qed

lemma split_use_rel:
  assumes rel: "split_rel vq a" and held: "a_held a bid"
  shows "split_rel (split_device_use a bid len vq) (a_complete bid len a)"
proof -
  obtain fl out where r: "split_inv vq fl out" "a_out a = entries out" "a_size a = unat (sq_num vq)"
    "avq_ok a" "split_rings vq (a_avail a) (a_done a)"
    using rel by (elim split_relE)
  let ?N = "unat (sq_num vq)" and ?u = "sq_used vq"
  let ?e = "\<lparr>elem_id = word_of_nat bid, elem_len = len\<rparr>"
  have sh: "split_shape vq" by (rule split_inv_shape [OF r(1)])
  note B = split_shape_bounds [OF sh]
  have ok: "avq_ok (a_complete bid len a)" using r(4) held by (rule avq_ok_complete)
  have dl: "length (a_done a) < ?N"
    using avq_ok_lengths [OF ok] r(3) by (simp add: a_complete_def)
  obtain x where x: "x \<in> set out" "bid = hd (fst x)"
    using held r(2) by (auto simp: a_held_def a_ids_def entries_def)
  then have "bid \<in> set (fst x)" using pool_nonempty [OF split_inv_pool [OF r(1)] x(1)] by simp
  then have "bid < ?N" using x(1) by (intro pool_bound [OF split_inv_pool [OF r(1)]]) auto
  then have bid: "unat (word_of_nat bid :: u32) = bid" using B(2) by (intro unat_of_nat_small) simp
  have "ring_window ?N ((used_ring ?u)[(unat (last_used vq) + length (a_done a)) mod ?N := ?e])
      (last_used vq) (\<lambda>e. (unat (elem_id e), elem_len e)) (a_done a @ [(unat (elem_id ?e), elem_len ?e)])"
    using r(5) dl sh by (intro ring_window_push) (auto simp: split_rings_def split_shape_def)
  then have "split_rings (split_device_use a bid len vq) (a_avail a) (a_done a @ [(bid, len)])"
    using r(5) bid by (simp add: split_rings_def split_device_use_def Let_def unat_add_of_nat_mod [OF B(3)])
  moreover have "split_inv (split_device_use a bid len vq) fl out"
    using r(1) by (simp add: split_inv_def split_shape_def split_device_use_def Let_def)
  ultimately show ?thesis using ok r(2,3)
    by (intro split_relI [where fl = fl and out = out])
      (simp_all add: a_complete_def split_device_use_def Let_def)
qed

interpretation sq: virtqueue virtqueue_add_buf_split "virtqueue_get_buf_split ev"
  "\<lambda>q. Some (virtqueue_has_buf_split q)" split_device_use "\<lambda>q. unat (first_unused q)" length split_rel
  for ev
proof unfold_locales
  fix q :: "'a virtqueue_split" and a :: "'a avq"
  assume rel: "split_rel q a"
  show "avq_ok a" using rel by (simp add: split_rel_def)
  show "Some (virtqueue_has_buf_split q) = Some (a_done a \<noteq> [])" using split_has_iff [OF rel] by simp
qed (auto intro: split_add_accepts split_add_refuses split_take_rel split_use_rel split_get_empty
      split_get_next)

subsection \<open>Interrupt control\<close>

lemma split_rel_flags:
  "split_rel (vq\<lparr>master_flags := f\<rparr>) a = split_rel vq a"
  "split_rel (vq\<lparr>num_added_since_kick := n\<rparr>) a = split_rel vq a"
  "split_rel (vq\<lparr>master_flags := f, sq_avail := (sq_avail vq)\<lparr>avail_flags := g\<rparr>\<rparr>) a = split_rel vq a"
  by (simp_all add: split_rel_def split_owned_def split_rings_def split_inv_def split_shape_def)

lemma clear_no_interrupt_rel: "split_rel vq a \<Longrightarrow> split_rel (clear_no_interrupt ev vq) a"
  by (simp add: clear_no_interrupt_def Let_def split_rel_flags)

lemma clear_no_interrupt_frame [simp]:
  "last_used (clear_no_interrupt ev vq) = last_used vq"
  "sq_used (clear_no_interrupt ev vq) = sq_used vq"
  "master_idx (clear_no_interrupt ev vq) = master_idx vq"
  "sq_num (clear_no_interrupt ev vq) = sq_num vq"
  by (simp_all add: clear_no_interrupt_def Let_def)

lemma split_enable_rel:
  assumes "split_rel vq a"
  shows "\<exists>vq'. virtqueue_enable_cb_split ev vq = Some (a_done a = [], vq') \<and> split_rel vq' a"
proof -
  obtain vq' where v: "set_used_event (clear_no_interrupt ev vq) (last_used vq) = Some vq'"
    "split_rel vq' a"
    using set_used_event_rel [OF clear_no_interrupt_rel [OF assms]] by blast
  have "(last_used vq' = used_idx (sq_used vq')) = (a_done a = [])"
    using split_has_iff [OF v(2)] by (simp add: virtqueue_has_buf_split_def)
  with v show ?thesis by (simp add: virtqueue_enable_cb_split_def)
qed

lemma split_disable_rel: "split_rel vq a \<Longrightarrow> split_rel (virtqueue_disable_cb_split ev vq) a"
  by (simp add: virtqueue_disable_cb_split_def Let_def split_rel_flags)

lemma split_kick_rel: "split_rel vq a \<Longrightarrow> split_rel (snd (virtqueue_kick_prepare_split ev vq)) a"
  by (simp add: virtqueue_kick_prepare_split_def Let_def split_rel_flags)

interpretation sq_cb: virtqueue_cb virtqueue_add_buf_split "virtqueue_get_buf_split ev"
  "\<lambda>q. Some (virtqueue_has_buf_split q)" split_device_use "\<lambda>q. unat (first_unused q)" length split_rel
  "virtqueue_enable_cb_split ev" "virtqueue_disable_cb_split ev" "virtqueue_kick_prepare_split ev"
  for ev
  by unfold_locales (auto intro: split_enable_rel split_disable_rel split_kick_rel)

subsection \<open>Creation\<close>

lemma link_unused_spec:
  "unat i + m = unat num - 1 \<Longrightarrow> 0 < unat num \<Longrightarrow> unat num \<le> 2 ^ 15 \<Longrightarrow> unat num \<le> length ds \<Longrightarrow>
   \<exists>ds'. link_unused num i ds = Some ds' \<and> length ds' = length ds \<and>
     (\<forall>j < unat i. ds' ! j = ds ! j) \<and>
     (\<forall>j. unat i \<le> j \<and> Suc j < unat num \<longrightarrow> unat (desc_next (ds' ! j)) = Suc j)"
proof (induction m arbitrary: i ds)
  case 0
  have "unat (num - 1) = unat num - 1" using "0.prems" by (intro unat_pred)
  then have "\<not> ucast i < num - 1" using "0.prems" by (simp add: word_less_nat_alt)
  then show ?case using "0.prems" by (subst link_unused.simps) auto
next
  case (Suc m)
  have n1: "unat (num - 1) = unat num - 1" using Suc.prems by (intro unat_pred)
  have lt: "ucast i < num - 1" using Suc.prems n1 by (simp add: word_less_nat_alt)
  have i1: "unat (i + 1) = Suc (unat i)" using Suc.prems by (intro unat_Suc_small) simp
  let ?ds = "ds[unat i := (ds ! unat i)\<lparr>desc_flags := VIRTQ_DESC_F_NEXT, desc_next := i + 1\<rparr>]"
  obtain ds' where r: "link_unused num (i + 1) ?ds = Some ds'" "length ds' = length ds"
    "\<forall>j < Suc (unat i). ds' ! j = ?ds ! j"
    "\<forall>j. Suc (unat i) \<le> j \<and> Suc j < unat num \<longrightarrow> unat (desc_next (ds' ! j)) = Suc j"
    using Suc.IH [of "i + 1" ?ds] Suc.prems i1 by auto
  have "link_unused num i ds = Some ds'"
    using lt r(1) Suc.prems by (subst link_unused.simps) simp
  moreover have "unat (desc_next (ds' ! j)) = Suc j" if "unat i \<le> j" "Suc j < unat num" for j
    using r(3,4) that Suc.prems i1 by (cases "j = unat i") auto
  ultimately show ?case using r(2,3) by (intro exI [of _ ds']) auto
qed

lemma DESC_INDEX_self: "unat num = 2 ^ k \<Longrightarrow> DESC_INDEX num num = 0"
  using and_mask_mod [of num k num] by (simp add: DESC_INDEX_def unat_eq_0 [symmetric])

definition pages_ok :: "u32 \<Rightarrow> vring_desc list \<times> vring_avail \<times> vring_used \<Rightarrow> bool" where
  "pages_ok num pages \<longleftrightarrow>
     (case pages of (desc, avail, used) \<Rightarrow>
        length desc = unat num \<and> length (avail_ring avail) = Suc (unat num) \<and>
        length (used_ring used) = unat num \<and> avail_idx avail = 0 \<and> used_idx used = 0)"

lemma vring_new_virtqueue_split_rel:
  assumes k: "unat num = 2 ^ k" "k \<le> 15" and pg: "pages_ok num pages"
  shows "\<exists>vq. vring_new_virtqueue_split index num pages = Some (Some vq) \<and>
           split_rel vq (a_empty (unat num)) \<and> sq_index vq = index \<and> sq_num vq = num"
proof -
  obtain desc avail used where pages: "pages = (desc, avail, used)" by (cases pages)
  have N: "0 < unat num" "unat num \<le> 2 ^ 15"
    unfolding k(1) using k(2) power_increasing [of k 15 "2::nat"] by simp_all
  obtain ds where ds: "link_unused num 0 desc = Some ds" "length ds = unat num"
    "\<forall>j. Suc j < unat num \<longrightarrow> unat (desc_next (ds ! j)) = Suc j"
    using link_unused_spec [of 0 "unat num - 1" num desc] N pg pages by (auto simp: pages_ok_def)
  let ?vq = "\<lparr>sq_index = index, sq_num = num, sq_desc = ds, sq_avail = avail, sq_used = used,
               master_flags = 0, master_idx = 0, num_unused = num, num_added_since_kick = 0,
               first_unused = 0, last_used = 0, opaque = replicate (unat num) None\<rparr>
             :: 'a virtqueue_split"
  have new: "vring_new_virtqueue_split index num pages = Some (Some ?vq)"
    using pages ds(1) DESC_INDEX_self [OF k(1)] by (simp add: vring_new_virtqueue_split_def)
  have "pool (unat num) (dnext ds) 0 (\<lambda>i. opaque ?vq ! i) [0..<unat num] []"
    using ds(3) by (intro pool_init) (auto simp: dnext_def)
  then have "split_inv ?vq [0..<unat num] []"
    using k N ds(2) pg pages by (auto simp: split_inv_def split_shape_def pages_ok_def)
  moreover have "split_rings ?vq [] []"
    using pg pages by (simp add: split_rings_def pages_ok_def)
  ultimately have "split_rel ?vq (a_empty (unat num))"
    by (intro split_relI [OF avq_ok_empty]) (simp_all add: a_empty_def entries_def)
  then show ?thesis using new by auto
qed

subsection \<open>Cleanup\<close>

lemma split_inv_avail_idx:
  "split_inv (vq\<lparr>master_idx := m, sq_avail := (sq_avail vq)\<lparr>avail_idx := m\<rparr>\<rparr>) fl out = split_inv vq fl out"
  by (simp add: split_inv_def split_shape_def)

lemma detach_loop_found:
  "split_inv vq fl out \<Longrightarrow> unat idx + k = unat (sq_num vq) \<Longrightarrow> out \<noteq> [] \<Longrightarrow>
   \<forall>x \<in> set out. unat idx \<le> hd (fst x) \<Longrightarrow>
   \<exists>us c p vs vq'. out = us @ (c, p) # vs \<and> detach_loop k idx vq = Some (Some p, vq') \<and>
     sq_num vq' = sq_num vq \<and> split_inv vq' (c @ fl) (us @ vs)"
proof (induction k arbitrary: idx)
  case 0
  then obtain c p where "(c, p) \<in> set out" by (cases out) auto
  then obtain us vs where o: "out = us @ (c, p) # vs" by (auto dest: split_list)
  then show ?case using pool_head(2) [OF split_inv_pool [OF "0.prems"(1) [unfolded o]]] "0.prems" by fastforce
next
  case (Suc k)
  have sh: "split_shape vq" by (rule split_inv_shape [OF Suc.prems(1)])
  have iN: "unat idx < unat (sq_num vq)" using Suc.prems by simp
  then have rd: "rd (opaque vq) idx = Some (map_of (heads out) (unat idx))"
    using Suc.prems(1) sh by (simp add: split_shape_def split_inv_def pool_def)
  show ?case
  proof (cases "map_of (heads out) (unat idx)")
    case None
    then have "unat idx \<notin> fst ` set (heads out)" by (simp add: map_of_eq_None_iff)
    then have ne: "\<forall>x \<in> set out. hd (fst x) \<noteq> unat idx" by (force simp: heads_def)
    have i1: "unat (idx + 1) = Suc (unat idx)"
      using iN split_shape_bounds(2) [OF sh] by (intro unat_Suc_small) simp
    have "\<forall>x \<in> set out. Suc (unat idx) \<le> hd (fst x)"
      using ne Suc.prems(4) by (metis Suc_leI le_neq_implies_less)
    then have "\<exists>us c p vs vq'. out = us @ (c, p) # vs \<and> detach_loop k (idx + 1) vq = Some (Some p, vq') \<and>
      sq_num vq' = sq_num vq \<and> split_inv vq' (c @ fl) (us @ vs)"
      using Suc.prems i1 by (intro Suc.IH) auto
    then show ?thesis using rd None by simp
  next
    case (Some p)
    then have "(unat idx, p) \<in> set (heads out)" by (rule map_of_SomeD)
    then obtain us c vs where o: "out = us @ (c, p) # vs" "unat idx = hd c"
      by (force simp: heads_def dest: split_list)
    then obtain vq1 where v: "put_unused_desc_chain vq idx = Some vq1" "split_inv vq1 (c @ fl) (us @ vs)"
      "same_rings vq vq1"
      using put_unused_desc_chain_inv [of vq fl us c p vs idx] Suc.prems(1) by auto
    let ?vq' = "vq1\<lparr>master_idx := master_idx vq1 - 1,
                   sq_avail := (sq_avail vq1)\<lparr>avail_idx := master_idx vq1 - 1\<rparr>\<rparr>"
    have "split_inv ?vq' (c @ fl) (us @ vs)" using v(2) by (simp only: split_inv_avail_idx)
    moreover have "detach_loop (Suc k) idx vq = Some (Some p, ?vq')"
      using rd Some v(1) by (simp add: Let_def)
    moreover have "sq_num ?vq' = sq_num vq" using v(3) by (simp add: same_rings_def)
    ultimately show ?thesis using o(1) by blast
  qed
qed

lemma detach_loop_none:
  "split_inv vq fl [] \<Longrightarrow> unat idx + k = unat (sq_num vq) \<Longrightarrow> detach_loop k idx vq = Some (None, vq)"
proof (induction k arbitrary: idx)
  case (Suc k)
  have sh: "split_shape vq" by (rule split_inv_shape [OF Suc.prems(1)])
  then have rd: "rd (opaque vq) idx = Some None"
    using Suc.prems by (simp add: split_inv_def split_shape_def pool_def heads_def)
  show ?case
  proof (cases k)
    case 0
    then show ?thesis using rd by simp
  next
    case (Suc k')
    then have "unat (idx + 1) = Suc (unat idx)"
      using Suc.prems split_shape_bounds(2) [OF sh] by (intro unat_Suc_small) simp
    then show ?thesis using Suc.IH [of "idx + 1"] Suc.prems rd by simp
  qed
qed simp

lemma detach_count:
  "split_shape vq \<Longrightarrow> unat (ucast (sq_num vq) :: u16) = unat (sq_num vq)"
  using split_shape_bounds(2) [of vq] by (intro unat_ucast_32_16) simp

lemma split_detach_none:
  assumes "split_owned vq s []"
  shows "virtqueue_detach_unused_buf_split vq = Some (None, vq)"
proof -
  obtain fl out where i: "split_inv vq fl out" "entries out = []"
    using assms by (force simp: split_owned_def)
  then have "out = []" by (simp add: entries_def)
  with i have "split_inv vq fl []" by simp
  then show ?thesis
    using detach_loop_none [of vq fl 0] detach_count [OF split_inv_shape [OF i(1)]]
    by (simp add: virtqueue_detach_unused_buf_split_def)
qed

lemma split_detach_some:
  assumes "split_owned vq s xs" "xs \<noteq> []"
  shows "\<exists>bid n p vq'. virtqueue_detach_unused_buf_split vq = Some (Some p, vq') \<and>
           (bid, n, p) \<in> set xs \<and> split_owned vq' s (a_remove bid xs)"
proof -
  obtain fl out where i: "split_inv vq fl out" "xs = entries out" "s = unat (sq_num vq)"
    using assms by (auto simp: split_owned_def)
  then have "out \<noteq> []" using assms(2) by (auto simp: entries_def)
  then have "\<exists>us c p vs vq'. out = us @ (c, p) # vs \<and>
      detach_loop (unat (sq_num vq)) 0 vq = Some (Some p, vq') \<and> sq_num vq' = sq_num vq \<and>
      split_inv vq' (c @ fl) (us @ vs)"
    by (intro detach_loop_found [OF i(1)]) auto
  then obtain us c p vs vq' where d: "out = us @ (c, p) # vs"
    "detach_loop (unat (sq_num vq)) 0 vq = Some (Some p, vq')" "sq_num vq' = sq_num vq"
    "split_inv vq' (c @ fl) (us @ vs)"
    by blast
  have "virtqueue_detach_unused_buf_split vq = Some (Some p, vq')"
    using d(2) detach_count [OF split_inv_shape [OF i(1)]]
    by (simp add: virtqueue_detach_unused_buf_split_def)
  moreover have "(hd c, length c, p) \<in> set xs" using i(2) d(1) by (simp add: entries_def)
  moreover have "a_remove (hd c) xs = entries (us @ vs)"
    using pool_entries_remove [OF split_inv_pool, of vq fl us c p vs] i d(1) by simp
  then have "split_owned vq' s (a_remove (hd c) xs)"
    unfolding split_owned_def using d(3,4) i(3) by metis
  ultimately show ?thesis by blast
qed

lemma split_owned_distinct: "split_owned vq s xs \<Longrightarrow> distinct (map fst xs)"
  unfolding split_owned_def using pool_heads [OF split_inv_pool] heads_entries(1) by metis

lemma split_shutdown_rel:
  assumes "split_owned vq s xs"
  shows "\<exists>vq'. virtqueue_shutdown_split vq = Some (Some vq') \<and> split_rel vq' (a_empty s)"
proof -
  obtain fl out where i: "split_inv vq fl out" "s = unat (sq_num vq)"
    using assms by (auto simp: split_owned_def)
  then obtain k where "k \<le> 15" "unat (sq_num vq) = 2 ^ k"
    using split_inv_shape [OF i(1)] by (auto simp: split_shape_def)
  moreover have "pages_ok (sq_num vq) (zero_pages (sq_num vq))"
    by (simp add: pages_ok_def zero_pages_def)
  ultimately show ?thesis
    using vring_new_virtqueue_split_rel [of "sq_num vq" k "zero_pages (sq_num vq)" "sq_index vq"] i(2)
    unfolding virtqueue_shutdown_split_def by blast
qed

interpretation sq_cleanup: virtqueue_cleanup split_rel split_owned
  virtqueue_detach_unused_buf_split virtqueue_shutdown_split
proof unfold_locales
  fix q :: "'a virtqueue_split" and a :: "'a avq"
  show "split_rel q a \<Longrightarrow> split_owned q (a_size a) (a_out a)" by (simp add: split_rel_def)
qed (auto intro: split_owned_distinct split_detach_none split_detach_some split_shutdown_rel)

end
