(* ===== verification/PackedRing.thy ===== *)
theory PackedRing
  imports SplitRing
begin

text \<open>
  The packed virtqueue of \<^verbatim>\<open>src/VirtIO/VirtIORing-Packed.c\<close>: one descriptor ring shared
  with the device, two event suppression words, the private \<open>virtqueue_packed\<close> block
  with its per-buffer states, and one definition per routine, in the file's order.
  \<open>BUG_ON\<close> and \<open>BAD_RING\<close> stop the machine (\<open>KeBugCheck\<close>): the result is \<open>None\<close>.
  The flag \<open>event_suppression_enabled\<close> of the device is the argument \<open>ev\<close>.
\<close>

subsection \<open>Shared memory and private state\<close>

record vring_packed_desc_event =
  ev_off_wrap :: u16
  ev_flags :: u16

record vring_packed_desc =
  pd_addr :: u64
  pd_len :: u32
  pd_id :: u16
  pd_flags :: u16

definition VRING_DESC_F_NEXT :: u16 where "VRING_DESC_F_NEXT = 1"
definition VRING_DESC_F_WRITE :: u16 where "VRING_DESC_F_WRITE = 2"
definition VRING_DESC_F_INDIRECT :: u16 where "VRING_DESC_F_INDIRECT = 4"
definition VRING_PACKED_DESC_F_AVAIL :: nat where "VRING_PACKED_DESC_F_AVAIL = 7"
definition VRING_PACKED_DESC_F_USED :: nat where "VRING_PACKED_DESC_F_USED = 15"
definition VRING_PACKED_EVENT_FLAG_ENABLE :: u16 where "VRING_PACKED_EVENT_FLAG_ENABLE = 0"
definition VRING_PACKED_EVENT_FLAG_DISABLE :: u16 where "VRING_PACKED_EVENT_FLAG_DISABLE = 1"
definition VRING_PACKED_EVENT_FLAG_DESC :: u16 where "VRING_PACKED_EVENT_FLAG_DESC = 2"
definition VRING_PACKED_EVENT_F_WRAP_CTR :: nat where "VRING_PACKED_EVENT_F_WRAP_CTR = 15"

lemmas packed_flag_defs =
  VRING_DESC_F_NEXT_def VRING_DESC_F_WRITE_def VRING_DESC_F_INDIRECT_def
  VRING_PACKED_DESC_F_AVAIL_def VRING_PACKED_DESC_F_USED_def VRING_PACKED_EVENT_FLAG_ENABLE_def
  VRING_PACKED_EVENT_FLAG_DISABLE_def VRING_PACKED_EVENT_FLAG_DESC_def
  VRING_PACKED_EVENT_F_WRAP_CTR_def

record 'o vring_desc_state_packed =
  st_data :: "'o option"
  st_num :: u16
  st_next :: u16
  st_last :: u16

record 'o virtqueue_packed =
  pq_index :: u32
  num_added :: u32
  free_head :: u32
  num_free :: u32
  last_used_idx :: u16
  avail_used_flags :: u16
  avail_wrap_counter :: bool
  used_wrap_counter :: bool
  next_avail_idx :: u16
  event_flags_shadow :: u16
  pq_num :: u32
  pq_desc :: "vring_packed_desc list"
  pq_driver :: vring_packed_desc_event
  pq_device :: vring_packed_desc_event
  desc_state :: "'o vring_desc_state_packed list"

definition vring_control_block_size_packed :: "u16 \<Rightarrow> u32 \<Rightarrow> u32 \<Rightarrow> u32" where
  "vring_control_block_size_packed qsize sizeof_virtqueue_packed sizeof_desc_state =
     sizeof_virtqueue_packed + sizeof_desc_state * ucast qsize"

definition vring_size_packed :: "u32 \<Rightarrow> u32 \<Rightarrow> u32" where
  "vring_size_packed num align = num * 16 + 2 * 4"

text \<open>The flag mask that a wrap of the ring toggles, and the word of an offset and a wrap bit.\<close>

definition AVAIL_USED_MASK :: u16 where
  "AVAIL_USED_MASK = push_bit VRING_PACKED_DESC_F_AVAIL 1 OR push_bit VRING_PACKED_DESC_F_USED 1"

definition off_wrap :: "u16 \<Rightarrow> bool \<Rightarrow> u16" where
  "off_wrap idx w = idx OR push_bit VRING_PACKED_EVENT_F_WRAP_CTR (if w then 1 else 0)"

subsection \<open>Adding a buffer\<close>

fun fill_indirect_packed ::
  "nat \<Rightarrow> scatterlist list \<Rightarrow> u32 \<Rightarrow> nat \<Rightarrow> vring_packed_desc list \<Rightarrow> vring_packed_desc list option" where
  "fill_indirect_packed 0 sg out i desc = Some desc"
| "fill_indirect_packed (Suc k) sg out i desc = do {
     s \<leftarrow> nth_opt sg i;
     d \<leftarrow> nth_opt desc i;
     fill_indirect_packed k sg out (Suc i)
       (desc[i := d\<lparr>pd_flags := (if i < unat out then 0 else VRING_DESC_F_WRITE),
                    pd_addr := physAddr s, pd_len := sg_length s\<rparr>])
   }"

text \<open>
  The indirect branch. The loop counter of the source has 16 bits: with \<open>2 ^ 16\<close> or more
  elements the loop does not end.
\<close>

definition add_indirect_packed ::
  "'o virtqueue_packed \<Rightarrow> scatterlist list \<Rightarrow> u32 \<Rightarrow> u32 \<Rightarrow> 'o option \<Rightarrow> vring_packed_desc list \<Rightarrow> u64
     \<Rightarrow> ('o virtqueue_packed \<times> vring_packed_desc list) option" where
  "add_indirect_packed vq sg out descs_used opq table phys_indirect =
     (let head = next_avail_idx vq; bid = (ucast (free_head vq) :: u16) in
      if 2 ^ 16 \<le> descs_used then None
      else do {
        table1 \<leftarrow> fill_indirect_packed (unat descs_used) sg out 0 table;
        ds \<leftarrow> upd (pq_desc vq) head
          (\<lambda>d. d\<lparr>pd_addr := phys_indirect, pd_len := descs_used * 16, pd_id := bid,
                 pd_flags := VRING_DESC_F_INDIRECT OR avail_used_flags vq\<rparr>);
        let head1 = head + 1;
        let wraps = (pq_num vq \<le> ucast head1);
        st \<leftarrow> rd (desc_state vq) bid;
        sts \<leftarrow> upd (desc_state vq) bid (\<lambda>s. s\<lparr>st_num := 1, st_data := opq, st_last := bid\<rparr>);
        Some (vq\<lparr>pq_desc := ds,
                 next_avail_idx := (if wraps then 0 else head1),
                 avail_wrap_counter := (avail_wrap_counter vq \<noteq> wraps),
                 avail_used_flags := (if wraps then avail_used_flags vq XOR AVAIL_USED_MASK
                                      else avail_used_flags vq),
                 num_free := num_free vq - 1, num_added := num_added vq + 1,
                 free_head := ucast (st_next st), desc_state := sts\<rparr>, table1)
      })"

text \<open>
  The loop over the descriptors of the direct branch: \<open>k\<close> remain, \<open>n\<close> is the C counter.
  The flags of the first descriptor are held back in \<open>head_flags\<close>.
\<close>

fun add_loop_packed ::
  "nat \<Rightarrow> scatterlist list \<Rightarrow> u32 \<Rightarrow> nat \<Rightarrow> u16 \<Rightarrow> u16 \<Rightarrow> u16 \<Rightarrow> u16 \<Rightarrow> u16 \<Rightarrow> 'o virtqueue_packed
     \<Rightarrow> (u16 \<times> u16 \<times> u16 \<times> u16 \<times> 'o virtqueue_packed) option" where
  "add_loop_packed 0 sg out n bid i cur prev head_flags vq = Some (i, cur, prev, head_flags, vq)"
| "add_loop_packed (Suc k) sg out n bid i cur prev head_flags vq = do {
     s \<leftarrow> nth_opt sg n;
     let flags = avail_used_flags vq OR (if n < unat out then 0 else VRING_DESC_F_WRITE)
                   OR (if k \<noteq> 0 then VRING_DESC_F_NEXT else 0);
     ds \<leftarrow> upd (pq_desc vq) i
       (\<lambda>d. d\<lparr>pd_addr := physAddr s, pd_len := sg_length s, pd_id := bid,
              pd_flags := (if n = 0 then pd_flags d else flags)\<rparr>);
     st \<leftarrow> rd (desc_state vq) cur;
     let i1 = i + 1;
     let wraps = (pq_num vq \<le> ucast i1);
     add_loop_packed k sg out (Suc n) bid (if wraps then 0 else i1) (st_next st) cur
       (if n = 0 then flags else head_flags)
       (vq\<lparr>pq_desc := ds,
            avail_used_flags := (if wraps then avail_used_flags vq XOR AVAIL_USED_MASK
                                 else avail_used_flags vq)\<rparr>)
   }"

definition add_direct_packed ::
  "'o virtqueue_packed \<Rightarrow> scatterlist list \<Rightarrow> u32 \<Rightarrow> u32 \<Rightarrow> 'o option \<Rightarrow> 'o virtqueue_packed option" where
  "add_direct_packed vq sg out descs_used opq =
     (let head = next_avail_idx vq; bid = (ucast (free_head vq) :: u16) in do {
        (i, cur, prev, head_flags, vq1) \<leftarrow>
          add_loop_packed (unat descs_used) sg out 0 bid head bid bid 0 vq;
        sts \<leftarrow> upd (desc_state vq1) bid
          (\<lambda>s. s\<lparr>st_num := ucast descs_used, st_data := opq, st_last := prev\<rparr>);
        ds \<leftarrow> upd (pq_desc vq1) head (\<lambda>d. d\<lparr>pd_flags := head_flags\<rparr>);
        Some (vq1\<lparr>avail_wrap_counter := (avail_wrap_counter vq1 \<noteq> (i < head)),
                  num_free := num_free vq1 - descs_used,
                  next_avail_idx := i, free_head := ucast cur,
                  desc_state := sts, pq_desc := ds,
                  num_added := num_added vq1 + descs_used\<rparr>)
      })"

definition virtqueue_add_buf_packed ::
  "'o virtqueue_packed \<Rightarrow> scatterlist list \<Rightarrow> u32 \<Rightarrow> u32 \<Rightarrow> 'o option
     \<Rightarrow> vring_packed_desc list option \<Rightarrow> u64
     \<Rightarrow> (int \<times> 'o virtqueue_packed \<times> vring_packed_desc list option) option" where
  "virtqueue_add_buf_packed vq sg out inn opq va_indirect phys_indirect =
     (let descs_used = out + inn; bid = (ucast (free_head vq) :: u16) in
      if descs_used = 0 then None
      else if pq_num vq \<le> ucast bid then None
      else if va_indirect \<noteq> None \<and> 0 < num_free vq then do {
        table \<leftarrow> va_indirect;
        (vq1, table1) \<leftarrow> add_indirect_packed vq sg out descs_used opq table phys_indirect;
        Some (VQ_ADD_BUFFER_SUCCESS, vq1, Some table1)
      } else if num_free vq < descs_used then Some (- ENOSPC, vq, va_indirect)
      else do {
        vq1 \<leftarrow> add_direct_packed vq sg out descs_used opq;
        Some (VQ_ADD_BUFFER_SUCCESS, vq1, va_indirect)
      })"

subsection \<open>Detaching\<close>

definition detach_buf_packed :: "'o virtqueue_packed \<Rightarrow> u32 \<Rightarrow> 'o virtqueue_packed option" where
  "detach_buf_packed vq bid = do {
     sts1 \<leftarrow> upd (desc_state vq) bid (\<lambda>s. s\<lparr>st_data := None\<rparr>);
     st \<leftarrow> rd sts1 bid;
     sts2 \<leftarrow> upd sts1 (st_last st) (\<lambda>s. s\<lparr>st_next := ucast (free_head vq)\<rparr>);
     st2 \<leftarrow> rd sts2 bid;
     Some (vq\<lparr>desc_state := sts2, free_head := bid, num_free := num_free vq + ucast (st_num st2)\<rparr>)
   }"

fun detach_loop_packed ::
  "nat \<Rightarrow> u32 \<Rightarrow> 'o virtqueue_packed \<Rightarrow> ('o option \<times> 'o virtqueue_packed) option" where
  "detach_loop_packed 0 i vq = (if num_free vq \<noteq> pq_num vq then None else Some (None, vq))"
| "detach_loop_packed (Suc k) i vq = do {
     st \<leftarrow> rd (desc_state vq) i;
     (case st_data st of
        None \<Rightarrow> detach_loop_packed k (i + 1) vq
      | Some p \<Rightarrow> do { vq1 \<leftarrow> detach_buf_packed vq i; Some (Some p, vq1) })
   }"

definition virtqueue_detach_unused_buf_packed ::
  "'o virtqueue_packed \<Rightarrow> ('o option \<times> 'o virtqueue_packed) option" where
  "virtqueue_detach_unused_buf_packed vq = detach_loop_packed (unat (pq_num vq)) 0 vq"

subsection \<open>Interrupt control\<close>

definition virtqueue_disable_cb_packed :: "'o virtqueue_packed \<Rightarrow> 'o virtqueue_packed" where
  "virtqueue_disable_cb_packed vq =
     (if event_flags_shadow vq \<noteq> VRING_PACKED_EVENT_FLAG_DISABLE
      then vq\<lparr>event_flags_shadow := VRING_PACKED_EVENT_FLAG_DISABLE,
              pq_driver := (pq_driver vq)\<lparr>ev_flags := VRING_PACKED_EVENT_FLAG_DISABLE\<rparr>\<rparr>
      else vq)"

definition is_used_desc_packed :: "'o virtqueue_packed \<Rightarrow> u16 \<Rightarrow> bool \<Rightarrow> bool option" where
  "is_used_desc_packed vq idx wrap = do {
     d \<leftarrow> rd (pq_desc vq) idx;
     let avail = (pd_flags d AND push_bit VRING_PACKED_DESC_F_AVAIL 1 \<noteq> 0);
     let used = (pd_flags d AND push_bit VRING_PACKED_DESC_F_USED 1 \<noteq> 0);
     Some (avail = used \<and> used = wrap)
   }"

definition virtqueue_poll_packed :: "'o virtqueue_packed \<Rightarrow> u16 \<Rightarrow> bool option" where
  "virtqueue_poll_packed vq ow =
     is_used_desc_packed vq (ow AND NOT (push_bit VRING_PACKED_EVENT_F_WRAP_CTR 1))
       (drop_bit VRING_PACKED_EVENT_F_WRAP_CTR ow \<noteq> 0)"

text \<open>The part the two enabling routines share: leave the disabled state.\<close>

definition reenable_events :: "bool \<Rightarrow> 'o virtqueue_packed \<Rightarrow> 'o virtqueue_packed" where
  "reenable_events ev vq =
     (if event_flags_shadow vq = VRING_PACKED_EVENT_FLAG_DISABLE then
        let f = (if ev then VRING_PACKED_EVENT_FLAG_DESC else VRING_PACKED_EVENT_FLAG_ENABLE)
        in vq\<lparr>event_flags_shadow := f, pq_driver := (pq_driver vq)\<lparr>ev_flags := f\<rparr>\<rparr>
      else vq)"

definition set_driver_event :: "'o virtqueue_packed \<Rightarrow> u16 \<Rightarrow> 'o virtqueue_packed" where
  "set_driver_event vq v = vq\<lparr>pq_driver := (pq_driver vq)\<lparr>ev_off_wrap := v\<rparr>\<rparr>"

definition virtqueue_enable_cb_prepare_packed ::
  "bool \<Rightarrow> 'o virtqueue_packed \<Rightarrow> u32 \<times> 'o virtqueue_packed" where
  "virtqueue_enable_cb_prepare_packed ev vq =
     (let vq1 = (if ev then set_driver_event vq (off_wrap (last_used_idx vq) (used_wrap_counter vq)) else vq);
          vq2 = reenable_events ev vq1
      in (ucast (off_wrap (last_used_idx vq2) (used_wrap_counter vq2)), vq2))"

definition virtqueue_enable_cb_packed ::
  "bool \<Rightarrow> 'o virtqueue_packed \<Rightarrow> (bool \<times> 'o virtqueue_packed) option" where
  "virtqueue_enable_cb_packed ev vq =
     (let (last_used_idx, vq1) = virtqueue_enable_cb_prepare_packed ev vq in do {
        used \<leftarrow> virtqueue_poll_packed vq1 (ucast last_used_idx);
        Some (\<not> used, vq1)
      })"

definition virtqueue_enable_cb_delayed_packed ::
  "bool \<Rightarrow> 'o virtqueue_packed \<Rightarrow> (bool \<times> 'o virtqueue_packed) option" where
  "virtqueue_enable_cb_delayed_packed ev vq =
     (let vq1 = (if ev then
            let bufs = (ucast ((pq_num vq - num_free vq) * 3 div 4) :: u16);
                used_idx = last_used_idx vq + bufs;
                wraps = (pq_num vq \<le> ucast used_idx)
            in set_driver_event vq
                 (off_wrap (if wraps then used_idx - ucast (pq_num vq) else used_idx)
                           (used_wrap_counter vq \<noteq> wraps))
          else vq);
          vq2 = reenable_events ev vq1
      in do {
        used \<leftarrow> is_used_desc_packed vq2 (last_used_idx vq2) (used_wrap_counter vq2);
        Some (\<not> used, vq2)
      })"

definition virtqueue_is_interrupt_enabled_packed :: "'o virtqueue_packed \<Rightarrow> bool" where
  "virtqueue_is_interrupt_enabled_packed vq \<longleftrightarrow>
     event_flags_shadow vq AND VRING_PACKED_EVENT_FLAG_DISABLE \<noteq> 0"

subsection \<open>Fetching a buffer\<close>

definition more_used_packed :: "'o virtqueue_packed \<Rightarrow> bool option" where
  "more_used_packed vq = is_used_desc_packed vq (last_used_idx vq) (used_wrap_counter vq)"

definition virtqueue_get_buf_packed ::
  "'o virtqueue_packed \<Rightarrow> (('o option \<times> u32) option \<times> 'o virtqueue_packed) option" where
  "virtqueue_get_buf_packed vq = do {
     more \<leftarrow> more_used_packed vq;
     (if \<not> more then Some (None, vq)
      else do {
        d \<leftarrow> rd (pq_desc vq) (last_used_idx vq);
        let bid = pd_id d;
        (if pq_num vq \<le> ucast bid then None
         else do {
           st \<leftarrow> rd (desc_state vq) bid;
           (case st_data st of
              None \<Rightarrow> None
            | Some p \<Rightarrow> do {
                vq1 \<leftarrow> detach_buf_packed vq (ucast bid);
                st1 \<leftarrow> rd (desc_state vq1) bid;
                let lu = last_used_idx vq1 + st_num st1;
                let wraps = (pq_num vq1 \<le> ucast lu);
                let vq2 = vq1\<lparr>last_used_idx := (if wraps then lu - ucast (pq_num vq1) else lu),
                              used_wrap_counter := (used_wrap_counter vq1 \<noteq> wraps)\<rparr>;
                let vq3 = (if event_flags_shadow vq2 = VRING_PACKED_EVENT_FLAG_DESC
                           then set_driver_event vq2 (off_wrap (last_used_idx vq2) (used_wrap_counter vq2))
                           else vq2);
                Some (Some (Some p, pd_len d), vq3)
              })
         })
      })
   }"

definition virtqueue_has_buf_packed :: "'o virtqueue_packed \<Rightarrow> bool option" where
  "virtqueue_has_buf_packed vq = more_used_packed vq"

subsection \<open>Notifying the device\<close>

definition virtqueue_kick_prepare_packed :: "'o virtqueue_packed \<Rightarrow> bool \<times> 'o virtqueue_packed" where
  "virtqueue_kick_prepare_packed vq =
     (let old = next_avail_idx vq - ucast (num_added vq);
          new = next_avail_idx vq;
          vq1 = vq\<lparr>num_added := 0\<rparr>;
          flags = ev_flags (pq_device vq);
          ow = ev_off_wrap (pq_device vq)
      in (if flags \<noteq> VRING_PACKED_EVENT_FLAG_DESC then flags \<noteq> VRING_PACKED_EVENT_FLAG_DISABLE
          else let wrap_counter = (drop_bit VRING_PACKED_EVENT_F_WRAP_CTR ow \<noteq> 0);
                   event_idx = ow AND NOT (push_bit VRING_PACKED_EVENT_F_WRAP_CTR 1);
                   event_idx1 = (if wrap_counter \<noteq> avail_wrap_counter vq
                                 then event_idx - ucast (pq_num vq) else event_idx)
               in vring_need_event event_idx1 new old, vq1))"

definition virtqueue_kick_always_packed :: "'o virtqueue_packed \<Rightarrow> bool \<times> 'o virtqueue_packed" where
  "virtqueue_kick_always_packed vq = (True, vq\<lparr>num_added := 0\<rparr>)"

subsection \<open>Creation and shutdown\<close>

text \<open>
  The loop that links the states: \<open>k\<close> iterations remain. With \<open>num = 0\<close> the bound
  \<open>num - 1\<close> wraps around and the loop leaves the array.
\<close>

fun link_states ::
  "nat \<Rightarrow> u32 \<Rightarrow> 'o vring_desc_state_packed list \<Rightarrow> 'o vring_desc_state_packed list option" where
  "link_states 0 i sts = Some sts"
| "link_states (Suc k) i sts = do {
     sts1 \<leftarrow> upd sts i (\<lambda>s. s\<lparr>st_next := ucast (i + 1)\<rparr>);
     link_states k (i + 1) sts1
   }"

definition zero_state :: "'o vring_desc_state_packed" where
  "zero_state = \<lparr>st_data = None, st_num = 0, st_next = 0, st_last = 0\<rparr>"

definition vring_new_virtqueue_packed ::
  "u32 \<Rightarrow> u32 \<Rightarrow> vring_packed_desc list \<times> vring_packed_desc_event \<times> vring_packed_desc_event
     \<Rightarrow> 'o virtqueue_packed option" where
  "vring_new_virtqueue_packed index num pages =
     (case pages of (desc, driver, device) \<Rightarrow> do {
        sts \<leftarrow> link_states (unat (num - 1)) 0 (replicate (unat num) zero_state);
        Some \<lparr>pq_index = index, num_added = 0, free_head = 0, num_free = num, last_used_idx = 0,
              avail_used_flags = push_bit VRING_PACKED_DESC_F_AVAIL 1,
              avail_wrap_counter = True, used_wrap_counter = True, next_avail_idx = 0,
              event_flags_shadow = 0, pq_num = num, pq_desc = desc, pq_driver = driver,
              pq_device = device, desc_state = sts\<rparr>
      })"

definition zero_event :: vring_packed_desc_event where
  "zero_event = \<lparr>ev_off_wrap = 0, ev_flags = 0\<rparr>"

definition zero_packed_desc :: vring_packed_desc where
  "zero_packed_desc = \<lparr>pd_addr = 0, pd_len = 0, pd_id = 0, pd_flags = 0\<rparr>"

definition virtqueue_shutdown_packed :: "'o virtqueue_packed \<Rightarrow> 'o virtqueue_packed option" where
  "virtqueue_shutdown_packed vq =
     vring_new_virtqueue_packed (pq_index vq) (pq_num vq)
       (replicate (unat (pq_num vq)) zero_packed_desc, zero_event, zero_event)"

end
