(* ===== verification/PackedRingProofs.thy ===== *)
theory PackedRingProofs
  imports PackedRing DescPool
begin

text \<open>
  Correctness of the packed ring. Ring positions are counted from creation on: position
  \<open>k\<close> is slot \<open>k mod n\<close>, and the wrap counter of a position is the parity of the lap.
  The driver reads at \<open>l\<close>, the device writes back at \<open>d\<close>, and the driver makes
  descriptors available at \<open>av\<close>; the invariant says what the two flag bits of every slot
  are in the windows between these positions.
\<close>

subsection \<open>Positions and laps\<close>

definition wrapc :: "nat \<Rightarrow> nat \<Rightarrow> bool" where
  "wrapc n k \<longleftrightarrow> even (k div n)"

lemma wrap_advance:
  assumes "0 < n" "m \<le> n"
  shows "(k + m) mod n = (if n \<le> k mod n + m then k mod n + m - n else k mod n + m)"
    and "wrapc n (k + m) = (wrapc n k \<noteq> (n \<le> k mod n + m))"
proof -
  have e: "k + m = (k mod n + m) + k div n * n" by simp
  have lt: "k mod n + m - n < n" using assms mod_less_divisor [of n k] by linarith
  have "(k + m) mod n = (k mod n + m) mod n" by (simp add: mod_add_left_eq)
  then show "(k + m) mod n = (if n \<le> k mod n + m then k mod n + m - n else k mod n + m)"
    using lt by (simp add: le_mod_geq)
  have "(k + m) div n = k div n + (k mod n + m) div n"
    using assms by (subst e) (simp only: div_mult_self1)
  moreover have "(k mod n + m) div n = (if n \<le> k mod n + m then 1 else 0)"
    using lt assms by (simp add: le_div_geq)
  ultimately show "wrapc n (k + m) = (wrapc n k \<noteq> (n \<le> k mod n + m))"
    by (simp add: wrapc_def)
qed

lemma wrapc_lap: "0 < n \<Longrightarrow> wrapc n (k + n) \<longleftrightarrow> \<not> wrapc n k"
  by (simp add: wrapc_def div_add_self2)

lemma slot_inj:
  fixes j k n :: nat
  assumes "j mod n = k mod n" "l \<le> j" "j < l + n" "l \<le> k" "k < l + n"
  shows "j = k"
proof -
  have "j - l = k - l" by (rule mod_add_cancel_less [of l _ n]) (use assms in auto)
  with assms show ?thesis by simp
qed

subsection \<open>Flag bits\<close>

definition abit :: "vring_packed_desc \<Rightarrow> bool" where
  "abit d \<longleftrightarrow> bit (pd_flags d) VRING_PACKED_DESC_F_AVAIL"

definition ubit :: "vring_packed_desc \<Rightarrow> bool" where
  "ubit d \<longleftrightarrow> bit (pd_flags d) VRING_PACKED_DESC_F_USED"

definition flags_for :: "bool \<Rightarrow> u16" where
  "flags_for w = (if w then push_bit VRING_PACKED_DESC_F_AVAIL 1 else push_bit VRING_PACKED_DESC_F_USED 1)"

lemma flags_for_toggle: "flags_for w XOR AVAIL_USED_MASK = flags_for (\<not> w)"
  by (simp add: flags_for_def AVAIL_USED_MASK_def packed_flag_defs)

lemma flags_for_bits:
  fixes f :: u16
  assumes "\<not> bit f 7" "\<not> bit f 15"
  shows "abit (d\<lparr>pd_flags := flags_for w OR f\<rparr>) = w" "ubit (d\<lparr>pd_flags := flags_for w OR f\<rparr>) = (\<not> w)"
  using assms by (simp_all add: abit_def ubit_def flags_for_def packed_flag_defs bit_or_iff bit_push_bit_iff)

lemma small_flags:
  "\<not> bit (0 :: u16) m" "\<not> bit VRING_DESC_F_INDIRECT 7" "\<not> bit VRING_DESC_F_INDIRECT 15"
  "\<not> bit (VRING_DESC_F_WRITE OR VRING_DESC_F_NEXT) 7" "\<not> bit (VRING_DESC_F_WRITE OR VRING_DESC_F_NEXT) 15"
  "\<not> bit VRING_DESC_F_WRITE 7" "\<not> bit VRING_DESC_F_WRITE 15"
  "\<not> bit VRING_DESC_F_NEXT 7" "\<not> bit VRING_DESC_F_NEXT 15"
  by (simp_all add: packed_flag_defs)

lemma is_used_desc_packed_bits:
  "unat idx < length (pq_desc vq) \<Longrightarrow>
   is_used_desc_packed vq idx w = Some (abit (pq_desc vq ! unat idx) = ubit (pq_desc vq ! unat idx) \<and>
                                        ubit (pq_desc vq ! unat idx) = w)"
  by (simp add: is_used_desc_packed_def abit_def ubit_def bit_iff_and_push_bit_not_eq_0 Let_def)

subsection \<open>The invariant\<close>

definition snext :: "'o vring_desc_state_packed list \<Rightarrow> nat \<Rightarrow> nat" where
  "snext sts i = unat (st_next (sts ! i))"

definition sdata :: "'o vring_desc_state_packed list \<Rightarrow> nat \<Rightarrow> 'o option" where
  "sdata sts i = st_data (sts ! i)"

definition packed_inv :: "'o virtqueue_packed \<Rightarrow> nat list \<Rightarrow> (nat list \<times> 'o) list \<Rightarrow> bool" where
  "packed_inv vq fl out \<longleftrightarrow>
     0 < unat (pq_num vq) \<and> unat (pq_num vq) \<le> 2 ^ 15 \<and>
     length (pq_desc vq) = unat (pq_num vq) \<and> length (desc_state vq) = unat (pq_num vq) \<and>
     unat (num_free vq) = length fl \<and>
     pool (unat (pq_num vq)) (snext (desc_state vq)) (unat (free_head vq)) (sdata (desc_state vq)) fl out \<and>
     (\<forall>i < unat (pq_num vq). snext (desc_state vq) i < unat (pq_num vq)) \<and>
     unat (free_head vq) < unat (pq_num vq) \<and>
     (\<forall>x \<in> set out. unat (st_num (desc_state vq ! hd (fst x))) = length (fst x) \<and>
                    unat (st_last (desc_state vq ! hd (fst x))) = last (fst x))"

definition packed_owned :: "'o virtqueue_packed \<Rightarrow> nat \<Rightarrow> (nat \<times> nat \<times> 'o) list \<Rightarrow> bool" where
  "packed_owned vq s xs \<longleftrightarrow>
     s = unat (pq_num vq) \<and> (\<exists>fl out. packed_inv vq fl out \<and> xs = entries out)"

text \<open>The number of descriptors of a buffer, and the places of the returned and the offered ones.\<close>

definition n_of :: "'o avq \<Rightarrow> nat \<Rightarrow> nat" where
  "n_of a bid = (case a_lookup a bid of Some (n, p) \<Rightarrow> n | None \<Rightarrow> 0)"

fun done_at :: "nat \<Rightarrow> vring_packed_desc list \<Rightarrow> (nat \<Rightarrow> nat) \<Rightarrow> nat \<Rightarrow> (nat \<times> u32) list \<Rightarrow> bool" where
  "done_at n ds sz pos [] \<longleftrightarrow> True"
| "done_at n ds sz pos ((bid, len) # xs) \<longleftrightarrow>
     unat (pd_id (ds ! (pos mod n))) = bid \<and> pd_len (ds ! (pos mod n)) = len \<and>
     ubit (ds ! (pos mod n)) = wrapc n pos \<and> done_at n ds sz (pos + sz bid) xs"

fun avail_at :: "nat \<Rightarrow> vring_packed_desc list \<Rightarrow> (nat \<Rightarrow> nat) \<Rightarrow> nat \<Rightarrow> nat list \<Rightarrow> bool" where
  "avail_at n ds sz pos [] \<longleftrightarrow> True"
| "avail_at n ds sz pos (bid # xs) \<longleftrightarrow>
     (\<forall>j < sz bid. unat (pd_id (ds ! ((pos + j) mod n))) = bid) \<and> avail_at n ds sz (pos + sz bid) xs"

definition done_descs :: "'o avq \<Rightarrow> nat" where
  "done_descs a = sum_list (map (n_of a \<circ> fst) (a_done a))"

definition avail_descs :: "'o avq \<Rightarrow> nat" where
  "avail_descs a = sum_list (map (n_of a) (a_avail a))"

definition packed_ring :: "'o virtqueue_packed \<Rightarrow> 'o avq \<Rightarrow> nat \<Rightarrow> bool" where
  "packed_ring vq a l \<longleftrightarrow>
     (let n = unat (pq_num vq); ds = pq_desc vq; av = l + a_descs a; d = l + done_descs a in
      unat (last_used_idx vq) = l mod n \<and> used_wrap_counter vq = wrapc n l \<and>
      unat (next_avail_idx vq) = av mod n \<and> avail_used_flags vq = flags_for (wrapc n av) \<and>
      (\<forall>k. l \<le> k \<and> k < av \<longrightarrow> abit (ds ! (k mod n)) = wrapc n k) \<and>
      (\<forall>k. av \<le> k \<and> k < l + n \<longrightarrow> abit (ds ! (k mod n)) = (\<not> wrapc n k)) \<and>
      (\<forall>k. d \<le> k \<and> k < av \<longrightarrow> ubit (ds ! (k mod n)) = (\<not> wrapc n k)) \<and>
      done_at n ds (n_of a) l (a_done a) \<and>
      avail_at n ds (n_of a) (av - avail_descs a) (a_avail a))"

definition packed_rel :: "'o virtqueue_packed \<Rightarrow> 'o avq \<Rightarrow> bool" where
  "packed_rel vq a \<longleftrightarrow>
     avq_ok a \<and> packed_owned vq (a_size a) (a_out a) \<and> (\<exists>l. packed_ring vq a l)"

lemma packed_inv_pool:
  "packed_inv vq fl out \<Longrightarrow>
   pool (unat (pq_num vq)) (snext (desc_state vq)) (unat (free_head vq)) (sdata (desc_state vq)) fl out"
  by (simp add: packed_inv_def)

lemma packed_inv_bounds:
  assumes "packed_inv vq fl out"
  shows "0 < unat (pq_num vq)" "unat (pq_num vq) \<le> 2 ^ 15" "length (pq_desc vq) = unat (pq_num vq)"
    "length (desc_state vq) = unat (pq_num vq)" "unat (num_free vq) = length fl"
    "unat (free_head vq) < unat (pq_num vq)" "length fl \<le> unat (pq_num vq)"
  using assms pool_free(5) [OF packed_inv_pool [OF assms]] by (auto simp: packed_inv_def)

subsection \<open>Counting descriptors\<close>

lemma n_of_out: "avq_ok a \<Longrightarrow> (bid, n, p) \<in> set (a_out a) \<Longrightarrow> n_of a bid = n"
  by (simp add: n_of_def a_lookup_def avq_ok_def a_ids_def map_of_is_SomeI)

lemma n_of_descs: "avq_ok a \<Longrightarrow> a_descs a = sum_list (map (n_of a) (a_ids a))"
  unfolding a_descs_def a_ids_def map_map
  by (rule arg_cong [of _ _ sum_list], rule map_cong) (auto simp: n_of_out)

lemma n_of_pos: "avq_ok a \<Longrightarrow> bid \<in> set (a_ids a) \<Longrightarrow> 0 < n_of a bid"
  by (force simp: a_ids_def n_of_out avq_ok_def)

lemma n_of_sum_le:
  assumes ok: "avq_ok a" and d: "distinct ids" "set ids \<subseteq> set (a_ids a)"
  shows "sum_list (map (n_of a) ids) \<le> a_descs a"
proof -
  have "distinct (a_ids a)" using ok by (simp add: avq_ok_def)
  then have "a_descs a = sum (n_of a) (set (a_ids a))"
    unfolding n_of_descs [OF ok] by (rule sum_list_distinct_conv_sum_set)
  moreover have "sum_list (map (n_of a) ids) = sum (n_of a) (set ids)"
    using d(1) by (rule sum_list_distinct_conv_sum_set)
  ultimately show ?thesis using d(2) by (simp add: sum_mono2)
qed

lemma descs_split_le:
  assumes "avq_ok a"
  shows "done_descs a + avail_descs a \<le> a_descs a"
    and "a_held a bid \<Longrightarrow> done_descs a + avail_descs a + n_of a bid \<le> a_descs a"
proof -
  have "sum_list (map (n_of a) (a_avail a @ map fst (a_done a))) \<le> a_descs a"
    using assms by (intro n_of_sum_le) (auto simp: avq_ok_def)
  then show "done_descs a + avail_descs a \<le> a_descs a"
    by (simp add: done_descs_def avail_descs_def comp_def)
  assume "a_held a bid"
  then have "sum_list (map (n_of a) (bid # a_avail a @ map fst (a_done a))) \<le> a_descs a"
    using assms by (intro n_of_sum_le) (auto simp: avq_ok_def a_held_def)
  then show "done_descs a + avail_descs a + n_of a bid \<le> a_descs a"
    by (simp add: done_descs_def avail_descs_def comp_def)
qed

lemma done_at_cong:
  "done_at n ds sz pos xs \<Longrightarrow> (\<And>bid. bid \<in> fst ` set xs \<Longrightarrow> sz' bid = sz bid \<and> 0 < sz bid) \<Longrightarrow>
   (\<And>k. pos \<le> k \<Longrightarrow> k < pos + sum_list (map (sz \<circ> fst) xs) \<Longrightarrow> ds' ! (k mod n) = ds ! (k mod n)) \<Longrightarrow>
   done_at n ds' sz' pos xs"
proof (induction n ds sz pos xs rule: done_at.induct)
  case (2 n ds sz pos bid len xs)
  have "ds' ! (pos mod n) = ds ! (pos mod n)" using "2.prems"(2) [of bid] by (intro "2.prems"(3)) auto
  moreover have "done_at n ds' sz' (pos + sz bid) xs"
    using "2.prems" by (intro "2.IH") auto
  ultimately show ?case using "2.prems"(1) "2.prems"(2) [of bid] by auto
qed simp

lemma done_at_append:
  "done_at n ds sz pos (xs @ ys) \<longleftrightarrow>
   done_at n ds sz pos xs \<and> done_at n ds sz (pos + sum_list (map (sz \<circ> fst) xs)) ys"
  by (induction n ds sz pos xs rule: done_at.induct) (auto simp: add.assoc)

lemma avail_at_cong:
  "avail_at n ds sz pos xs \<Longrightarrow> (\<And>bid. bid \<in> set xs \<Longrightarrow> sz' bid = sz bid) \<Longrightarrow>
   (\<And>k. pos \<le> k \<Longrightarrow> k < pos + sum_list (map sz xs) \<Longrightarrow> ds' ! (k mod n) = ds ! (k mod n)) \<Longrightarrow>
   avail_at n ds' sz' pos xs"
proof (induction n ds sz pos xs rule: avail_at.induct)
  case (2 n ds sz pos bid xs)
  have "ds' ! ((pos + j) mod n) = ds ! ((pos + j) mod n)" if "j < sz bid" for j
    using that by (intro "2.prems"(3)) auto
  moreover have "avail_at n ds' sz' (pos + sz bid) xs"
    using "2.prems" by (intro "2.IH") auto
  ultimately show ?case using "2.prems"(1,2) by auto
qed simp

lemma avail_at_append:
  "avail_at n ds sz pos (xs @ ys) \<longleftrightarrow>
   avail_at n ds sz pos xs \<and> avail_at n ds sz (pos + sum_list (map sz xs)) ys"
  by (induction n ds sz pos xs rule: avail_at.induct) (auto simp: add.assoc)

subsection \<open>The states of the buffers\<close>

lemma detach_buf_packed_inv:
  assumes inv: "packed_inv vq fl (us @ (c, p) # vs)" and bid: "unat bid = hd c"
  shows "\<exists>sts nf. detach_buf_packed vq bid =
             Some (vq\<lparr>desc_state := sts, free_head := bid, num_free := nf\<rparr>) \<and>
           packed_inv (vq\<lparr>desc_state := sts, free_head := bid, num_free := nf\<rparr>) (c @ fl) (us @ vs) \<and>
           unat (st_num (sts ! hd c)) = length c"
proof -
  let ?N = "unat (pq_num vq)" and ?sts = "desc_state vq"
  note B = packed_inv_bounds [OF inv] and P = packed_inv_pool [OF inv]
  note H = pool_head [OF P]
  have st: "unat (st_num (?sts ! hd c)) = length c" "unat (st_last (?sts ! hd c)) = last c"
    using inv by (auto simp: packed_inv_def)
  have lastN: "last c < ?N" using H(3) by (intro pool_bound [OF P]) auto
  let ?s1 = "?sts[hd c := (?sts ! hd c)\<lparr>st_data := None\<rparr>]"
  let ?s2 = "?s1[last c := (?s1 ! last c)\<lparr>st_next := ucast (free_head vq)\<rparr>]"
  let ?nf = "num_free vq + ucast (st_num (?sts ! hd c))"
  let ?vq = "vq\<lparr>desc_state := ?s2, free_head := bid, num_free := ?nf\<rparr>"
  have num: "st_num (?s2 ! i) = st_num (?sts ! i)" "st_last (?s2 ! i) = st_last (?sts ! i)" for i
    using H(2) lastN B(4) by (auto simp: nth_list_update)
  have run: "detach_buf_packed vq bid = Some ?vq"
    using bid H(2) lastN B(4) st(2) num(1) [of "hd c"] by (simp add: detach_buf_packed_def)
  have uc: "unat (ucast (free_head vq) :: u16) = unat (free_head vq)"
    using B(2,6) by (intro unat_ucast_32_16) simp
  have nx: "snext ?s2 = (snext ?sts)(last c := unat (free_head vq))"
    using H(2) lastN B(4) uc by (auto simp: snext_def nth_list_update)
  have dt: "sdata ?s2 = (sdata ?sts)(hd c := None)"
    using H(2) lastN B(4) by (auto simp: sdata_def nth_list_update)
  have pl: "pool ?N (snext ?s2) (hd c) (sdata ?s2) (c @ fl) (us @ vs)"
    unfolding nx dt by (rule pool_put [OF P])
  have "length fl + length c \<le> ?N" using pool_length [OF P] unfolding entries_sum by simp
  then have "unat ?nf = length (c @ fl)"
    using B(2,5) st(1) by (subst unat_plus_small) auto
  moreover have "\<forall>i < ?N. snext ?s2 i < ?N"
    using inv B(6) unfolding nx by (simp add: packed_inv_def)
  ultimately have "packed_inv ?vq (c @ fl) (us @ vs)"
    using B pl inv bid H(2) by (auto simp: packed_inv_def num)
  moreover have "unat (st_num (?s2 ! hd c)) = length c" using st(1) num(1) [of "hd c"] by simp
  ultimately show ?thesis using run by blast
qed

lemma packed_inv_consume:
  assumes inv: "packed_inv vq fl out" and n: "0 < n" "n \<le> length fl"
    and sts: "desc_state vq' = (desc_state vq)[hd fl := (desc_state vq ! hd fl)\<lparr>
                st_num := word_of_nat n, st_data := Some p, st_last := lst\<rparr>]"
    and lst: "unat lst = last (take n fl)"
    and fh: "unat (free_head vq') = snext (desc_state vq) (last (take n fl))"
    and nf: "num_free vq' = num_free vq - word_of_nat n"
    and frame: "pq_num vq' = pq_num vq" "length (pq_desc vq') = length (pq_desc vq)"
  shows "packed_inv vq' (drop n fl) (out @ [(take n fl, p)])"
proof -
  let ?N = "unat (pq_num vq)" and ?sts = "desc_state vq"
  note B = packed_inv_bounds [OF inv] and P = packed_inv_pool [OF inv]
  note F = pool_free [OF P]
  have ne: "fl \<noteq> []" using n by auto
  then have hdN: "hd fl < ?N" using F(4) by simp
  have tne: "take n fl \<noteq> []" using n by auto
  then have lN: "last (take n fl) < ?N" using F(4) by (meson in_set_takeD last_in_set)
  have un: "unat (word_of_nat n :: u32) = n" "unat (word_of_nat n :: u16) = n"
    using n B(2,7) by (auto intro!: unat_of_nat_small)
  have cnt: "unat (num_free vq') = length (drop n fl)"
    using B(5) n un(1) unfolding nf by (subst unat_minus_le) (auto simp: word_le_nat_alt)
  have nx: "snext (desc_state vq') = snext ?sts"
    using hdN B(4) unfolding sts by (auto simp: snext_def nth_list_update)
  have dt: "sdata (desc_state vq') = (sdata ?sts)(hd fl := Some p)"
    using hdN B(4) unfolding sts by (auto simp: sdata_def nth_list_update)
  have lk: "linked_by (snext ?sts) (take n fl @ drop n fl)" using F(1) by simp
  have first: "drop n fl \<noteq> [] \<longrightarrow> unat (free_head vq') = hd (drop n fl)"
    using lk tne fh unfolding linked_by_append by simp
  have pl: "pool ?N (snext (desc_state vq')) (unat (free_head vq')) (sdata (desc_state vq')) (drop n fl)
      (out @ [(take n fl, p)])"
    by (rule pool_take [OF P n _ first]) (simp_all add: nx dt)
  have heads: "hd (fst x) \<noteq> hd fl" if "x \<in> set out" for x
    using pool_chain_free [OF P that] pool_nonempty [OF P that] ne
    by (metis disjoint_iff hd_in_set)
  have "\<forall>x \<in> set (out @ [(take n fl, p)]). unat (st_num (desc_state vq' ! hd (fst x))) = length (fst x) \<and>
                    unat (st_last (desc_state vq' ! hd (fst x))) = last (fst x)"
  proof
    fix x assume x: "x \<in> set (out @ [(take n fl, p)])"
    show "unat (st_num (desc_state vq' ! hd (fst x))) = length (fst x) \<and>
          unat (st_last (desc_state vq' ! hd (fst x))) = last (fst x)"
    proof (cases "x \<in> set out")
      case True
      then have "desc_state vq' ! hd (fst x) = ?sts ! hd (fst x)"
        using heads [OF True] unfolding sts by (metis nth_list_update_neq)
      then show ?thesis using True inv by (simp add: packed_inv_def)
    next
      case False
      then have "x = (take n fl, p)" "hd (take n fl) = hd fl" using x n by auto
      then show ?thesis using hdN B(4) n un(2) lst by (simp add: sts min_def)
    qed
  qed
  moreover have "unat (free_head vq') < ?N" using fh inv lN by (simp add: packed_inv_def)
  moreover have "length (desc_state vq') = ?N" using sts B(4) by simp
  moreover have "\<forall>i < ?N. snext (desc_state vq') i < ?N" using inv unfolding nx by (simp add: packed_inv_def)
  ultimately show ?thesis
    unfolding packed_inv_def frame using B(1-3) cnt pl by blast
qed

subsection \<open>The loop over the descriptors\<close>

text \<open>What the driver stores in descriptor \<open>j\<close> of a buffer of \<open>n\<close>.\<close>

definition pflags :: "u32 \<Rightarrow> nat \<Rightarrow> nat \<Rightarrow> bool \<Rightarrow> u16" where
  "pflags out n j w = flags_for w OR (if j < unat out then 0 else VRING_DESC_F_WRITE)
                        OR (if Suc j \<noteq> n then VRING_DESC_F_NEXT else 0)"

definition pbody :: "scatterlist \<Rightarrow> u16 \<Rightarrow> vring_packed_desc \<Rightarrow> vring_packed_desc" where
  "pbody s bid d = d\<lparr>pd_addr := physAddr s, pd_len := sg_length s, pd_id := bid\<rparr>"

lemma pflags_bits:
  "abit (d\<lparr>pd_flags := pflags out n j w\<rparr>) = w" "ubit (d\<lparr>pd_flags := pflags out n j w\<rparr>) = (\<not> w)"
  unfolding pflags_def or.assoc by (rule flags_for_bits; simp add: small_flags)+

lemma add_loop_packed_spec:
  "0 < unat (pq_num vq) \<Longrightarrow> unat (pq_num vq) \<le> 2 ^ 15 \<Longrightarrow> length (pq_desc vq) = unat (pq_num vq) \<Longrightarrow>
   length (desc_state vq) = unat (pq_num vq) \<Longrightarrow> unat i = k0 mod unat (pq_num vq) \<Longrightarrow>
   avail_used_flags vq = flags_for (wrapc (unat (pq_num vq)) k0) \<Longrightarrow>
   k \<le> length fl \<Longrightarrow> k \<le> unat (pq_num vq) \<Longrightarrow> linked_by (snext (desc_state vq)) fl \<Longrightarrow>
   (fl \<noteq> [] \<longrightarrow> unat cur = hd fl) \<Longrightarrow> \<forall>x \<in> set fl. x < unat (pq_num vq) \<Longrightarrow> n + k \<le> length sg \<Longrightarrow>
   \<exists>i' cur' prev' hf ds. add_loop_packed k sg out n bid i cur prev hf0 vq =
       Some (i', cur', prev', hf, vq\<lparr>pq_desc := ds,
              avail_used_flags := flags_for (wrapc (unat (pq_num vq)) (k0 + k))\<rparr>) \<and>
     unat i' = (k0 + k) mod unat (pq_num vq) \<and> length ds = unat (pq_num vq) \<and>
     (0 < k \<longrightarrow> unat prev' = last (take k fl) \<and> unat cur' = snext (desc_state vq) (last (take k fl))) \<and>
     hf = (if n = 0 \<and> 0 < k then pflags out k 0 (wrapc (unat (pq_num vq)) k0) else hf0) \<and>
     (\<forall>m. (\<forall>j < k. m \<noteq> (k0 + j) mod unat (pq_num vq)) \<longrightarrow> ds ! m = pq_desc vq ! m) \<and>
     (\<forall>j < k. ds ! ((k0 + j) mod unat (pq_num vq)) =
        (pbody (sg ! (n + j)) bid (pq_desc vq ! ((k0 + j) mod unat (pq_num vq))))\<lparr>pd_flags :=
           if n + j = 0 then pd_flags (pq_desc vq ! ((k0 + j) mod unat (pq_num vq)))
           else pflags out (n + k) (n + j) (wrapc (unat (pq_num vq)) (k0 + j))\<rparr>)"
proof (induction k arbitrary: n i cur prev hf0 vq k0 fl)
  case 0
  show ?case
    by (rule exI [of _ i], rule exI [of _ cur], rule exI [of _ prev], rule exI [of _ hf0],
        rule exI [of _ "pq_desc vq"]) (use 0 in simp)
next
  case (Suc k)
  let ?N = "unat (pq_num vq)" and ?m = "k0 mod unat (pq_num vq)"
  note prems = Suc.prems
  obtain x xs where fl: "fl = x # xs" using prems(7) by (cases fl) auto
  have cur: "unat cur = x" and xN: "x < ?N" using prems fl by auto
  have iN: "unat i < ?N" using prems(1,5) by simp
  have i1: "unat (i + 1) = Suc (unat i)" using iN prems(2) by (intro unat_Suc_small) simp
  have sgn: "nth_opt sg n = Some (sg ! n)" using prems(12) by simp
  let ?w = "pq_num vq \<le> ucast (i + 1)"
  have w: "?w \<longleftrightarrow> ?N \<le> ?m + 1" using i1 prems(5) by (simp add: word_le_nat_alt)
  note adv = wrap_advance [OF prems(1), of 1 k0]
  let ?fl = "pflags out (n + Suc k) n (wrapc ?N k0)"
  have flg: "avail_used_flags vq OR (if n < unat out then 0 else VRING_DESC_F_WRITE)
      OR (if k \<noteq> 0 then VRING_DESC_F_NEXT else 0) = ?fl"
    using prems(6) by (simp add: pflags_def)
  let ?d = "(pbody (sg ! n) bid (pq_desc vq ! ?m))\<lparr>pd_flags := if n = 0 then pd_flags (pq_desc vq ! ?m) else ?fl\<rparr>"
  let ?vq = "vq\<lparr>pq_desc := (pq_desc vq)[?m := ?d],
                 avail_used_flags := (if ?w then avail_used_flags vq XOR AVAIL_USED_MASK else avail_used_flags vq)\<rparr>"
  let ?i = "if ?w then 0 else i + 1" and ?c = "st_next (desc_state vq ! x)"
  have step: "add_loop_packed (Suc k) sg out n bid i cur prev hf0 vq =
      add_loop_packed k sg out (Suc n) bid ?i ?c cur (if n = 0 then ?fl else hf0) ?vq"
    using sgn iN prems(3-5) cur xN flg by (simp add: Let_def pbody_def)
  have af: "avail_used_flags ?vq = flags_for (wrapc ?N (k0 + 1))"
    using prems(1,6) w adv(2) flags_for_toggle by auto
  have "?m < ?N" using prems(1) by simp
  then have full: "?m + 1 = ?N" if ?w using w that by linarith
  have ui: "unat ?i = (k0 + 1) mod ?N"
    using w adv(1) i1 prems(1,5) full by auto
  have tl: "linked_by (snext (desc_state vq)) xs" "xs \<noteq> [] \<longrightarrow> unat ?c = hd xs"
    using linked_by_tl prems(9) fl unfolding snext_def by blast+
  have "\<exists>i' cur' prev' hf ds. add_loop_packed k sg out (Suc n) bid ?i ?c cur (if n = 0 then ?fl else hf0) ?vq =
       Some (i', cur', prev', hf, ?vq\<lparr>pq_desc := ds,
              avail_used_flags := flags_for (wrapc (unat (pq_num ?vq)) ((k0 + 1) + k))\<rparr>) \<and>
     unat i' = ((k0 + 1) + k) mod unat (pq_num ?vq) \<and> length ds = unat (pq_num ?vq) \<and>
     (0 < k \<longrightarrow> unat prev' = last (take k xs) \<and> unat cur' = snext (desc_state ?vq) (last (take k xs))) \<and>
     hf = (if Suc n = 0 \<and> 0 < k then pflags out k 0 (wrapc (unat (pq_num ?vq)) (k0 + 1)) else (if n = 0 then ?fl else hf0)) \<and>
     (\<forall>m. (\<forall>j < k. m \<noteq> ((k0 + 1) + j) mod unat (pq_num ?vq)) \<longrightarrow> ds ! m = pq_desc ?vq ! m) \<and>
     (\<forall>j < k. ds ! (((k0 + 1) + j) mod unat (pq_num ?vq)) =
        (pbody (sg ! (Suc n + j)) bid (pq_desc ?vq ! (((k0 + 1) + j) mod unat (pq_num ?vq))))\<lparr>pd_flags :=
           if Suc n + j = 0 then pd_flags (pq_desc ?vq ! (((k0 + 1) + j) mod unat (pq_num ?vq)))
           else pflags out (Suc n + k) (Suc n + j) (wrapc (unat (pq_num ?vq)) ((k0 + 1) + j))\<rparr>)"
    by (rule Suc.IH) (use prems fl tl af ui in simp_all)
  then obtain i' cur' prev' hf ds where q:
     "add_loop_packed k sg out (Suc n) bid ?i ?c cur (if n = 0 then ?fl else hf0) ?vq =
       Some (i', cur', prev', hf, ?vq\<lparr>pq_desc := ds,
              avail_used_flags := flags_for (wrapc (unat (pq_num ?vq)) ((k0 + 1) + k))\<rparr>)"
     "unat i' = ((k0 + 1) + k) mod unat (pq_num ?vq)" "length ds = unat (pq_num ?vq)"
     "0 < k \<longrightarrow> unat prev' = last (take k xs) \<and> unat cur' = snext (desc_state ?vq) (last (take k xs))"
     "hf = (if Suc n = 0 \<and> 0 < k then pflags out k 0 (wrapc (unat (pq_num ?vq)) (k0 + 1)) else (if n = 0 then ?fl else hf0))"
     "\<forall>m. (\<forall>j < k. m \<noteq> ((k0 + 1) + j) mod unat (pq_num ?vq)) \<longrightarrow> ds ! m = pq_desc ?vq ! m"
     "\<forall>j < k. ds ! (((k0 + 1) + j) mod unat (pq_num ?vq)) =
        (pbody (sg ! (Suc n + j)) bid (pq_desc ?vq ! (((k0 + 1) + j) mod unat (pq_num ?vq))))\<lparr>pd_flags :=
           if Suc n + j = 0 then pd_flags (pq_desc ?vq ! (((k0 + 1) + j) mod unat (pq_num ?vq)))
           else pflags out (Suc n + k) (Suc n + j) (wrapc (unat (pq_num ?vq)) ((k0 + 1) + j))\<rparr>"
    by blast
  have r: "unat i' = (k0 + Suc k) mod ?N" "length ds = ?N" "hf = (if n = 0 then ?fl else hf0)"
     "0 < k \<longrightarrow> unat prev' = last (take k xs) \<and> unat cur' = snext (desc_state vq) (last (take k xs))"
    using q(2-5) by simp_all
  have r6: "ds ! m = (pq_desc vq)[?m := ?d] ! m" if "\<forall>j < k. m \<noteq> (k0 + Suc j) mod ?N" for m
    using q(6) that by simp
  have r7: "ds ! ((k0 + Suc j) mod ?N) =
        (pbody (sg ! (n + Suc j)) bid ((pq_desc vq)[?m := ?d] ! ((k0 + Suc j) mod ?N)))\<lparr>pd_flags :=
           pflags out (n + Suc k) (n + Suc j) (wrapc ?N (k0 + Suc j))\<rparr>" if "j < k" for j
    using q(7) that by simp
  have run: "add_loop_packed (Suc k) sg out n bid i cur prev hf0 vq =
       Some (i', cur', prev', hf, vq\<lparr>pq_desc := ds, avail_used_flags := flags_for (wrapc ?N (k0 + Suc k))\<rparr>)"
    unfolding step q(1) by simp
  have k0: "k = 0 \<Longrightarrow> prev' = cur \<and> cur' = ?c" using q(1) by simp
  have ne: "?m \<noteq> (k0 + Suc j) mod ?N" if "j < k" for j
    using slot_inj [of k0 ?N "k0 + Suc j" k0] that prems(8) by auto
  have seg: "ds ! ((k0 + j) mod ?N) =
        (pbody (sg ! (n + j)) bid (pq_desc vq ! ((k0 + j) mod ?N)))\<lparr>pd_flags :=
           if n + j = 0 then pd_flags (pq_desc vq ! ((k0 + j) mod ?N))
           else pflags out (n + Suc k) (n + j) (wrapc ?N (k0 + j))\<rparr>" if "j < Suc k" for j
  proof (cases j)
    case 0
    then show ?thesis using r6 [of ?m] ne iN prems(3,5) by simp
  next
    case (Suc j')
    then have "(pq_desc vq)[?m := ?d] ! ((k0 + j) mod ?N) = pq_desc vq ! ((k0 + j) mod ?N)"
      using ne [of j'] that by simp
    then show ?thesis using r7 [of j'] that Suc by simp
  qed
  have oth: "ds ! m = pq_desc vq ! m" if m: "\<forall>j < Suc k. m \<noteq> (k0 + j) mod ?N" for m
  proof -
    have "m \<noteq> ?m" using m [rule_format, of 0] by simp
    moreover have "m \<noteq> (k0 + Suc j) mod ?N" if "j < k" for j using m [rule_format, of "Suc j"] that by simp
    ultimately show ?thesis using r6 [of m] by simp
  qed
  have lst: "unat prev' = last (take (Suc k) fl) \<and> unat cur' = snext (desc_state vq) (last (take (Suc k) fl))"
    using r(4) k0 fl cur prems(7) by (cases "k = 0") (auto simp: snext_def)
  have hf: "hf = (if n = 0 \<and> 0 < Suc k then pflags out (Suc k) 0 (wrapc ?N k0) else hf0)"
    using r(3) by simp
  show ?case using run r(1,2) lst hf seg oth by blast
qed

subsection \<open>Adding a buffer\<close>

lemma n_of_add:
  "avq_ok a \<Longrightarrow> bid \<notin> set (a_ids a) \<Longrightarrow> n_of (a_add bid n p a) b = (if b = bid then n else n_of a b)"
  by (auto simp: n_of_def a_lookup_def a_add_def a_ids_def map_add_def image_iff
      split: option.splits dest!: map_of_SomeD)

lemma descs_add:
  assumes "avq_ok a" "bid \<notin> set (a_ids a)"
  shows "a_descs (a_add bid n p a) = a_descs a + n" "done_descs (a_add bid n p a) = done_descs a"
    "avail_descs (a_add bid n p a) = avail_descs a + n"
proof -
  show "a_descs (a_add bid n p a) = a_descs a + n" by (simp add: a_descs_def a_add_def)
  have d: "a_done (a_add bid n p a) = a_done a" "a_avail (a_add bid n p a) = a_avail a @ [bid]"
    by (simp_all add: a_add_def)
  have "map (n_of (a_add bid n p a) \<circ> fst) (a_done a) = map (n_of a \<circ> fst) (a_done a)"
    using assms by (intro map_cong) (auto simp: n_of_add avq_ok_def)
  then show "done_descs (a_add bid n p a) = done_descs a" unfolding done_descs_def d by (simp only:)
  have "sum_list (map (n_of (a_add bid n p a)) (a_avail a)) = sum_list (map (n_of a) (a_avail a))"
    using assms by (intro arg_cong [of _ _ sum_list] map_cong) (auto simp: n_of_add avq_ok_def)
  then show "avail_descs (a_add bid n p a) = avail_descs a + n"
    unfolding avail_descs_def d using assms by (simp add: n_of_add)
qed

lemma packed_ring_add:
  assumes ring: "packed_ring vq a l" and ok: "avq_ok a" and fresh: "bid \<notin> set (a_ids a)"
    and n: "0 < n" "a_descs a + n \<le> unat (pq_num vq)"
    and frame: "pq_num vq' = pq_num vq" "last_used_idx vq' = last_used_idx vq"
      "used_wrap_counter vq' = used_wrap_counter vq"
    and idx: "unat (next_avail_idx vq') = (l + a_descs a + n) mod unat (pq_num vq)"
    and fl: "avail_used_flags vq' = flags_for (wrapc (unat (pq_num vq)) (l + a_descs a + n))"
    and oth: "\<And>m. (\<forall>j < n. m \<noteq> (l + a_descs a + j) mod unat (pq_num vq)) \<Longrightarrow> pq_desc vq' ! m = pq_desc vq ! m"
    and new: "\<And>j. j < n \<Longrightarrow> abit (pq_desc vq' ! ((l + a_descs a + j) mod unat (pq_num vq))) =
          wrapc (unat (pq_num vq)) (l + a_descs a + j) \<and>
        ubit (pq_desc vq' ! ((l + a_descs a + j) mod unat (pq_num vq))) =
          (\<not> wrapc (unat (pq_num vq)) (l + a_descs a + j)) \<and>
        unat (pd_id (pq_desc vq' ! ((l + a_descs a + j) mod unat (pq_num vq)))) = bid"
  shows "packed_ring vq' (a_add bid n p a) l"
proof -
  let ?N = "unat (pq_num vq)" and ?av = "l + a_descs a" and ?d = "l + done_descs a"
  let ?ds = "pq_desc vq" and ?ds' = "pq_desc vq'" and ?a = "a_add bid n p a"
  have R: "\<forall>k. l \<le> k \<and> k < ?av \<longrightarrow> abit (?ds ! (k mod ?N)) = wrapc ?N k"
    "\<forall>k. ?av \<le> k \<and> k < l + ?N \<longrightarrow> abit (?ds ! (k mod ?N)) = (\<not> wrapc ?N k)"
    "\<forall>k. ?d \<le> k \<and> k < ?av \<longrightarrow> ubit (?ds ! (k mod ?N)) = (\<not> wrapc ?N k)"
    "done_at ?N ?ds (n_of a) l (a_done a)"
    "avail_at ?N ?ds (n_of a) (?av - avail_descs a) (a_avail a)"
    "unat (last_used_idx vq) = l mod ?N" "used_wrap_counter vq = wrapc ?N l"
    using ring by (simp_all add: packed_ring_def Let_def)
  note D = descs_add [OF ok fresh, of n p] and le = descs_split_le(1) [OF ok]
  have same: "?ds' ! (k mod ?N) = ?ds ! (k mod ?N)" if k: "l \<le> k" "k < ?av \<or> ?av + n \<le> k" "k < l + ?N" for k
  proof (rule oth, intro allI impI notI)
    fix j assume j: "j < n" "k mod ?N = (?av + j) mod ?N"
    then have "k = ?av + j" using slot_inj [OF j(2), of l] k n by auto
    then show False using k j by auto
  qed
  have at: "k = ?av + (k - ?av) \<and> k - ?av < n" if "?av \<le> k" "k < ?av + n" for k using that by auto
  have 1: "abit (?ds' ! (k mod ?N)) = wrapc ?N k" if "l \<le> k" "k < ?av + n" for k
  proof (cases "k < ?av")
    case True
    then show ?thesis using same [of k] R(1) that n by auto
  next
    case False
    then show ?thesis using new [of "k - ?av"] that by auto
  qed
  have 2: "abit (?ds' ! (k mod ?N)) = (\<not> wrapc ?N k)" if "?av + n \<le> k" "k < l + ?N" for k
    using same [of k] R(2) that by auto
  have 3: "ubit (?ds' ! (k mod ?N)) = (\<not> wrapc ?N k)" if "?d \<le> k" "k < ?av + n" for k
  proof (cases "k < ?av")
    case True
    then show ?thesis using same [of k] R(3) that n by auto
  next
    case False
    then show ?thesis using new [of "k - ?av"] that by auto
  qed
  have sub: "fst ` set (a_done a) \<subseteq> set (a_ids a)" "set (a_avail a) \<subseteq> set (a_ids a)"
    using ok by (auto simp: avq_ok_def)
  have 4: "done_at ?N ?ds' (n_of ?a) l (a_done a)"
  proof (rule done_at_cong [OF R(4)])
    fix b assume "b \<in> fst ` set (a_done a)"
    then show "n_of ?a b = n_of a b \<and> 0 < n_of a b"
      using sub fresh n_of_pos [OF ok] by (auto simp: n_of_add [OF ok fresh])
  next
    fix k assume "l \<le> k" "k < l + sum_list (map (n_of a \<circ> fst) (a_done a))"
    then have "k < ?d" by (simp add: done_descs_def)
    then show "?ds' ! (k mod ?N) = ?ds ! (k mod ?N)" using \<open>l \<le> k\<close> le n by (intro same) auto
  qed
  have st: "?av + n - avail_descs ?a = ?av - avail_descs a" using D(3) by simp
  have "avail_at ?N ?ds' (n_of ?a) (?av - avail_descs a) (a_avail a)"
  proof (rule avail_at_cong [OF R(5)])
    fix b assume "b \<in> set (a_avail a)"
    then show "n_of ?a b = n_of a b" using sub fresh by (auto simp: n_of_add [OF ok fresh])
  next
    fix k assume "?av - avail_descs a \<le> k" "k < ?av - avail_descs a + sum_list (map (n_of a) (a_avail a))"
    then have "l \<le> k" "k < ?av" using le by (auto simp: avail_descs_def)
    then show "?ds' ! (k mod ?N) = ?ds ! (k mod ?N)" using n by (intro same) auto
  qed
  moreover have "?av - avail_descs a + sum_list (map (n_of ?a) (a_avail a)) = ?av"
  proof -
    have "sum_list (map (n_of ?a) (a_avail a)) = avail_descs a"
      unfolding avail_descs_def using sub fresh
      by (intro arg_cong [of _ _ sum_list] map_cong) (auto simp: n_of_add [OF ok fresh])
    then show ?thesis using le by simp
  qed
  ultimately have 5: "avail_at ?N ?ds' (n_of ?a) (?av + n - avail_descs ?a) (a_avail ?a)"
    using new unfolding st by (simp add: a_add_def avail_at_append n_of_add [OF ok fresh, unfolded a_add_def])
  have dn: "a_done ?a = a_done a" by (simp add: a_add_def)
  show ?thesis
    unfolding packed_ring_def Let_def frame D(1,2) dn
    using R(6,7) idx fl 1 2 3 4 5 by (simp add: add.assoc)
qed

end
