(* ===== verification/PackedRingRefine.thy ===== *)
theory PackedRingRefine
  imports PackedRingProofs
begin

text \<open>
  The packed ring implements the virtqueue contract: adding, fetching, creation,
  interrupt control and cleanup, and the interpretations of the \<open>virtqueue\<close> locales
  for the routines of \<^verbatim>\<open>src/VirtIO/VirtIORing-Packed.c\<close>.
\<close>

subsection \<open>Adding a buffer\<close>

lemma packed_relE:
  assumes "packed_rel vq a"
  obtains fl out l where "packed_inv vq fl out" "a_out a = entries out" "a_size a = unat (pq_num vq)"
    "avq_ok a" "packed_ring vq a l" "a_free a = length fl" "a_descs a + length fl = unat (pq_num vq)"
proof -
  obtain fl out l where i: "packed_inv vq fl out" "a_out a = entries out" "a_size a = unat (pq_num vq)"
    "packed_ring vq a l"
    using assms by (auto simp: packed_rel_def packed_owned_def)
  have "length fl + a_descs a = unat (pq_num vq)"
    using pool_length [OF packed_inv_pool [OF i(1)]] i(2) by (simp add: a_descs_def)
  then show ?thesis using i assms by (intro that) (auto simp: packed_rel_def a_free_def)
qed

lemma packed_relI:
  "avq_ok a \<Longrightarrow> packed_inv vq fl out \<Longrightarrow> a_out a = entries out \<Longrightarrow> a_size a = unat (pq_num vq) \<Longrightarrow>
   packed_ring vq a l \<Longrightarrow> packed_rel vq a"
  by (auto simp: packed_rel_def packed_owned_def)

lemma packed_id_fresh:
  assumes inv: "packed_inv vq fl out" and out: "a_out a = entries out" and fl: "fl \<noteq> []"
  shows "unat (free_head vq) = hd fl" "hd fl \<notin> set (a_ids a)"
proof -
  note P = packed_inv_pool [OF inv]
  show "unat (free_head vq) = hd fl" by (rule pool_free(2) [OF P fl])
  show "hd fl \<notin> set (a_ids a)"
  proof
    assume "hd fl \<in> set (a_ids a)"
    then obtain x where x: "x \<in> set out" "hd fl = hd (fst x)"
      using out by (auto simp: a_ids_def entries_def)
    then have "hd fl \<in> set (fst x)" using pool_nonempty [OF P x(1)] by simp
    then show False using pool_chain_free [OF P x(1)] fl hd_in_set [OF fl] by blast
  qed
qed

lemma entries_take: "n \<le> length fl \<Longrightarrow> 0 < n \<Longrightarrow> entries [(take n fl, p)] = [(hd fl, n, p)]"
  by (simp add: entries_def min_def)

text \<open>The end of both branches: the states and the ring are those of the abstract addition.\<close>

lemma packed_rel_add:
  assumes rel: "packed_rel vq a" and inv: "packed_inv vq fl out" "a_out a = entries out"
    and n: "0 < n" "n \<le> length fl" and inv': "packed_inv vq' (drop n fl) (out @ [(take n fl, p)])"
    and num: "pq_num vq' = pq_num vq"
    and ring: "packed_ring vq' (a_add (hd fl) n p a) l"
  shows "packed_rel vq' (a_add (hd fl) n p a)"
proof -
  obtain fl' out' l' where r: "a_size a = unat (pq_num vq)" "avq_ok a" "a_free a = length fl"
    using rel inv by (elim packed_relE) (auto dest!: packed_inv_pool pool_length)
  have ne: "fl \<noteq> []" using n by auto
  have "avq_ok (a_add (hd fl) n p a)"
    using r n packed_id_fresh(2) [OF inv ne] by (intro avq_ok_add) auto
  then show ?thesis
    using inv' inv(2) r(1) num ring n
    by (intro packed_relI [where fl = "drop n fl" and out = "out @ [(take n fl, p)]"])
      (simp_all add: a_add_def entries_take)
qed

lemma fill_indirect_packed_total:
  "i + k \<le> length sg \<Longrightarrow> i + k \<le> length table \<Longrightarrow>
   \<exists>table'. fill_indirect_packed k sg out i table = Some table' \<and> length table' = length table"
proof (induction k arbitrary: i table)
  case (Suc k)
  then have "i < length sg" "i < length table" by auto
  moreover have "\<exists>t. fill_indirect_packed k sg out (Suc i) (table[i := d]) = Some t \<and> length t = length table" for d
    using Suc.IH [of "Suc i" "table[i := d]"] Suc.prems by simp
  ultimately show ?case by simp
qed simp

lemma add_indirect_packed_rel:
  assumes rel: "packed_rel vq a" and free: "1 \<le> a_free a"
    and n: "unat n < 2 ^ 16" "unat n \<le> length sg" "unat n \<le> length table"
  shows "\<exists>vq' table'. add_indirect_packed vq sg out n (Some p) table pa = Some (vq', table') \<and>
     length table' = length table \<and> unat (free_head vq) \<notin> set (a_ids a) \<and>
     packed_rel vq' (a_add (unat (free_head vq)) 1 p a)"
proof -
  obtain fl o_list l where r: "packed_inv vq fl o_list" "a_out a = entries o_list" "avq_ok a"
    "packed_ring vq a l" "a_free a = length fl" "a_descs a + length fl = unat (pq_num vq)"
    using rel by (elim packed_relE)
  let ?N = "unat (pq_num vq)" and ?av = "l + a_descs a"
  note B = packed_inv_bounds [OF r(1)]
  have fl: "fl \<noteq> []" "1 \<le> length fl" using free r(5) by auto
  note F = packed_id_fresh [OF r(1,2) fl(1)]
  have ring: "unat (next_avail_idx vq) = ?av mod ?N" "avail_used_flags vq = flags_for (wrapc ?N ?av)"
    using r(4) by (simp_all add: packed_ring_def Let_def)
  obtain t where t: "fill_indirect_packed (unat n) sg out 0 table = Some t" "length t = length table"
    using fill_indirect_packed_total [of 0 "unat n" sg table] n by auto
  let ?bid = "ucast (free_head vq) :: u16"
  have bid: "unat ?bid = hd fl" using B(2,6) F(1) by (subst unat_ucast_32_16) auto
  have n16: "\<not> 2 ^ 16 \<le> n" using n(1) by (simp add: word_le_nat_alt)
  have avN: "?av mod ?N < ?N" using B(1) by simp
  have h1: "unat (next_avail_idx vq + 1) = ?av mod ?N + 1"
    using ring(1) avN B(2) by (subst unat_Suc_small) auto
  let ?w = "pq_num vq \<le> ucast (next_avail_idx vq + 1)"
  have w: "?w \<longleftrightarrow> ?N \<le> ?av mod ?N + 1" using h1 by (simp add: word_le_nat_alt)
  note adv = wrap_advance [OF B(1), of 1 ?av]
  let ?d = "(pq_desc vq ! (?av mod ?N))\<lparr>pd_addr := pa, pd_len := n * 16, pd_id := ?bid,
              pd_flags := VRING_DESC_F_INDIRECT OR avail_used_flags vq\<rparr>"
  let ?vq = "vq\<lparr>pq_desc := (pq_desc vq)[?av mod ?N := ?d],
       next_avail_idx := (if ?w then 0 else next_avail_idx vq + 1),
       avail_wrap_counter := (avail_wrap_counter vq \<noteq> ?w),
       avail_used_flags := (if ?w then avail_used_flags vq XOR AVAIL_USED_MASK else avail_used_flags vq),
       num_free := num_free vq - 1, num_added := num_added vq + 1,
       free_head := ucast (st_next (desc_state vq ! hd fl)),
       desc_state := (desc_state vq)[hd fl := (desc_state vq ! hd fl)\<lparr>st_num := 1, st_data := Some p, st_last := ?bid\<rparr>]\<rparr>"
  have hdN: "hd fl < ?N" using B(6) F(1) by simp
  have run: "add_indirect_packed vq sg out n (Some p) table pa = Some (?vq, t)"
    using n16 t(1) ring(1) avN B(3,4) bid hdN
    by (simp add: add_indirect_packed_def Let_def del: if_split)
  have t1: "last (take (Suc 0) fl) = hd fl" using fl(1) by (cases fl) auto
  have inv': "packed_inv ?vq (drop 1 fl) (o_list @ [(take 1 fl, p)])"
    by (rule packed_inv_consume [OF r(1) _ fl(2), where lst = ?bid])
      (simp_all add: t1 bid snext_def)
  have full: "?av mod ?N + 1 = ?N" if ?w using w that avN by linarith
  have "packed_ring ?vq (a_add (hd fl) 1 p a) l"
  proof (rule packed_ring_add [OF r(4,3) F(2)])
    show "a_descs a + 1 \<le> ?N" using r(6) fl(2) by linarith
    show "unat (next_avail_idx ?vq) = (?av + 1) mod ?N"
      using w adv(1) h1 full B(1) by auto
    show "avail_used_flags ?vq = flags_for (wrapc ?N (?av + 1))"
      using w adv(2) ring(2) flags_for_toggle B(1) by auto
    fix j :: nat assume "j < 1"
    then show "abit (pq_desc ?vq ! ((?av + j) mod ?N)) = wrapc ?N (?av + j) \<and>
        ubit (pq_desc ?vq ! ((?av + j) mod ?N)) = (\<not> wrapc ?N (?av + j)) \<and>
        unat (pd_id (pq_desc ?vq ! ((?av + j) mod ?N))) = hd fl"
      using avN B(3) bid ring(2) flags_for_bits [where f = VRING_DESC_F_INDIRECT and w = "wrapc ?N ?av"]
      by (simp add: small_flags or.commute)
  qed auto
  then have "packed_rel ?vq (a_add (hd fl) 1 p a)"
    using fl(2) by (intro packed_rel_add [OF rel r(1,2) _ _ inv']) auto
  then show ?thesis using run t(2) F by auto
qed

text \<open>
  What a direct add writes: from the next slot on, one descriptor per segment, with the
  wrap state of its lap; nothing else.
\<close>

definition packed_written ::
  "'o virtqueue_packed \<Rightarrow> 'o virtqueue_packed \<Rightarrow> scatterlist list \<Rightarrow> u32 \<Rightarrow> nat \<Rightarrow> bool" where
  "packed_written vq vq' sg out n \<longleftrightarrow>
     (\<exists>w. avail_used_flags vq = flags_for w \<and>
       (\<forall>j < n. pq_desc vq' ! ((unat (next_avail_idx vq) + j) mod unat (pq_num vq)) =
          (pbody (sg ! j) (ucast (free_head vq))
             (pq_desc vq ! ((unat (next_avail_idx vq) + j) mod unat (pq_num vq))))
          \<lparr>pd_flags := pflags out n j (w = (unat (next_avail_idx vq) + j < unat (pq_num vq)))\<rparr>)) \<and>
     (\<forall>m. (\<forall>j < n. m \<noteq> (unat (next_avail_idx vq) + j) mod unat (pq_num vq)) \<longrightarrow>
        pq_desc vq' ! m = pq_desc vq ! m)"

lemma add_direct_packed_rel:
  assumes rel: "packed_rel vq a" and n: "0 < unat n" "unat n \<le> a_free a" "unat n \<le> length sg"
  shows "\<exists>vq'. add_direct_packed vq sg out n (Some p) = Some vq' \<and> unat (free_head vq) \<notin> set (a_ids a) \<and>
     packed_rel vq' (a_add (unat (free_head vq)) (unat n) p a) \<and>
     packed_written vq vq' sg out (unat n)"
proof -
  obtain fl o_list l where r: "packed_inv vq fl o_list" "a_out a = entries o_list" "avq_ok a"
    "packed_ring vq a l" "a_free a = length fl" "a_descs a + length fl = unat (pq_num vq)"
    using rel by (elim packed_relE)
  let ?N = "unat (pq_num vq)" and ?av = "l + a_descs a" and ?n = "unat n"
  note B = packed_inv_bounds [OF r(1)] and P = packed_inv_pool [OF r(1)]
  have nfl: "?n \<le> length fl" using n r(5) by simp
  then have fl: "fl \<noteq> []" using n by auto
  note F = packed_id_fresh [OF r(1,2) fl(1)]
  have ring: "unat (next_avail_idx vq) = ?av mod ?N" "avail_used_flags vq = flags_for (wrapc ?N ?av)"
    using r(4) by (simp_all add: packed_ring_def Let_def)
  let ?bid = "ucast (free_head vq) :: u16"
  have bid: "unat ?bid = hd fl" using B(2,6) F(1) by (subst unat_ucast_32_16) auto
  have avN: "?av mod ?N < ?N" using B(1) by simp
  have hdN: "hd fl < ?N" using B(6) F(1) by simp
  have "\<exists>i' cur' prev' hf ds. add_loop_packed ?n sg out 0 ?bid (next_avail_idx vq) ?bid ?bid 0 vq =
       Some (i', cur', prev', hf, vq\<lparr>pq_desc := ds, avail_used_flags := flags_for (wrapc ?N (?av + ?n))\<rparr>) \<and>
     unat i' = (?av + ?n) mod ?N \<and> length ds = ?N \<and>
     (0 < ?n \<longrightarrow> unat prev' = last (take ?n fl) \<and> unat cur' = snext (desc_state vq) (last (take ?n fl))) \<and>
     hf = (if (0::nat) = 0 \<and> 0 < ?n then pflags out ?n 0 (wrapc ?N ?av) else 0) \<and>
     (\<forall>m. (\<forall>j < ?n. m \<noteq> (?av + j) mod ?N) \<longrightarrow> ds ! m = pq_desc vq ! m) \<and>
     (\<forall>j < ?n. ds ! ((?av + j) mod ?N) =
        (pbody (sg ! (0 + j)) ?bid (pq_desc vq ! ((?av + j) mod ?N)))\<lparr>pd_flags :=
           if 0 + j = 0 then pd_flags (pq_desc vq ! ((?av + j) mod ?N))
           else pflags out (0 + ?n) (0 + j) (wrapc ?N (?av + j))\<rparr>)"
    by (rule add_loop_packed_spec)
      (use B ring nfl pool_free [OF P] bid n(3) in auto)
  then obtain i' cur' prev' hf ds where L:
     "add_loop_packed ?n sg out 0 ?bid (next_avail_idx vq) ?bid ?bid 0 vq =
       Some (i', cur', prev', hf, vq\<lparr>pq_desc := ds, avail_used_flags := flags_for (wrapc ?N (?av + ?n))\<rparr>)"
     "unat i' = (?av + ?n) mod ?N" "length ds = ?N"
     "0 < ?n \<longrightarrow> unat prev' = last (take ?n fl) \<and> unat cur' = snext (desc_state vq) (last (take ?n fl))"
     "hf = (if (0::nat) = 0 \<and> 0 < ?n then pflags out ?n 0 (wrapc ?N ?av) else 0)"
     "\<forall>m. (\<forall>j < ?n. m \<noteq> (?av + j) mod ?N) \<longrightarrow> ds ! m = pq_desc vq ! m"
     "\<forall>j < ?n. ds ! ((?av + j) mod ?N) =
        (pbody (sg ! (0 + j)) ?bid (pq_desc vq ! ((?av + j) mod ?N)))\<lparr>pd_flags :=
           if 0 + j = 0 then pd_flags (pq_desc vq ! ((?av + j) mod ?N))
           else pflags out (0 + ?n) (0 + j) (wrapc ?N (?av + j))\<rparr>"
    by - (elim exE conjE, rule that, assumption+)
  let ?ds = "ds[?av mod ?N := (ds ! (?av mod ?N))\<lparr>pd_flags := hf\<rparr>]"
  let ?vq = "vq\<lparr>pq_desc := ?ds, avail_used_flags := flags_for (wrapc ?N (?av + ?n)),
       avail_wrap_counter := (avail_wrap_counter vq \<noteq> (i' < next_avail_idx vq)),
       num_free := num_free vq - n, next_avail_idx := i', free_head := ucast cur',
       desc_state := (desc_state vq)[hd fl := (desc_state vq ! hd fl)\<lparr>st_num := ucast n, st_data := Some p, st_last := prev'\<rparr>],
       num_added := num_added vq + n\<rparr>"
  have run: "add_direct_packed vq sg out n (Some p) = Some ?vq"
    using L(1,3) avN B(4) hdN bid ring(1) by (simp add: add_direct_packed_def Let_def)
  have un: "word_of_nat ?n = (ucast n :: u16)" by (simp add: unsigned_def flip: of_nat_unat) 
  have inv': "packed_inv ?vq (drop ?n fl) (o_list @ [(take ?n fl, p)])"
    by (rule packed_inv_consume [OF r(1) n(1) nfl, where lst = prev'])
      (use L(3,4) n un B(3) in simp_all)
  have seg: "?ds ! ((?av + j) mod ?N) = (pbody (sg ! j) ?bid (pq_desc vq ! ((?av + j) mod ?N)))\<lparr>pd_flags :=
           pflags out ?n j (wrapc ?N (?av + j))\<rparr>" if j: "j < ?n" for j
  proof (cases "j = 0")
    case True
    then show ?thesis using L(3,5) L(7) [rule_format, of 0] n avN by simp
  next
    case False
    then have "(?av + j) mod ?N \<noteq> ?av mod ?N"
      using slot_inj [of "?av + j" ?N ?av ?av] j nfl B(7) by auto
    then show ?thesis using L(7) j False by simp
  qed
  have "packed_ring ?vq (a_add (hd fl) ?n p a) l"
  proof (rule packed_ring_add [OF r(4,3) F(2) n(1)])
    show "a_descs a + ?n \<le> ?N" using r(6) nfl by linarith
    fix m assume m: "\<forall>j < ?n. m \<noteq> (?av + j) mod ?N"
    then have "m \<noteq> ?av mod ?N" using n(1) by force
    then show "pq_desc ?vq ! m = pq_desc vq ! m" using L(6) m by simp
  next
    fix j assume j: "j < ?n"
    show "abit (pq_desc ?vq ! ((?av + j) mod ?N)) = wrapc ?N (?av + j) \<and>
        ubit (pq_desc ?vq ! ((?av + j) mod ?N)) = (\<not> wrapc ?N (?av + j)) \<and>
        unat (pd_id (pq_desc ?vq ! ((?av + j) mod ?N))) = hd fl"
      using seg [OF j] bid by (simp add: pflags_bits pbody_def)
  qed (use L(2) in auto)
  then have "packed_rel ?vq (a_add (hd fl) ?n p a)"
    using n nfl by (intro packed_rel_add [OF rel r(1,2) _ _ inv']) auto
  moreover have "packed_written vq ?vq sg out ?n"
    unfolding packed_written_def ring(1) mod_add_left_eq
  proof (intro conjI exI [of _ "wrapc ?N ?av"] allI impI)
    fix j assume j: "j < ?n"
    then have "wrapc ?N (?av + j) = (wrapc ?N ?av = (?av mod ?N + j < ?N))"
      using wrap_advance(2) [of ?N j ?av] B(1) r(6) nfl by auto
    then show "pq_desc ?vq ! ((?av + j) mod ?N) = (pbody (sg ! j) ?bid (pq_desc vq ! ((?av + j) mod ?N)))
        \<lparr>pd_flags := pflags out ?n j (wrapc ?N ?av = (?av mod ?N + j < ?N))\<rparr>"
      using seg [OF j] by simp
  next
    fix m assume m: "\<forall>j < ?n. m \<noteq> (?av + j) mod ?N"
    then have "m \<noteq> ?av mod ?N" using n(1) by force
    then show "pq_desc ?vq ! m = pq_desc vq ! m" using L(6) m by simp
  qed (rule ring(2))
  ultimately show ?thesis using run F by auto
qed

lemma packed_add_accepts:
  assumes rel: "packed_rel vq a" and n: "0 < unat out + unat inn" "unat out + unat inn < 2 ^ 16"
    "unat out + unat inn \<le> length sg"
    and page: "\<forall>t. page = Some t \<longrightarrow> unat out + unat inn \<le> length t"
    and free: "descs_needed page (unat out + unat inn) \<le> a_free a"
  shows "\<exists>vq' page'. virtqueue_add_buf_packed vq sg out inn (Some p) page pa = Some (0, vq', page') \<and>
     map_option length page' = map_option length page \<and> unat (free_head vq) \<notin> set (a_ids a) \<and>
     packed_rel vq' (a_add (unat (free_head vq)) (descs_needed page (unat out + unat inn)) p a)"
proof -
  let ?n = "unat out + unat inn"
  obtain fl o_list where r: "packed_inv vq fl o_list" "a_free a = length fl"
    using rel by (elim packed_relE)
  note B = packed_inv_bounds [OF r(1)]
  have un: "unat (out + inn) = ?n" using n by (simp add: unat_plus_small)
  have n0: "out + inn \<noteq> 0" using un n(1) by (metis less_not_refl2 unat_0)
  have "unat (ucast (free_head vq) :: u16) = unat (free_head vq)"
    using B(2,6) by (intro unat_ucast_32_16) simp
  then have bug: "\<not> pq_num vq \<le> ucast (ucast (free_head vq) :: u16)"
    using B(6) by (simp add: word_le_nat_alt)
  show ?thesis
  proof (cases page)
    case (Some t)
    then have one: "1 \<le> a_free a" using free by (simp add: descs_needed_def)
    then have g: "0 < num_free vq" using B(5) r(2) by (auto simp: word_less_nat_alt)
    obtain vq' t' where "add_indirect_packed vq sg out (out + inn) (Some p) t pa = Some (vq', t')"
      "length t' = length t" "unat (free_head vq) \<notin> set (a_ids a)"
      "packed_rel vq' (a_add (unat (free_head vq)) 1 p a)"
      using add_indirect_packed_rel [OF rel one, of "out + inn" sg t out p pa] un n page Some by auto
    then show ?thesis using n0 bug g Some
      by (simp add: virtqueue_add_buf_packed_def Let_def descs_needed_def VQ_ADD_BUFFER_SUCCESS_def)
  next
    case None
    then have nf: "?n \<le> a_free a" using free by (simp add: descs_needed_def)
    then have g: "\<not> num_free vq < out + inn" using B(5) r(2) un by (simp add: word_less_nat_alt)
    obtain vq' where "add_direct_packed vq sg out (out + inn) (Some p) = Some vq'"
      "unat (free_head vq) \<notin> set (a_ids a)" "packed_rel vq' (a_add (unat (free_head vq)) ?n p a)"
      using add_direct_packed_rel [OF rel, of "out + inn" sg out p] un n nf by auto
    then show ?thesis using n0 bug g None
      by (simp add: virtqueue_add_buf_packed_def Let_def descs_needed_def VQ_ADD_BUFFER_SUCCESS_def)
  qed
qed

lemma packed_add_refuses:
  assumes rel: "packed_rel vq a" and n: "0 < unat out + unat inn" "unat out + unat inn < 2 ^ 32"
    and full: "a_free a < descs_needed page (unat out + unat inn)"
  shows "virtqueue_add_buf_packed vq sg out inn opq page pa = Some (- ENOSPC, vq, page)"
proof -
  obtain fl o_list where r: "packed_inv vq fl o_list" "a_free a = length fl"
    using rel by (elim packed_relE)
  note B = packed_inv_bounds [OF r(1)]
  have un: "unat (out + inn) = unat out + unat inn" using n by (simp add: unat_plus_small)
  have n0: "out + inn \<noteq> 0" using un n(1) by (metis less_not_refl2 unat_0)
  have "unat (ucast (free_head vq) :: u16) = unat (free_head vq)"
    using B(2,6) by (intro unat_ucast_32_16) simp
  then have bug: "\<not> pq_num vq \<le> ucast (ucast (free_head vq) :: u16)"
    using B(6) by (simp add: word_le_nat_alt)
  have "\<not> (page \<noteq> None \<and> 0 < num_free vq)" "num_free vq < out + inn"
    using full n un B(5) r(2) by (auto simp: word_less_nat_alt descs_needed_def split: if_splits)
  then show ?thesis using n0 bug by (auto simp: virtqueue_add_buf_packed_def Let_def simp del: not_None_eq)
qed

subsection \<open>Fetching a buffer\<close>

lemma packed_more_used:
  assumes "packed_rel vq a"
  shows "more_used_packed vq = Some (a_done a \<noteq> [])"
proof -
  obtain fl out l where r: "packed_inv vq fl out" "avq_ok a" "packed_ring vq a l"
    "a_descs a + length fl = unat (pq_num vq)"
    using assms by (elim packed_relE)
  let ?N = "unat (pq_num vq)" and ?av = "l + a_descs a" and ?d = "pq_desc vq ! (l mod unat (pq_num vq))"
  note B = packed_inv_bounds [OF r(1)]
  have R: "unat (last_used_idx vq) = l mod ?N" "used_wrap_counter vq = wrapc ?N l"
    "\<And>k. l \<le> k \<Longrightarrow> k < ?av \<Longrightarrow> abit (pq_desc vq ! (k mod ?N)) = wrapc ?N k"
    "\<And>k. ?av \<le> k \<Longrightarrow> k < l + ?N \<Longrightarrow> abit (pq_desc vq ! (k mod ?N)) = (\<not> wrapc ?N k)"
    "\<And>k. l + done_descs a \<le> k \<Longrightarrow> k < ?av \<Longrightarrow> ubit (pq_desc vq ! (k mod ?N)) = (\<not> wrapc ?N k)"
    "done_at ?N (pq_desc vq) (n_of a) l (a_done a)"
    using r(3) by (simp_all add: packed_ring_def Let_def)
  have "l mod ?N < length (pq_desc vq)" using B(1,3) by simp
  then have m: "more_used_packed vq = Some (abit ?d = ubit ?d \<and> ubit ?d = wrapc ?N l)"
    using R(1,2) by (simp add: more_used_packed_def is_used_desc_packed_bits)
  show ?thesis
  proof (cases "a_done a")
    case Nil
    then have z: "done_descs a = 0" by (simp add: done_descs_def)
    show ?thesis
    proof (cases "l < ?av")
      case True
      then show ?thesis using m R(5) [of l] z Nil by simp
    next
      case False
      then show ?thesis using m R(4) [of l] B(1) Nil by auto
    qed
  next
    case (Cons x ds)
    obtain bid len where x: "x = (bid, len)" by (cases x)
    have "bid \<in> set (a_ids a)" using r(2) Cons x by (auto simp: avq_ok_def)
    then have "0 < n_of a bid" by (rule n_of_pos [OF r(2)])
    then have "0 < done_descs a" using Cons x by (simp add: done_descs_def)
    then have "l < ?av" using descs_split_le(1) [OF r(2)] by linarith
    then show ?thesis using m R(3) [of l] R(6) Cons x by simp
  qed
qed

lemma packed_get_empty:
  "packed_rel vq a \<Longrightarrow> a_done a = [] \<Longrightarrow> virtqueue_get_buf_packed vq = Some (None, vq)"
  by (simp add: virtqueue_get_buf_packed_def packed_more_used)

lemma n_of_fetch:
  "a_done a = (bid, len) # ds \<Longrightarrow> b \<noteq> bid \<Longrightarrow> n_of (a_fetch a) b = n_of a b"
  by (simp add: n_of_def a_lookup_def a_fetch_def a_remove_def map_of_filter_neq)

lemma packed_ring_fetch:
  assumes ring: "packed_ring vq a l" and ok: "avq_ok a" and dn: "a_done a = (bid, len) # ds"
    and lk: "a_lookup a bid = Some (n, p)" and N: "0 < unat (pq_num vq)"
    and frame: "pq_num vq' = pq_num vq" "pq_desc vq' = pq_desc vq" "next_avail_idx vq' = next_avail_idx vq"
      "avail_used_flags vq' = avail_used_flags vq"
    and lu: "unat (last_used_idx vq') = (l + n) mod unat (pq_num vq)"
      "used_wrap_counter vq' = wrapc (unat (pq_num vq)) (l + n)"
  shows "packed_ring vq' (a_fetch a) (l + n)"
proof -
  let ?N = "unat (pq_num vq)" and ?av = "l + a_descs a" and ?d = "l + done_descs a" and ?ds = "pq_desc vq"
  let ?a = "a_fetch a"
  have R: "unat (next_avail_idx vq) = ?av mod ?N" "avail_used_flags vq = flags_for (wrapc ?N ?av)"
    "\<And>k. l \<le> k \<Longrightarrow> k < ?av \<Longrightarrow> abit (?ds ! (k mod ?N)) = wrapc ?N k"
    "\<And>k. ?av \<le> k \<Longrightarrow> k < l + ?N \<Longrightarrow> abit (?ds ! (k mod ?N)) = (\<not> wrapc ?N k)"
    "\<And>k. ?d \<le> k \<Longrightarrow> k < ?av \<Longrightarrow> ubit (?ds ! (k mod ?N)) = (\<not> wrapc ?N k)"
    "done_at ?N ?ds (n_of a) l (a_done a)" "avail_at ?N ?ds (n_of a) (?av - avail_descs a) (a_avail a)"
    using ring by (simp_all add: packed_ring_def Let_def)
  have nb: "n_of a bid = n" using lk by (simp add: n_of_def)
  have ad: "a_descs ?a + n = a_descs a" by (rule a_descs_fetch [OF ok dn lk])
  have dist: "bid \<notin> fst ` set ds" "bid \<notin> set (a_avail a)" using ok dn by (auto simp: avq_ok_def)
  have dd: "done_descs ?a + n = done_descs a"
  proof -
    have "sum_list (map (n_of ?a \<circ> fst) ds) = sum_list (map (n_of a \<circ> fst) ds)"
      using dist by (intro arg_cong [of _ _ sum_list] map_cong) (force intro!: n_of_fetch [OF dn])+
    then show ?thesis using dn nb by (simp add: done_descs_def a_fetch_def)
  qed
  have av: "avail_descs ?a = avail_descs a"
  proof -
    have "sum_list (map (n_of ?a) (a_avail a)) = sum_list (map (n_of a) (a_avail a))"
      using dist by (intro arg_cong [of _ _ sum_list] map_cong) (force intro!: n_of_fetch [OF dn])+
    then show ?thesis by (simp add: avail_descs_def a_fetch_def)
  qed
  have A: "l + n + a_descs ?a = ?av" "l + n + done_descs ?a = ?d" using ad dd by auto
  have 2: "abit (?ds ! (k mod ?N)) = (\<not> wrapc ?N k)" if k: "?av \<le> k" "k < l + n + ?N" for k
  proof (cases "k < l + ?N")
    case False
    then have e: "k = (k - ?N) + ?N" by simp
    have "l \<le> k - ?N" "k - ?N < ?av" using False k ad by auto
    then have "abit (?ds ! ((k - ?N) mod ?N)) = wrapc ?N (k - ?N)" by (rule R(3))
    moreover have "(k - ?N) mod ?N = k mod ?N" by (metis e mod_add_self2)
    ultimately show ?thesis using wrapc_lap [OF N, of "k - ?N"] e by metis
  qed (use k R(4) in simp)
  have 4: "done_at ?N ?ds (n_of ?a) (l + n) ds"
  proof (rule done_at_cong [of _ ?ds "n_of a"])
    show "done_at ?N ?ds (n_of a) (l + n) ds" using R(6) dn nb by simp
    fix b assume b: "b \<in> fst ` set ds"
    then have "b \<in> set (a_ids a)" using ok dn by (auto simp: avq_ok_def)
    then show "n_of ?a b = n_of a b \<and> 0 < n_of a b"
      using b dist n_of_fetch [OF dn, of b] n_of_pos [OF ok, of b] by auto
  qed simp
  have 5: "avail_at ?N ?ds (n_of ?a) (?av - avail_descs a) (a_avail a)"
  proof (rule avail_at_cong [OF R(7)])
    fix b assume "b \<in> set (a_avail a)"
    then have "b \<noteq> bid" using dist by auto
    then show "n_of ?a b = n_of a b" by (rule n_of_fetch [OF dn])
  qed simp
  have f: "a_done ?a = ds" "a_avail ?a = a_avail a" using dn by (simp_all add: a_fetch_def)
  show ?thesis
    unfolding packed_ring_def Let_def frame A av f
    using lu R(1,2) R(3) R(5) 2 4 5 by simp
qed

lemma packed_rel_driver [simp]: "packed_rel (set_driver_event vq v) a = packed_rel vq a"
  by (simp add: set_driver_event_def packed_rel_def packed_owned_def packed_inv_def packed_ring_def)

lemma packed_get_next:
  assumes rel: "packed_rel vq a" and dn: "a_done a = (bid, len) # ds"
    and lk: "a_lookup a bid = Some (n, p)"
  shows "\<exists>vq'. virtqueue_get_buf_packed vq = Some (Some (Some p, len), vq') \<and> packed_rel vq' (a_fetch a)"
proof -
  obtain fl out l where r: "packed_inv vq fl out" "a_out a = entries out" "a_size a = unat (pq_num vq)"
    "avq_ok a" "packed_ring vq a l" "a_descs a + length fl = unat (pq_num vq)"
    using rel by (elim packed_relE)
  let ?N = "unat (pq_num vq)" and ?d = "pq_desc vq ! (l mod unat (pq_num vq))"
  note B = packed_inv_bounds [OF r(1)]
  have "(bid, n, p) \<in> set (entries out)" using lk r(2) by (auto simp: a_lookup_def dest: map_of_SomeD)
  from entries_mem [OF this] obtain us c vs where o: "out = us @ (c, p) # vs" "hd c = bid" "length c = n"
    by auto
  note inv = r(1) [unfolded o(1)]
  note P = packed_inv_pool [OF inv]
  note H = pool_head [OF P]
  have lu: "unat (last_used_idx vq) = l mod ?N" "used_wrap_counter vq = wrapc ?N l"
    and da: "done_at ?N (pq_desc vq) (n_of a) l (a_done a)"
    using r(5) by (simp_all add: packed_ring_def Let_def)
  have lN: "l mod ?N < ?N" using B(1) by simp
  have d: "unat (pd_id ?d) = hd c" "pd_len ?d = len" using da dn o(2) by simp_all
  have bug: "\<not> pq_num vq \<le> ucast (pd_id ?d)" using d(1) H(2) by (simp add: word_le_nat_alt)
  have data: "st_data (desc_state vq ! hd c) = Some p" using H(1) by (simp add: sdata_def)
  obtain sts nf where v1: "detach_buf_packed vq (ucast (pd_id ?d)) =
        Some (vq\<lparr>desc_state := sts, free_head := ucast (pd_id ?d), num_free := nf\<rparr>)"
      "packed_inv (vq\<lparr>desc_state := sts, free_head := ucast (pd_id ?d), num_free := nf\<rparr>) (c @ fl) (us @ vs)"
      "unat (st_num (sts ! hd c)) = length c"
    using detach_buf_packed_inv [OF inv, of "ucast (pd_id ?d)"] d(1) by auto
  let ?vq1 = "vq\<lparr>desc_state := sts, free_head := ucast (pd_id ?d), num_free := nf\<rparr>"
  have stl: "length sts = ?N" using packed_inv_bounds(4) [OF v1(2)] by simp
  have nN: "n \<le> ?N" using pool_length [OF P] o(3) unfolding entries_sum by simp
  let ?lu = "last_used_idx vq + st_num (sts ! hd c)"
  have ulu: "unat ?lu = l mod ?N + n"
    using lu(1) v1(3) o(3) lN nN B(2) by (subst unat_plus_small) auto
  let ?w = "pq_num vq \<le> ucast ?lu"
  have w: "?w \<longleftrightarrow> ?N \<le> l mod ?N + n" using ulu by (simp add: word_le_nat_alt)
  note adv = wrap_advance [OF B(1) nN, of l]
  let ?lu' = "if ?w then ?lu - ucast (pq_num vq) else ?lu"
  let ?vq2 = "?vq1\<lparr>last_used_idx := ?lu', used_wrap_counter := (used_wrap_counter vq \<noteq> ?w)\<rparr>"
  have un: "unat (ucast (pq_num vq) :: u16) = ?N" using B(2) by (intro unat_ucast_32_16) simp
  have lu': "unat ?lu' = (l + n) mod ?N"
  proof (cases ?w)
    case True
    then have "(ucast (pq_num vq) :: u16) \<le> ?lu" using w ulu un by (simp add: word_le_nat_alt)
    then have "unat (?lu - ucast (pq_num vq)) = l mod ?N + n - ?N" by (simp add: unat_minus_le ulu un)
    then show ?thesis using True w adv(1) by simp
  qed (use w adv(1) ulu in simp)
  have ring2: "packed_ring ?vq2 (a_fetch a) (l + n)"
    by (rule packed_ring_fetch [OF r(5,4) dn lk B(1)]) (use lu' lu(2) adv(2) w in simp_all)
  have inv2: "packed_inv ?vq2 (c @ fl) (us @ vs)" using v1(2) by (simp add: packed_inv_def)
  have "a_out (a_fetch a) = entries (us @ vs)"
    using pool_entries_remove [OF P] r(2) o dn by (simp add: a_fetch_def)
  moreover have "avq_ok (a_fetch a)" using r(4) dn by (intro avq_ok_fetch) auto
  ultimately have rel2: "packed_rel ?vq2 (a_fetch a)"
    using r(3) by (intro packed_relI [OF _ inv2 _ _ ring2]) (simp_all add: a_fetch_def)
  let ?vq3 = "if event_flags_shadow vq = VRING_PACKED_EVENT_FLAG_DESC
      then set_driver_event ?vq2 (off_wrap ?lu' (used_wrap_counter vq \<noteq> ?w)) else ?vq2"
  have "virtqueue_get_buf_packed vq = Some (Some (Some p, len), ?vq3)"
    using packed_more_used [OF rel] dn lu(1) lN B(3,4) bug d data v1(1) stl H(2)
    by (simp add: virtqueue_get_buf_packed_def Let_def del: if_split)
  moreover have "packed_rel ?vq3 (a_fetch a)" using rel2 by simp
  ultimately show ?thesis by blast
qed

subsection \<open>The device\<close>

text \<open>
  The device returns a buffer by writing its id, the length and the flags, with both bits
  equal to its wrap counter, into the slot after the buffers it has returned before.
\<close>

definition packed_device_use ::
  "'o avq \<Rightarrow> nat \<Rightarrow> u32 \<Rightarrow> 'o virtqueue_packed \<Rightarrow> 'o virtqueue_packed" where
  "packed_device_use a bid len vq =
     (let n = unat (pq_num vq); i = unat (last_used_idx vq) + done_descs a;
          w = (used_wrap_counter vq \<noteq> (n \<le> i))
      in vq\<lparr>pq_desc := (pq_desc vq)[i mod n := (pq_desc vq ! (i mod n))\<lparr>
              pd_id := word_of_nat bid, pd_len := len,
              pd_flags := (if w then AVAIL_USED_MASK else 0)\<rparr>]\<rparr>)"

lemma used_flags_bits:
  "abit (d\<lparr>pd_flags := if w then AVAIL_USED_MASK else 0\<rparr>) = w"
  "ubit (d\<lparr>pd_flags := if w then AVAIL_USED_MASK else 0\<rparr>) = w"
  by (simp_all add: abit_def ubit_def AVAIL_USED_MASK_def packed_flag_defs)

lemma packed_take_rel:
  assumes rel: "packed_rel vq a" and ne: "a_avail a \<noteq> []"
  shows "packed_rel vq (a_take a)"
proof -
  obtain fl out l where r: "packed_inv vq fl out" "a_out a = entries out" "a_size a = unat (pq_num vq)"
    "avq_ok a" "packed_ring vq a l"
    using rel by (elim packed_relE)
  obtain x av where av: "a_avail a = x # av" using ne by (cases "a_avail a") auto
  have n: "n_of (a_take a) = n_of a" by (simp add: n_of_def a_lookup_def a_take_def fun_eq_iff)
  have d: "a_descs (a_take a) = a_descs a" "done_descs (a_take a) = done_descs a"
    "avail_descs a = n_of a x + avail_descs (a_take a)"
    using av by (simp_all add: a_descs_def done_descs_def avail_descs_def n) (simp_all add: a_take_def)
  have "l + a_descs a - avail_descs (a_take a) = l + a_descs a - avail_descs a + n_of a x"
    using descs_split_le(1) [OF r(4)] d(3) by linarith
  then have "packed_ring vq (a_take a) l"
    using r(5) av unfolding packed_ring_def Let_def d(1,2) n by (simp add: a_take_def)
  then show ?thesis using r av avq_ok_take [OF r(4)]
    by (intro packed_relI [OF _ r(1)]) (auto simp: a_take_def)
qed

lemma packed_use_rel:
  assumes rel: "packed_rel vq a" and held: "a_held a bid"
  shows "packed_rel (packed_device_use a bid len vq) (a_complete bid len a)"
proof -
  obtain fl out l where r: "packed_inv vq fl out" "a_out a = entries out" "a_size a = unat (pq_num vq)"
    "avq_ok a" "packed_ring vq a l" "a_descs a + length fl = unat (pq_num vq)"
    using rel by (elim packed_relE)
  let ?N = "unat (pq_num vq)" and ?av = "l + a_descs a" and ?D = "l + done_descs a" and ?ds = "pq_desc vq"
  let ?a = "a_complete bid len a"
  note B = packed_inv_bounds [OF r(1)]
  have ok: "avq_ok ?a" using r(4) held by (rule avq_ok_complete)
  have R: "unat (last_used_idx vq) = l mod ?N" "used_wrap_counter vq = wrapc ?N l"
    "unat (next_avail_idx vq) = ?av mod ?N" "avail_used_flags vq = flags_for (wrapc ?N ?av)"
    "\<And>k. l \<le> k \<Longrightarrow> k < ?av \<Longrightarrow> abit (?ds ! (k mod ?N)) = wrapc ?N k"
    "\<And>k. ?av \<le> k \<Longrightarrow> k < l + ?N \<Longrightarrow> abit (?ds ! (k mod ?N)) = (\<not> wrapc ?N k)"
    "\<And>k. ?D \<le> k \<Longrightarrow> k < ?av \<Longrightarrow> ubit (?ds ! (k mod ?N)) = (\<not> wrapc ?N k)"
    "done_at ?N ?ds (n_of a) l (a_done a)" "avail_at ?N ?ds (n_of a) (?av - avail_descs a) (a_avail a)"
    using r(5) by (simp_all add: packed_ring_def Let_def)
  have bin: "bid \<in> set (a_ids a)" using held by (simp add: a_held_def)
  have np: "0 < n_of a bid" by (rule n_of_pos [OF r(4) bin])
  note le = descs_split_le(2) [OF r(4) held]
  obtain x where x: "x \<in> set out" "bid = hd (fst x)"
    using bin r(2) by (auto simp: a_ids_def entries_def)
  then have "bid \<in> set (fst x)" using pool_nonempty [OF packed_inv_pool [OF r(1)] x(1)] by simp
  then have "bid < ?N" using x(1) by (intro pool_bound [OF packed_inv_pool [OF r(1)]]) auto
  then have ub: "unat (word_of_nat bid :: u16) = bid" using B(2) by (intro unat_of_nat_small) simp
  have dN: "done_descs a \<le> ?N" using le r(6) by linarith
  note adv = wrap_advance(2) [OF B(1) dN, of l]
  have slot: "(l mod ?N + done_descs a) mod ?N = ?D mod ?N" by (simp add: mod_add_left_eq)
  let ?d = "(?ds ! (?D mod ?N))\<lparr>pd_id := word_of_nat bid, pd_len := len,
              pd_flags := (if wrapc ?N ?D then AVAIL_USED_MASK else 0)\<rparr>"
  let ?ds' = "?ds[?D mod ?N := ?d]" and ?vq = "packed_device_use a bid len vq"
  have vq: "?vq = vq\<lparr>pq_desc := ?ds'\<rparr>"
    by (simp add: packed_device_use_def Let_def R(1,2) slot adv)
  have DN: "?D mod ?N < length ?ds" using B(1,3) by simp
  have same: "?ds' ! (k mod ?N) = ?ds ! (k mod ?N)" if "l \<le> k" "k < l + ?N" "k \<noteq> ?D" for k
  proof -
    have "k mod ?N \<noteq> ?D mod ?N" using slot_inj [of k ?N ?D l] that le r(6) np by auto
    then show ?thesis by simp
  qed
  have at: "abit (?ds' ! (?D mod ?N)) = wrapc ?N ?D" "ubit (?ds' ! (?D mod ?N)) = wrapc ?N ?D"
    "unat (pd_id (?ds' ! (?D mod ?N))) = bid" "pd_len (?ds' ! (?D mod ?N)) = len"
    using DN ub used_flags_bits by (simp_all del: if_split)
  have n: "n_of ?a = n_of a" by (simp add: n_of_def a_lookup_def a_complete_def fun_eq_iff)
  have d: "a_descs ?a = a_descs a" "done_descs ?a = done_descs a + n_of a bid"
    "avail_descs ?a = avail_descs a" "a_avail ?a = a_avail a" "a_done ?a = a_done a @ [(bid, len)]"
    by (simp_all add: a_descs_def done_descs_def avail_descs_def n) (simp_all add: a_complete_def)
  have 1: "abit (?ds' ! (k mod ?N)) = wrapc ?N k" if "l \<le> k" "k < ?av" for k
    using same [of k] R(5) [of k] that at(1) r(6) by (cases "k = ?D") auto
  have 2: "abit (?ds' ! (k mod ?N)) = (\<not> wrapc ?N k)" if "?av \<le> k" "k < l + ?N" for k
    using same [of k] R(6) [of k] that le np by auto
  have 3: "ubit (?ds' ! (k mod ?N)) = (\<not> wrapc ?N k)" if "?D + n_of a bid \<le> k" "k < ?av" for k
    using same [of k] R(7) [of k] that np r(6) by auto
  have "done_at ?N ?ds' (n_of a) l (a_done a)"
  proof (rule done_at_cong [OF R(8)])
    fix b assume "b \<in> fst ` set (a_done a)"
    then show "n_of a b = n_of a b \<and> 0 < n_of a b" using r(4) n_of_pos [OF r(4)] by (auto simp: avq_ok_def)
  next
    fix k assume "l \<le> k" "k < l + sum_list (map (n_of a \<circ> fst) (a_done a))"
    then show "?ds' ! (k mod ?N) = ?ds ! (k mod ?N)"
      using dN by (intro same) (auto simp: done_descs_def)
  qed
  moreover have "l + sum_list (map (n_of a \<circ> fst) (a_done a)) = ?D" by (simp add: done_descs_def)
  ultimately have 4: "done_at ?N ?ds' (n_of a) l (a_done a @ [(bid, len)])"
    using at by (simp add: done_at_append)
  have 5: "avail_at ?N ?ds' (n_of a) (?av - avail_descs a) (a_avail a)"
  proof (rule avail_at_cong [OF R(9)])
    fix k assume "?av - avail_descs a \<le> k" "k < ?av - avail_descs a + sum_list (map (n_of a) (a_avail a))"
    then have "?D < k" "k < ?av" using le np by (auto simp: avail_descs_def)
    then show "?ds' ! (k mod ?N) = ?ds ! (k mod ?N)" using r(6) by (intro same) auto
  qed simp
  have "packed_ring ?vq ?a l"
    unfolding packed_ring_def Let_def d n vq using R(1-4) 1 2 3 4 5 by (simp add: add.assoc)
  moreover have "packed_inv ?vq fl out" using r(1) by (simp add: vq packed_inv_def)
  ultimately show ?thesis
    using ok r(2,3) by (intro packed_relI [where fl = fl and out = out]) (simp_all add: a_complete_def vq)
qed

interpretation pq: virtqueue virtqueue_add_buf_packed virtqueue_get_buf_packed
  virtqueue_has_buf_packed packed_device_use "\<lambda>q. unat (free_head q)" length packed_rel
proof unfold_locales
  fix q :: "'a virtqueue_packed" and a :: "'a avq"
  assume rel: "packed_rel q a"
  show "avq_ok a" using rel by (simp add: packed_rel_def)
  show "virtqueue_has_buf_packed q = Some (a_done a \<noteq> [])"
    using packed_more_used [OF rel] by (simp add: virtqueue_has_buf_packed_def)
qed (auto intro: packed_add_accepts packed_add_refuses packed_take_rel packed_use_rel packed_get_empty
      packed_get_next)

subsection \<open>Interrupt control\<close>

lemma bit_32768: "m < 16 \<Longrightarrow> bit (32768 :: u16) m = (m = 15)" "bit (32768 :: int) m = (m = 15)"
  using bit_exp_iff [where 'a = u16, of 15 m] bit_exp_iff [where 'a = int, of 15 m] by simp_all

lemma off_wrap_fields:
  assumes "unat idx < 2 ^ 15"
  shows "off_wrap idx w AND NOT (push_bit VRING_PACKED_EVENT_F_WRAP_CTR 1) = idx"
    and "(drop_bit VRING_PACKED_EVENT_F_WRAP_CTR (off_wrap idx w) \<noteq> 0) = w"
proof -
  have "take_bit 15 (unat idx) = unat idx" using assms by (rule take_bit_nat_eq_self)
  then have "\<not> bit (unat idx) m" if "15 \<le> m" for m using that by (metis bit_take_bit_iff leD)
  then have hi: "\<not> bit idx m" if "15 \<le> m" for m using that by (simp add: bit_unsigned_iff)
  show "off_wrap idx w AND NOT (push_bit VRING_PACKED_EVENT_F_WRAP_CTR 1) = idx"
  proof (rule bit_word_eqI)
    fix m assume m: "m < LENGTH(16)"
    show "bit (off_wrap idx w AND NOT (push_bit VRING_PACKED_EVENT_F_WRAP_CTR 1)) m = bit idx m"
      using hi [of m] m
      by (cases "m < 15") (auto simp: off_wrap_def packed_flag_defs bit_simps bit_32768)
  qed
  have "drop_bit 15 idx = 0"
    by (rule bit_word_eqI) (use hi in \<open>simp add: bit_simps\<close>)
  then show "(drop_bit VRING_PACKED_EVENT_F_WRAP_CTR (off_wrap idx w) \<noteq> 0) = w"
    by (simp add: off_wrap_def packed_flag_defs drop_bit_or)
qed

lemma packed_rel_flags [simp]:
  "packed_rel (vq\<lparr>event_flags_shadow := f, pq_driver := e\<rparr>) a = packed_rel vq a"
  "packed_rel (vq\<lparr>num_added := m\<rparr>) a = packed_rel vq a"
  by (simp_all add: packed_rel_def packed_owned_def packed_inv_def packed_ring_def)

lemma reenable_events_rel [simp]: "packed_rel (reenable_events ev vq) a = packed_rel vq a"
  by (simp add: reenable_events_def Let_def)

lemma reenable_events_frame [simp]:
  "last_used_idx (reenable_events ev vq) = last_used_idx vq"
  "used_wrap_counter (reenable_events ev vq) = used_wrap_counter vq"
  "last_used_idx (set_driver_event vq v) = last_used_idx vq"
  "used_wrap_counter (set_driver_event vq v) = used_wrap_counter vq"
  by (simp_all add: reenable_events_def set_driver_event_def Let_def)

lemma packed_enable_rel:
  assumes rel: "packed_rel vq a"
  shows "\<exists>vq'. virtqueue_enable_cb_packed ev vq = Some (a_done a = [], vq') \<and> packed_rel vq' a"
proof -
  obtain fl out l where r: "packed_inv vq fl out" "packed_ring vq a l"
    using rel by (elim packed_relE)
  note B = packed_inv_bounds [OF r(1)]
  have "unat (last_used_idx vq) = l mod unat (pq_num vq)"
    using r(2) by (simp add: packed_ring_def Let_def)
  then have lu: "unat (last_used_idx vq) < 2 ^ 15" using B(1,2) mod_less_divisor [OF B(1), of l] by linarith
  let ?vq = "reenable_events ev (if ev then set_driver_event vq (off_wrap (last_used_idx vq) (used_wrap_counter vq)) else vq)"
  have rel': "packed_rel ?vq a" using rel by simp
  have f: "last_used_idx ?vq = last_used_idx vq" "used_wrap_counter ?vq = used_wrap_counter vq" by simp_all
  have "virtqueue_poll_packed ?vq (off_wrap (last_used_idx vq) (used_wrap_counter vq)) = more_used_packed ?vq"
    using off_wrap_fields [OF lu] by (simp add: virtqueue_poll_packed_def more_used_packed_def f)
  moreover have "ucast (ucast (off_wrap (last_used_idx vq) (used_wrap_counter vq)) :: u32) =
      off_wrap (last_used_idx vq) (used_wrap_counter vq)" by (rule ucast_ucast_16_32)
  ultimately have "virtqueue_enable_cb_packed ev vq = Some (a_done a = [], ?vq)"
    using packed_more_used [OF rel'] f
    by (simp add: virtqueue_enable_cb_packed_def virtqueue_enable_cb_prepare_packed_def Let_def)
  then show ?thesis using rel' by blast
qed

lemma packed_disable_rel: "packed_rel vq a \<Longrightarrow> packed_rel (virtqueue_disable_cb_packed vq) a"
  by (simp add: virtqueue_disable_cb_packed_def)

lemma packed_kick_rel: "packed_rel vq a \<Longrightarrow> packed_rel (snd (virtqueue_kick_prepare_packed vq)) a"
  by (simp add: virtqueue_kick_prepare_packed_def Let_def)

interpretation pq_cb: virtqueue_cb virtqueue_add_buf_packed virtqueue_get_buf_packed
  virtqueue_has_buf_packed packed_device_use "\<lambda>q. unat (free_head q)" length packed_rel
  "virtqueue_enable_cb_packed ev" virtqueue_disable_cb_packed virtqueue_kick_prepare_packed
  for ev
  by unfold_locales (auto intro: packed_enable_rel packed_disable_rel packed_kick_rel)

subsection \<open>Creation\<close>

lemma link_states_spec:
  "unat i + k < 2 ^ 15 \<Longrightarrow> unat i + k \<le> length sts \<Longrightarrow>
   \<exists>sts'. link_states k i sts = Some sts' \<and> length sts' = length sts \<and>
     (\<forall>j. st_data (sts' ! j) = st_data (sts ! j)) \<and>
     (\<forall>j. \<not> (unat i \<le> j \<and> j < unat i + k) \<longrightarrow> sts' ! j = sts ! j) \<and>
     (\<forall>j. unat i \<le> j \<and> j < unat i + k \<longrightarrow> unat (st_next (sts' ! j)) = Suc j)"
proof (induction k arbitrary: i sts)
  case (Suc k)
  have i1: "unat (i + 1) = Suc (unat i)" using Suc.prems by (intro unat_Suc_small) simp
  have u: "unat (ucast (i + 1) :: u16) = Suc (unat i)"
    using Suc.prems i1 by (subst unat_ucast_32_16) auto
  let ?s = "sts[unat i := (sts ! unat i)\<lparr>st_next := ucast (i + 1)\<rparr>]"
  obtain sts' where r: "link_states k (i + 1) ?s = Some sts'" "length sts' = length sts"
    "\<forall>j. st_data (sts' ! j) = st_data (?s ! j)"
    "\<forall>j. \<not> (Suc (unat i) \<le> j \<and> j < Suc (unat i) + k) \<longrightarrow> sts' ! j = ?s ! j"
    "\<forall>j. Suc (unat i) \<le> j \<and> j < Suc (unat i) + k \<longrightarrow> unat (st_next (sts' ! j)) = Suc j"
    using Suc.IH [of "i + 1" ?s] Suc.prems i1 by auto
  have iN: "unat i < length sts" using Suc.prems by simp
  have "link_states (Suc k) i sts = Some sts'" using r(1) iN by simp
  moreover have "st_data (sts' ! j) = st_data (sts ! j)" for j
    using r(3) iN by (auto simp: nth_list_update)
  moreover have "sts' ! j = sts ! j" if "\<not> (unat i \<le> j \<and> j < unat i + Suc k)" for j
    using r(4) that by auto
  moreover have "unat (st_next (sts' ! j)) = Suc j" if "unat i \<le> j" "j < unat i + Suc k" for j
    using r(4,5) that u iN by (cases "j = unat i") auto
  ultimately show ?case using r(2) by blast
qed simp

lemma vring_new_virtqueue_packed_rel:
  assumes N: "0 < unat num" "unat num \<le> 2 ^ 15"
    and pg: "pages = (desc, driver, device)" "length desc = unat num" "\<forall>d \<in> set desc. pd_flags d = 0"
  shows "\<exists>vq. vring_new_virtqueue_packed index num pages = Some vq \<and>
           packed_rel vq (a_empty (unat num)) \<and> pq_index vq = index \<and> pq_num vq = num"
proof -
  have n1: "unat (num - 1) = unat num - 1" using N by (intro unat_pred)
  have lt: "unat num - Suc 0 < 32768" using N by simp
  let ?z = "replicate (unat num) zero_state :: 'a vring_desc_state_packed list"
  obtain sts where s: "link_states (unat num - 1) 0 ?z = Some sts" "length sts = unat num"
    "\<forall>j. st_data (sts ! j) = st_data (?z ! j)"
    "\<forall>j. \<not> j < unat num - 1 \<longrightarrow> sts ! j = ?z ! j"
    "\<forall>j. j < unat num - 1 \<longrightarrow> unat (st_next (sts ! j)) = Suc j"
    using link_states_spec [of 0 "unat num - 1" ?z] N lt by auto
  let ?vq = "\<lparr>pq_index = index, num_added = 0, free_head = 0, num_free = num, last_used_idx = 0,
              avail_used_flags = push_bit VRING_PACKED_DESC_F_AVAIL 1,
              avail_wrap_counter = True, used_wrap_counter = True, next_avail_idx = 0,
              event_flags_shadow = 0, pq_num = num, pq_desc = desc, pq_driver = driver,
              pq_device = device, desc_state = sts\<rparr> :: 'a virtqueue_packed"
  have new: "vring_new_virtqueue_packed index num pages = Some ?vq"
    using s(1) by (simp add: vring_new_virtqueue_packed_def pg(1) n1)
  have "pool (unat num) (snext sts) 0 (sdata sts) [0..<unat num] []"
    using s(3,5) by (intro pool_init) (auto simp: snext_def sdata_def zero_state_def)
  moreover have "snext sts j < unat num" if "j < unat num" for j
    using s(4,5) that N by (cases "j < unat num - 1") (auto simp: snext_def zero_state_def)
  ultimately have "packed_inv ?vq [0..<unat num] []"
    using N s(2) pg(2) by (simp add: packed_inv_def)
  moreover have "packed_ring ?vq (a_empty (unat num)) 0"
  proof -
    have e: "a_descs (a_empty (unat num) :: 'a avq) = 0" "done_descs (a_empty (unat num) :: 'a avq) = 0"
      "avail_descs (a_empty (unat num) :: 'a avq) = 0"
      by (simp_all add: a_descs_def done_descs_def avail_descs_def a_empty_def)
    have "\<not> abit (desc ! k)" if "k < unat num" for k
      using pg that by (simp add: abit_def)
    then show ?thesis
      unfolding packed_ring_def Let_def e using N
      by (simp add: a_empty_def wrapc_def flags_for_def)
  qed
  ultimately have "packed_rel ?vq (a_empty (unat num))"
    by (intro packed_relI [OF avq_ok_empty]) (simp_all add: a_empty_def entries_def)
  then show ?thesis using new by auto
qed

subsection \<open>Cleanup\<close>

lemma packed_inv_data:
  "packed_inv vq fl out \<Longrightarrow> i < unat (pq_num vq) \<Longrightarrow> st_data (desc_state vq ! i) = map_of (heads out) i"
  by (simp add: packed_inv_def pool_def sdata_def)

lemma detach_loop_packed_found:
  "packed_inv vq fl out \<Longrightarrow> unat idx + k = unat (pq_num vq) \<Longrightarrow> out \<noteq> [] \<Longrightarrow>
   \<forall>x \<in> set out. unat idx \<le> hd (fst x) \<Longrightarrow>
   \<exists>us c p vs vq'. out = us @ (c, p) # vs \<and> detach_loop_packed k idx vq = Some (Some p, vq') \<and>
     pq_num vq' = pq_num vq \<and> packed_inv vq' (c @ fl) (us @ vs)"
proof (induction k arbitrary: idx)
  case 0
  then obtain c p where "(c, p) \<in> set out" by (cases out) auto
  then obtain us vs where o: "out = us @ (c, p) # vs" by (auto dest: split_list)
  then show ?case using pool_head(2) [OF packed_inv_pool [OF "0.prems"(1) [unfolded o]]] "0.prems" by fastforce
next
  case (Suc k)
  note B = packed_inv_bounds [OF Suc.prems(1)]
  have iN: "unat idx < unat (pq_num vq)" using Suc.prems by simp
  then have rd: "rd (desc_state vq) idx = Some (desc_state vq ! unat idx)"
    and data: "st_data (desc_state vq ! unat idx) = map_of (heads out) (unat idx)"
    using B(4) packed_inv_data [OF Suc.prems(1)] by simp_all
  show ?case
  proof (cases "map_of (heads out) (unat idx)")
    case None
    then have "unat idx \<notin> fst ` set (heads out)" by (simp add: map_of_eq_None_iff)
    then have ne: "\<forall>x \<in> set out. hd (fst x) \<noteq> unat idx" by (force simp: heads_def)
    have i1: "unat (idx + 1) = Suc (unat idx)"
      using iN B(2) by (intro unat_Suc_small) simp
    have "\<forall>x \<in> set out. Suc (unat idx) \<le> hd (fst x)"
      using ne Suc.prems(4) by (metis Suc_leI le_neq_implies_less)
    then have "\<exists>us c p vs vq'. out = us @ (c, p) # vs \<and> detach_loop_packed k (idx + 1) vq = Some (Some p, vq') \<and>
      pq_num vq' = pq_num vq \<and> packed_inv vq' (c @ fl) (us @ vs)"
      using Suc.prems i1 by (intro Suc.IH) auto
    then show ?thesis using rd data None by simp
  next
    case (Some p)
    then have "(unat idx, p) \<in> set (heads out)" by (rule map_of_SomeD)
    then obtain us c vs where o: "out = us @ (c, p) # vs" "unat idx = hd c"
      by (force simp: heads_def dest: split_list)
    then obtain sts nf where "detach_buf_packed vq idx =
          Some (vq\<lparr>desc_state := sts, free_head := idx, num_free := nf\<rparr>)"
        "packed_inv (vq\<lparr>desc_state := sts, free_head := idx, num_free := nf\<rparr>) (c @ fl) (us @ vs)"
      using detach_buf_packed_inv [of vq fl us c p vs idx] Suc.prems(1) by auto
    moreover from this have "detach_loop_packed (Suc k) idx vq =
        Some (Some p, vq\<lparr>desc_state := sts, free_head := idx, num_free := nf\<rparr>)"
      using rd data Some by simp
    ultimately show ?thesis using o(1) by fastforce
  qed
qed

lemma detach_loop_packed_none:
  "packed_inv vq fl [] \<Longrightarrow> unat idx + k = unat (pq_num vq) \<Longrightarrow> detach_loop_packed k idx vq = Some (None, vq)"
proof (induction k arbitrary: idx)
  case 0
  have "length fl = unat (pq_num vq)"
    using pool_length [OF packed_inv_pool [OF "0.prems"(1)]] by (simp add: entries_def)
  then have "num_free vq = pq_num vq"
    using packed_inv_bounds(5) [OF "0.prems"(1)] by (metis word_unat_eq_iff)
  then show ?case by simp
next
  case (Suc k)
  note B = packed_inv_bounds [OF Suc.prems(1)]
  have iN: "unat idx < unat (pq_num vq)" using Suc.prems by simp
  have "st_data (desc_state vq ! unat idx) = None"
    using packed_inv_data [OF Suc.prems(1) iN] by (simp add: heads_def)
  moreover have "unat (idx + 1) = Suc (unat idx)" using iN B(2) by (intro unat_Suc_small) simp
  ultimately show ?case using Suc.IH [of "idx + 1"] Suc.prems B(4) iN by simp
qed

lemma packed_detach_none:
  assumes "packed_owned vq s []"
  shows "virtqueue_detach_unused_buf_packed vq = Some (None, vq)"
proof -
  obtain fl out where i: "packed_inv vq fl out" "entries out = []"
    using assms by (force simp: packed_owned_def)
  then have "out = []" by (simp add: entries_def)
  with i show ?thesis
    using detach_loop_packed_none [of vq fl 0] by (simp add: virtqueue_detach_unused_buf_packed_def)
qed

lemma packed_detach_some:
  assumes "packed_owned vq s xs" "xs \<noteq> []"
  shows "\<exists>bid n p vq'. virtqueue_detach_unused_buf_packed vq = Some (Some p, vq') \<and>
           (bid, n, p) \<in> set xs \<and> packed_owned vq' s (a_remove bid xs)"
proof -
  obtain fl out where i: "packed_inv vq fl out" "xs = entries out" "s = unat (pq_num vq)"
    using assms by (auto simp: packed_owned_def)
  then have "out \<noteq> []" using assms(2) by (auto simp: entries_def)
  then have "\<exists>us c p vs vq'. out = us @ (c, p) # vs \<and>
      detach_loop_packed (unat (pq_num vq)) 0 vq = Some (Some p, vq') \<and> pq_num vq' = pq_num vq \<and>
      packed_inv vq' (c @ fl) (us @ vs)"
    by (intro detach_loop_packed_found [OF i(1)]) auto
  then obtain us c p vs vq' where d: "out = us @ (c, p) # vs"
    "virtqueue_detach_unused_buf_packed vq = Some (Some p, vq')" "pq_num vq' = pq_num vq"
    "packed_inv vq' (c @ fl) (us @ vs)"
    unfolding virtqueue_detach_unused_buf_packed_def by blast
  moreover have "(hd c, length c, p) \<in> set xs" using i(2) d(1) by (simp add: entries_def)
  moreover have "a_remove (hd c) xs = entries (us @ vs)"
    using pool_entries_remove [OF packed_inv_pool, of vq fl us c p vs] i d(1) by simp
  then have "packed_owned vq' s (a_remove (hd c) xs)"
    unfolding packed_owned_def using d(3,4) i(3) by metis
  ultimately show ?thesis by blast
qed

lemma packed_owned_distinct: "packed_owned vq s xs \<Longrightarrow> distinct (map fst xs)"
  unfolding packed_owned_def using pool_heads [OF packed_inv_pool] heads_entries(1) by metis

lemma packed_shutdown_rel:
  assumes "packed_owned vq s xs"
  shows "\<exists>vq'. virtqueue_shutdown_packed vq = Some vq' \<and> packed_rel vq' (a_empty s)"
proof -
  obtain fl out where i: "packed_inv vq fl out" "s = unat (pq_num vq)"
    using assms by (auto simp: packed_owned_def)
  note B = packed_inv_bounds [OF i(1)]
  show ?thesis
    unfolding virtqueue_shutdown_packed_def i(2)
    using vring_new_virtqueue_packed_rel [OF B(1,2) refl, of "replicate (unat (pq_num vq)) zero_packed_desc"
        "pq_index vq" zero_event zero_event]
    by (auto simp: zero_packed_desc_def)
qed

interpretation pq_cleanup: virtqueue_cleanup packed_rel packed_owned
  virtqueue_detach_unused_buf_packed "\<lambda>q. map_option Some (virtqueue_shutdown_packed q)"
proof unfold_locales
  fix q :: "'a virtqueue_packed" and a :: "'a avq" and s xs
  show "packed_rel q a \<Longrightarrow> packed_owned q (a_size a) (a_out a)" by (simp add: packed_rel_def)
  show "packed_owned q s xs \<Longrightarrow>
    \<exists>q'. map_option Some (virtqueue_shutdown_packed q) = Some (Some q') \<and> packed_rel q' (a_empty s)"
    using packed_shutdown_rel [of q s xs] by auto
qed (auto intro: packed_owned_distinct packed_detach_none packed_detach_some)

end
