(* ===== verification/Virtqueue.thy ===== *)
theory Virtqueue
  imports SplitRingRefine PackedRingRefine
begin

text \<open>
  The virtqueue as the drivers see it (\<^verbatim>\<open>src/VirtIO/VirtIO.h\<close>): \<open>struct virtqueue\<close> carries
  the function pointers that \<open>vring_new_virtqueue_split\<close> or
  \<open>vring_new_virtqueue_packed\<close> stored, so a queue is one of two layouts and each inline
  function dispatches on it. The contract of the two rings holds for the dispatching
  functions, whatever the layout.

  An indirect page is raw memory: 16-byte entries that each ring reads as its own
  descriptor type.
\<close>

subsection \<open>Queues and indirect pages\<close>

datatype 'o vqueue = SplitVq "'o virtqueue_split" | PackedVq "'o virtqueue_packed"

type_synonym raw_entry = "u64 \<times> u32 \<times> u16 \<times> u16"

definition split_of_raw :: "raw_entry \<Rightarrow> vring_desc" where
  "split_of_raw e = (case e of (a, l, x, y) \<Rightarrow> \<lparr>desc_addr = a, desc_len = l, desc_flags = x, desc_next = y\<rparr>)"

definition raw_of_split :: "vring_desc \<Rightarrow> raw_entry" where
  "raw_of_split d = (desc_addr d, desc_len d, desc_flags d, desc_next d)"

definition packed_of_raw :: "raw_entry \<Rightarrow> vring_packed_desc" where
  "packed_of_raw e = (case e of (a, l, x, y) \<Rightarrow> \<lparr>pd_addr = a, pd_len = l, pd_id = x, pd_flags = y\<rparr>)"

definition raw_of_packed :: "vring_packed_desc \<Rightarrow> raw_entry" where
  "raw_of_packed d = (pd_addr d, pd_len d, pd_id d, pd_flags d)"

lemma raw_split_inverse [simp]: "raw_of_split (split_of_raw e) = e"
  by (cases e) (simp add: raw_of_split_def split_of_raw_def)

lemma raw_packed_inverse [simp]: "raw_of_packed (packed_of_raw e) = e"
  by (cases e) (simp add: raw_of_packed_def packed_of_raw_def)

subsection \<open>The inline functions\<close>

definition virtqueue_add_buf ::
  "'o vqueue \<Rightarrow> scatterlist list \<Rightarrow> u32 \<Rightarrow> u32 \<Rightarrow> 'o option \<Rightarrow> raw_entry list option \<Rightarrow> u64
     \<Rightarrow> (int \<times> 'o vqueue \<times> raw_entry list option) option" where
  "virtqueue_add_buf q sg out inn opq va_indirect phys_indirect =
     (case q of
        SplitVq vq \<Rightarrow> do {
          (r, vq1, t) \<leftarrow> virtqueue_add_buf_split vq sg out inn opq
                          (map_option (map split_of_raw) va_indirect) phys_indirect;
          Some (r, SplitVq vq1, map_option (map raw_of_split) t)
        }
      | PackedVq vq \<Rightarrow> do {
          (r, vq1, t) \<leftarrow> virtqueue_add_buf_packed vq sg out inn opq
                          (map_option (map packed_of_raw) va_indirect) phys_indirect;
          Some (r, PackedVq vq1, map_option (map raw_of_packed) t)
        })"

definition virtqueue_get_buf ::
  "bool \<Rightarrow> 'o vqueue \<Rightarrow> (('o option \<times> u32) option \<times> 'o vqueue) option" where
  "virtqueue_get_buf ev q =
     (case q of
        SplitVq vq \<Rightarrow> map_option (apsnd SplitVq) (virtqueue_get_buf_split ev vq)
      | PackedVq vq \<Rightarrow> map_option (apsnd PackedVq) (virtqueue_get_buf_packed vq))"

definition virtqueue_has_buf :: "'o vqueue \<Rightarrow> bool option" where
  "virtqueue_has_buf q =
     (case q of
        SplitVq vq \<Rightarrow> Some (virtqueue_has_buf_split vq)
      | PackedVq vq \<Rightarrow> virtqueue_has_buf_packed vq)"

definition virtqueue_kick_prepare :: "bool \<Rightarrow> 'o vqueue \<Rightarrow> bool \<times> 'o vqueue" where
  "virtqueue_kick_prepare ev q =
     (case q of
        SplitVq vq \<Rightarrow> apsnd SplitVq (virtqueue_kick_prepare_split ev vq)
      | PackedVq vq \<Rightarrow> apsnd PackedVq (virtqueue_kick_prepare_packed vq))"

definition virtqueue_kick_always :: "'o vqueue \<Rightarrow> bool \<times> 'o vqueue" where
  "virtqueue_kick_always q =
     (case q of
        SplitVq vq \<Rightarrow> apsnd SplitVq (virtqueue_kick_always_split vq)
      | PackedVq vq \<Rightarrow> apsnd PackedVq (virtqueue_kick_always_packed vq))"

definition virtqueue_enable_cb :: "bool \<Rightarrow> 'o vqueue \<Rightarrow> (bool \<times> 'o vqueue) option" where
  "virtqueue_enable_cb ev q =
     (case q of
        SplitVq vq \<Rightarrow> map_option (apsnd SplitVq) (virtqueue_enable_cb_split ev vq)
      | PackedVq vq \<Rightarrow> map_option (apsnd PackedVq) (virtqueue_enable_cb_packed ev vq))"

definition virtqueue_enable_cb_delayed :: "bool \<Rightarrow> 'o vqueue \<Rightarrow> (bool \<times> 'o vqueue) option" where
  "virtqueue_enable_cb_delayed ev q =
     (case q of
        SplitVq vq \<Rightarrow> map_option (apsnd SplitVq) (virtqueue_enable_cb_delayed_split ev vq)
      | PackedVq vq \<Rightarrow> map_option (apsnd PackedVq) (virtqueue_enable_cb_delayed_packed ev vq))"

definition virtqueue_disable_cb :: "bool \<Rightarrow> 'o vqueue \<Rightarrow> 'o vqueue" where
  "virtqueue_disable_cb ev q =
     (case q of
        SplitVq vq \<Rightarrow> SplitVq (virtqueue_disable_cb_split ev vq)
      | PackedVq vq \<Rightarrow> PackedVq (virtqueue_disable_cb_packed vq))"

definition virtqueue_is_interrupt_enabled :: "'o vqueue \<Rightarrow> bool" where
  "virtqueue_is_interrupt_enabled q =
     (case q of
        SplitVq vq \<Rightarrow> virtqueue_is_interrupt_enabled_split vq
      | PackedVq vq \<Rightarrow> virtqueue_is_interrupt_enabled_packed vq)"

definition virtqueue_detach_unused_buf :: "'o vqueue \<Rightarrow> ('o option \<times> 'o vqueue) option" where
  "virtqueue_detach_unused_buf q =
     (case q of
        SplitVq vq \<Rightarrow> map_option (apsnd SplitVq) (virtqueue_detach_unused_buf_split vq)
      | PackedVq vq \<Rightarrow> map_option (apsnd PackedVq) (virtqueue_detach_unused_buf_packed vq))"

text \<open>The inner option is the pointer the split constructor returns; the source drops it.\<close>

definition virtqueue_shutdown :: "'o vqueue \<Rightarrow> 'o vqueue option option" where
  "virtqueue_shutdown q =
     (case q of
        SplitVq vq \<Rightarrow> map_option (map_option SplitVq) (virtqueue_shutdown_split vq)
      | PackedVq vq \<Rightarrow> map_option (Some \<circ> PackedVq) (virtqueue_shutdown_packed vq))"

definition vring_control_block_size :: "u32 \<Rightarrow> u32 \<Rightarrow> u32 \<Rightarrow> u16 \<Rightarrow> bool \<Rightarrow> u32" where
  "vring_control_block_size sizeof_virtqueue_split sizeof_virtqueue_packed sizeof_desc_state qsize packed =
     (if packed then vring_control_block_size_packed qsize sizeof_virtqueue_packed sizeof_desc_state
      else vring_control_block_size_split qsize sizeof_virtqueue_split)"

definition vring_size :: "u32 \<Rightarrow> u32 \<Rightarrow> bool \<Rightarrow> u32" where
  "vring_size num align packed = (if packed then vring_size_packed num align else vring_size_split num align)"

subsection \<open>The contract for both layouts\<close>

definition vq_rel :: "'o vqueue \<Rightarrow> 'o avq \<Rightarrow> bool" where
  "vq_rel q a = (case q of SplitVq vq \<Rightarrow> split_rel vq a | PackedVq vq \<Rightarrow> packed_rel vq a)"

definition vq_owned :: "'o vqueue \<Rightarrow> nat \<Rightarrow> (nat \<times> nat \<times> 'o) list \<Rightarrow> bool" where
  "vq_owned q s xs = (case q of SplitVq vq \<Rightarrow> split_owned vq s xs | PackedVq vq \<Rightarrow> packed_owned vq s xs)"

definition vq_device_use :: "'o avq \<Rightarrow> nat \<Rightarrow> u32 \<Rightarrow> 'o vqueue \<Rightarrow> 'o vqueue" where
  "vq_device_use a bid len q =
     (case q of
        SplitVq vq \<Rightarrow> SplitVq (split_device_use a bid len vq)
      | PackedVq vq \<Rightarrow> PackedVq (packed_device_use a bid len vq))"

definition vq_next_id :: "'o vqueue \<Rightarrow> nat" where
  "vq_next_id q = (case q of SplitVq vq \<Rightarrow> unat (first_unused vq) | PackedVq vq \<Rightarrow> unat (free_head vq))"

lemma map_option_lengths:
  "map_option length t' = map_option length (map_option (map f) page) \<Longrightarrow>
   map_option length (map_option (map g) t') = map_option length page"
  by (cases t'; cases page) auto

lemma descs_needed_map: "descs_needed (map_option f page) n = descs_needed page n"
  by (simp add: descs_needed_def)

lemma vq_add_accepts:
  assumes rel: "vq_rel q a" and n: "0 < unat out + unat inn" "unat out + unat inn < 2 ^ 16"
    "unat out + unat inn \<le> length sg"
    and page: "\<forall>t. page = Some t \<longrightarrow> unat out + unat inn \<le> length t"
    and free: "descs_needed page (unat out + unat inn) \<le> a_free a"
  shows "\<exists>q' page'. virtqueue_add_buf q sg out inn (Some p) page pa = Some (0, q', page') \<and>
     map_option length page' = map_option length page \<and> vq_next_id q \<notin> set (a_ids a) \<and>
     vq_rel q' (a_add (vq_next_id q) (descs_needed page (unat out + unat inn)) p a)"
proof (cases q)
  case (SplitVq vq)
  then have r: "split_rel vq a" using rel by (simp add: vq_rel_def)
  have "\<exists>vq' page'. virtqueue_add_buf_split vq sg out inn (Some p) (map_option (map split_of_raw) page) pa =
      Some (0, vq', page') \<and> map_option length page' = map_option length (map_option (map split_of_raw) page) \<and>
      unat (first_unused vq) \<notin> set (a_ids a) \<and>
      split_rel vq' (a_add (unat (first_unused vq))
        (descs_needed (map_option (map split_of_raw) page) (unat out + unat inn)) p a)"
    using page free n by (intro sq.add_accepts [OF r]) (auto simp: descs_needed_map)
  then show ?thesis
    using SplitVq map_option_lengths [where f = split_of_raw and g = raw_of_split and page = page]
    by (auto simp: virtqueue_add_buf_def vq_rel_def vq_next_id_def descs_needed_map)
next
  case (PackedVq vq)
  then have r: "packed_rel vq a" using rel by (simp add: vq_rel_def)
  have "\<exists>vq' page'. virtqueue_add_buf_packed vq sg out inn (Some p) (map_option (map packed_of_raw) page) pa =
      Some (0, vq', page') \<and> map_option length page' = map_option length (map_option (map packed_of_raw) page) \<and>
      unat (free_head vq) \<notin> set (a_ids a) \<and>
      packed_rel vq' (a_add (unat (free_head vq))
        (descs_needed (map_option (map packed_of_raw) page) (unat out + unat inn)) p a)"
    using page free n by (intro pq.add_accepts [OF r]) (auto simp: descs_needed_map)
  then show ?thesis
    using PackedVq map_option_lengths [where f = packed_of_raw and g = raw_of_packed and page = page]
    by (auto simp: virtqueue_add_buf_def vq_rel_def vq_next_id_def descs_needed_map)
qed

lemma vq_add_refuses:
  assumes rel: "vq_rel q a" and n: "0 < unat out + unat inn" "unat out + unat inn < 2 ^ 32"
    and full: "a_free a < descs_needed page (unat out + unat inn)"
  shows "virtqueue_add_buf q sg out inn (Some p) page pa = Some (- ENOSPC, q, page)"
proof (cases q)
  case (SplitVq vq)
  then have r: "split_rel vq a" using rel by (simp add: vq_rel_def)
  have "virtqueue_add_buf_split vq sg out inn (Some p) (map_option (map split_of_raw) page) pa =
      Some (- ENOSPC, vq, map_option (map split_of_raw) page)"
    using full n by (intro sq.add_refuses [OF r]) (auto simp: descs_needed_map)
  then show ?thesis using SplitVq by (cases page) (simp_all add: virtqueue_add_buf_def comp_def)
next
  case (PackedVq vq)
  then have r: "packed_rel vq a" using rel by (simp add: vq_rel_def)
  have "virtqueue_add_buf_packed vq sg out inn (Some p) (map_option (map packed_of_raw) page) pa =
      Some (- ENOSPC, vq, map_option (map packed_of_raw) page)"
    using full n by (intro pq.add_refuses [OF r]) (auto simp: descs_needed_map)
  then show ?thesis using PackedVq by (cases page) (simp_all add: virtqueue_add_buf_def comp_def)
qed

interpretation vq: virtqueue virtqueue_add_buf "virtqueue_get_buf ev" virtqueue_has_buf vq_device_use
  vq_next_id length vq_rel
  for ev
proof unfold_locales
  fix q :: "'a vqueue" and a :: "'a avq" and bid len ds n and p :: 'a
  assume rel: "vq_rel q a"
  show "avq_ok a"
    using rel sq.rel_ok pq.rel_ok by (cases q) (auto simp: vq_rel_def)
  show "virtqueue_has_buf q = Some (a_done a \<noteq> [])"
    using rel sq.has_iff pq.has_iff by (cases q) (auto simp: vq_rel_def virtqueue_has_buf_def)
  show "a_avail a \<noteq> [] \<Longrightarrow> vq_rel q (a_take a)"
    using rel sq.take_rel pq.take_rel by (cases q) (auto simp: vq_rel_def)
  show "a_held a bid \<Longrightarrow> vq_rel (vq_device_use a bid len q) (a_complete bid len a)"
    using rel sq.use_rel pq.use_rel by (cases q) (auto simp: vq_rel_def vq_device_use_def)
  show "a_done a = [] \<Longrightarrow> virtqueue_get_buf ev q = Some (None, q)"
    using rel sq.get_empty pq.get_empty by (cases q) (auto simp: vq_rel_def virtqueue_get_buf_def)
  show "\<exists>q'. virtqueue_get_buf ev q = Some (Some (Some p, len), q') \<and> vq_rel q' (a_fetch a)"
    if "a_done a = (bid, len) # ds" "a_lookup a bid = Some (n, p)"
    using rel sq.get_next [OF _ that, of _ ev] pq.get_next [OF _ that]
    by (cases q) (fastforce simp: vq_rel_def virtqueue_get_buf_def)+
qed (auto intro: vq_add_accepts vq_add_refuses)

interpretation vq_cb: virtqueue_cb virtqueue_add_buf "virtqueue_get_buf ev" virtqueue_has_buf
  vq_device_use vq_next_id length vq_rel "virtqueue_enable_cb ev" "virtqueue_disable_cb ev"
  "virtqueue_kick_prepare ev"
  for ev
proof unfold_locales
  fix q :: "'a vqueue" and a :: "'a avq"
  assume rel: "vq_rel q a"
  show "\<exists>q'. virtqueue_enable_cb ev q = Some (a_done a = [], q') \<and> vq_rel q' a"
    using rel sq_cb.enable_rel [of _ a ev] pq_cb.enable_rel [of _ a ev]
    by (cases q) (fastforce simp: vq_rel_def virtqueue_enable_cb_def)+
  show "vq_rel (virtqueue_disable_cb ev q) a"
    using rel sq_cb.disable_rel pq_cb.disable_rel by (cases q) (auto simp: vq_rel_def virtqueue_disable_cb_def)
  show "vq_rel (snd (virtqueue_kick_prepare ev q)) a"
    using rel sq_cb.kick_rel pq_cb.kick_rel
    by (cases q) (auto simp: vq_rel_def virtqueue_kick_prepare_def)
qed

interpretation vq_cleanup: virtqueue_cleanup vq_rel vq_owned virtqueue_detach_unused_buf virtqueue_shutdown
proof unfold_locales
  fix q :: "'a vqueue" and a :: "'a avq" and s xs
  show "vq_rel q a \<Longrightarrow> vq_owned q (a_size a) (a_out a)"
    using sq_cleanup.rel_owned pq_cleanup.rel_owned by (cases q) (auto simp: vq_rel_def vq_owned_def)
  assume own: "vq_owned q s xs"
  show "distinct (map fst xs)"
    using own sq_cleanup.owned_distinct pq_cleanup.owned_distinct by (cases q) (auto simp: vq_owned_def)
  show "\<exists>q'. virtqueue_shutdown q = Some (Some q') \<and> vq_rel q' (a_empty s)"
    using own sq_cleanup.shutdown_rel [of _ s xs] packed_shutdown_rel [of _ s xs]
    by (cases q) (fastforce simp: vq_owned_def vq_rel_def virtqueue_shutdown_def)+
  show "\<exists>bid n p q'. virtqueue_detach_unused_buf q = Some (Some p, q') \<and> (bid, n, p) \<in> set xs \<and>
      vq_owned q' s (a_remove bid xs)" if "xs \<noteq> []"
    using own sq_cleanup.detach_some [OF _ that] pq_cleanup.detach_some [OF _ that]
    by (cases q) (fastforce simp: vq_owned_def virtqueue_detach_unused_buf_def)+
next
  fix q :: "'a vqueue" and s
  assume own: "vq_owned q s []"
  then show "virtqueue_detach_unused_buf q = Some (None, q)"
    using sq_cleanup.detach_none pq_cleanup.detach_none
    by (cases q) (auto simp: vq_owned_def virtqueue_detach_unused_buf_def)
qed

end
