(* ===== verification/RingProperties.thy ===== *)
theory RingProperties
  imports Virtqueue
begin

text \<open>
  The properties of the virtqueue library: what a driver may rely on when it adds,
  fetches and detaches buffers, whatever the layout of the ring, and what the device
  finds in the shared memory. Each one is stated over the translated routines and rests
  on the interpretations of the contract in \<open>Virtqueue\<close>. The small queues at the
  top are the concrete inputs the statements are tried on.
\<close>

subsection \<open>Two small queues\<close>

definition demo_split :: "nat vqueue" where
  "demo_split = SplitVq (the (the (vring_new_virtqueue_split 0 4 (zero_pages 4))))"

definition demo_packed :: "nat vqueue" where
  "demo_packed = PackedVq (the (vring_new_virtqueue_packed 0 4
     (replicate 4 zero_packed_desc, zero_event, zero_event)))"

definition demo_sg :: "scatterlist list" where
  "demo_sg = [\<lparr>physAddr = 4096, sg_length = 16\<rparr>, \<lparr>physAddr = 8192, sg_length = 32\<rparr>]"

lemma demo_split_rel: "vq_rel demo_split (a_empty 4)"
proof -
  have "pages_ok 4 (zero_pages 4)" by (simp add: pages_ok_def zero_pages_def)
  from vring_new_virtqueue_split_rel [of 4 2 "zero_pages 4" 0, OF _ _ this]
  obtain vq :: "nat virtqueue_split" where "vring_new_virtqueue_split 0 4 (zero_pages 4) = Some (Some vq)"
    "split_rel vq (a_empty 4)" by auto
  then show ?thesis by (simp add: demo_split_def vq_rel_def)
qed

lemma demo_packed_rel: "vq_rel demo_packed (a_empty 4)"
proof -
  let ?pages = "(replicate 4 zero_packed_desc, zero_event, zero_event)"
  from vring_new_virtqueue_packed_rel [of 4 ?pages "replicate 4 zero_packed_desc" zero_event zero_event 0]
  obtain vq :: "nat virtqueue_packed" where "vring_new_virtqueue_packed 0 4 ?pages = Some vq"
    "packed_rel vq (a_empty 4)" by (auto simp: zero_packed_desc_def)
  then show ?thesis by (simp add: demo_packed_def vq_rel_def)
qed

definition demo_added :: "nat vqueue" where
  "demo_added = fst (snd (the (virtqueue_add_buf demo_split demo_sg 1 1 (Some 7) None 0)))"

definition demo_out :: "nat avq" where
  "demo_out = a_add 0 2 7 (a_empty 4)"

definition demo_used :: "nat vqueue" where
  "demo_used = vq_device_use (a_take demo_out) 0 5 demo_added"

lemma demo_add_run: "virtqueue_add_buf demo_split demo_sg 1 1 (Some 7) None 0 = Some (0, demo_added, None)"
  by code_simp

lemma demo_next_id: "vq_next_id demo_split = 0" "vq_next_id demo_packed = 0"
  by code_simp+

lemma demo_a_free: "a_free (a_empty n) = n"
  by (simp add: a_empty_def a_free_def a_descs_def)

lemma demo_two: "a_add b (Suc (Suc 0)) p a = a_add b 2 p a"
  by (simp add: numeral_2_eq_2)

lemma demo_added_rel: "vq_rel demo_added demo_out"
  using vq_add_accepts [OF demo_split_rel, of 1 1 demo_sg None 7 0] demo_add_run demo_next_id
  by (auto simp: demo_sg_def descs_needed_def demo_a_free demo_out_def demo_two)

lemma demo_used_rel: "vq_rel demo_used (a_complete 0 5 (a_take demo_out))"
proof -
  have "vq_rel demo_added (a_take demo_out)"
    by (rule vq.take_rel [OF demo_added_rel]) (simp add: demo_out_def a_add_def)
  then show ?thesis
    unfolding demo_used_def
    by (rule vq.use_rel) (simp add: demo_out_def a_add_def a_take_def a_held_def a_empty_def a_ids_def)
qed

definition demo_fetched :: "nat vqueue" where
  "demo_fetched = snd (the (virtqueue_get_buf True demo_used))"

lemma demo_get_run: "virtqueue_get_buf True demo_used = Some (Some (Some 7, 5), demo_fetched)"
  by code_simp

lemma demo_used_done: "a_done (a_complete 0 5 (a_take demo_out)) = [(0, 5)]"
  by (simp add: demo_out_def a_add_def a_take_def a_complete_def a_empty_def)

subsection \<open>Adding and fetching\<close>

text \<open>
  C1: buffers are conserved. Take any interleaving of adding, fetching and device
  activity on a fresh queue, in either layout. The invariant holds at the end, and the
  pointers that were returned together with those still out are exactly those that were
  handed over: none is lost, none comes back twice.
\<close>

theorem ring_conservation:
  assumes "vq_rel q0 (a_empty n)"
    and "vq_trace virtqueue_add_buf (virtqueue_get_buf ev) vq_device_use vq_next_id length
           q0 (a_empty n) q a ins outs"
  shows "vq_rel q a \<and> mset outs + a_ptrs a = mset ins"
  using vq.trace_rel [OF assms(2,1)] by (simp add: a_ptrs_def a_empty_def)

theorem ring_conservation_witness:
  "\<exists>q a. vq_trace virtqueue_add_buf (virtqueue_get_buf True) vq_device_use vq_next_id length
      demo_split (a_empty 4) q a [7] [7] \<and> vq_rel q a \<and> a_ptrs a = {#}"
proof -
  let ?T = "vq_trace virtqueue_add_buf (virtqueue_get_buf True) vq_device_use vq_next_id length
      demo_split (a_empty 4)"
  have "?T demo_split (a_empty 4) [] []" by (rule vq_trace.start)
  from vq_trace.drv_add [OF this _ _ _ _ demo_add_run]
  have "?T demo_added demo_out [7] []"
    by (simp add: demo_sg_def demo_next_id demo_out_def descs_needed_def demo_two)
  then have "?T demo_added (a_take demo_out) [7] []"
    by (rule vq_trace.dev_take) (simp add: demo_out_def a_add_def)
  then have "?T demo_used (a_complete 0 5 (a_take demo_out)) [7] []"
    unfolding demo_used_def by (rule vq_trace.dev_use)
      (simp add: demo_out_def a_add_def a_take_def a_held_def a_empty_def a_ids_def)
  from vq_trace.drv_get [OF this demo_get_run]
  have t: "?T demo_fetched (a_fetch (a_complete 0 5 (a_take demo_out))) [7] [7]" by simp
  then show ?thesis
    using ring_conservation [OF demo_split_rel t]
    by (intro exI [of _ demo_fetched] exI [of _ "a_fetch (a_complete 0 5 (a_take demo_out))"]) simp
qed

text \<open>
  C2: adding a buffer. On a queue that satisfies the invariant, a request of at least one
  and fewer than \<open>2 ^ 16\<close> segments always returns: no access outside the tables, no
  endless walk. It succeeds exactly when the free descriptors suffice, one descriptor
  when an indirect page is given and one per segment otherwise; then the buffer is queued
  behind the others under a fresh id. Otherwise the result is \<open>-ENOSPC\<close> and nothing
  changes.
\<close>

theorem add_buf_refines:
  assumes "vq_rel q a" and "0 < unat out + unat inn" "unat out + unat inn < 2 ^ 16"
    and "unat out + unat inn \<le> length sg"
    and "case page of None \<Rightarrow> True | Some t \<Rightarrow> unat out + unat inn \<le> length t"
  shows "\<exists>r q' page'. virtqueue_add_buf q sg out inn (Some p) page pa = Some (r, q', page') \<and>
    (if descs_needed page (unat out + unat inn) \<le> a_free a
     then r = 0 \<and> vq_next_id q \<notin> set (a_ids a) \<and>
          vq_rel q' (a_add (vq_next_id q) (descs_needed page (unat out + unat inn)) p a)
     else r = - ENOSPC \<and> q' = q \<and> page' = page)"
proof (cases "descs_needed page (unat out + unat inn) \<le> a_free a")
  case True
  then show ?thesis using vq_add_accepts [OF assms(1-4) _ True, of p pa] assms(5)
    by (auto split: option.splits)
next
  case False
  then show ?thesis using vq_add_refuses [OF assms(1,2), of page sg p pa] assms(3) by auto
qed

theorem add_buf_refines_witness:
  "\<exists>r q' page'. virtqueue_add_buf demo_packed demo_sg 1 1 (Some 7) None 0 = Some (r, q', page') \<and>
     r = 0 \<and> vq_rel q' (a_add 0 2 7 (a_empty 4))"
  using add_buf_refines [OF demo_packed_rel, of 1 1 demo_sg None 7 0]
  by (auto simp: demo_sg_def descs_needed_def demo_a_free demo_next_id demo_two)

text \<open>
  C3: fetching a buffer returns on every queue that satisfies the invariant. It gives
  \<open>NULL\<close> and leaves the queue alone when the device has completed nothing; otherwise it
  gives the pointer that was passed with the oldest completed buffer, the length the device
  reported, and the descriptors are free again.
\<close>

theorem get_buf_refines:
  assumes "vq_rel q a"
  shows "\<exists>r q'. virtqueue_get_buf ev q = Some (r, q') \<and>
    (case a_done a of
       [] \<Rightarrow> r = None \<and> q' = q
     | (bid, len) # ds \<Rightarrow>
         \<exists>n p. a_lookup a bid = Some (n, p) \<and> r = Some (Some p, len) \<and> vq_rel q' (a_fetch a))"
  using vq.get_returns [OF assms, of ev] vq.get_empty [OF assms, of ev]
  by (cases "a_done a") auto

theorem get_buf_refines_witness:
  "\<exists>q'. virtqueue_get_buf True demo_used = Some (Some (Some 7, 5), q') \<and>
     vq_rel q' (a_fetch (a_complete 0 5 (a_take demo_out)))"
  using get_buf_refines [OF demo_used_rel, of True]
  by (auto simp: demo_used_done)
    (simp add: a_lookup_def demo_out_def a_add_def a_take_def a_complete_def a_empty_def)

lemma write_flag_clear_next:
  "(f AND NOT VIRTQ_DESC_F_NEXT) AND VIRTQ_DESC_F_WRITE = f AND VIRTQ_DESC_F_WRITE"
  by (rule bit_word_eqI) (auto simp: bit_simps split_flag_defs bit_2_iff bit_1_iff)

lemma chain_desc_fields:
  "desc_addr (chain_desc sg out n j d) = physAddr (sg ! j)"
  "desc_len (chain_desc sg out n j d) = sg_length (sg ! j)"
  "(desc_flags (chain_desc sg out n j d) AND VIRTQ_DESC_F_WRITE \<noteq> 0) = (unat out \<le> j)"
  by (simp_all add: chain_desc_def seg_desc_def clear_next_def Let_def write_flag_clear_next)
    (simp_all add: split_flag_defs)

text \<open>
  C5: what the device finds in the split ring. After a successful direct add, the entry of
  the available ring at the old index names the first descriptor of a chain; the chain has
  one descriptor per segment, linked by \<open>next\<close> and ended by a cleared \<open>NEXT\<close> flag,
  each with the address and length of its segment and device-writable exactly from segment
  \<open>out\<close> on; the index is one further, and no other descriptor has changed.
\<close>

theorem split_published_chain:
  assumes rel: "split_rel vq a" and n: "0 < unat out + unat inn" "unat out + unat inn \<le> a_free a"
    "unat out + unat inn \<le> length sg" "unat out + unat inn < 2 ^ 32"
  shows "\<exists>c vq'. virtqueue_add_buf_split vq sg out inn (Some p) None pa = Some (0, vq', None) \<and>
    length c = unat out + unat inn \<and> distinct c \<and> chain (sq_desc vq') c \<and>
    unat (avail_ring (sq_avail vq') ! (unat (master_idx vq) mod unat (sq_num vq))) = hd c \<and>
    avail_idx (sq_avail vq') = avail_idx (sq_avail vq) + 1 \<and>
    list_all (\<lambda>j. desc_addr (sq_desc vq' ! (c ! j)) = physAddr (sg ! j) \<and>
                  desc_len (sq_desc vq' ! (c ! j)) = sg_length (sg ! j) \<and>
                  (desc_flags (sq_desc vq' ! (c ! j)) AND VIRTQ_DESC_F_WRITE \<noteq> 0) = (unat out \<le> j))
             [0..<unat out + unat inn] \<and>
    filter (\<lambda>m. sq_desc vq' ! m \<noteq> sq_desc vq ! m \<and> m \<notin> set c) [0..<unat (sq_num vq)] = []"
proof -
  let ?n = "unat out + unat inn"
  obtain fl ol where r: "split_inv vq fl ol" "a_free a = length fl" "a_size a = unat (sq_num vq)"
    "split_rings vq (a_avail a) (a_done a)" "avq_ok a" "a_out a = entries ol"
    using rel by (elim split_relE)
  have un: "unat (out + inn) = ?n" using n by (simp add: unat_plus_small)
  have nu: "\<not> num_unused vq < out + inn"
    using r(1,2) n un by (simp add: split_inv_def word_less_nat_alt)
  obtain vq1 where d: "add_direct vq sg out (out + inn) (Some p) = Some (first_unused vq, vq1)"
    "unat (first_unused vq) = hd fl" "same_rings vq vq1"
    "split_inv vq1 (drop ?n fl) (ol @ [(take ?n fl, p)])"
    "\<forall>m. m \<notin> set (take ?n fl) \<longrightarrow> sq_desc vq1 ! m = sq_desc vq ! m"
    "\<forall>j < ?n. sq_desc vq1 ! (fl ! j) = chain_desc sg out ?n j (sq_desc vq ! (fl ! j))"
    using add_direct_spec [OF r(1), of "out + inn" sg out p] un n r(2) by auto
  let ?i = "unat (master_idx vq) mod unat (sq_num vq)"
  note sh = split_inv_shape [OF d(4)]
  have iN: "?i < length (avail_ring (sq_avail vq))"
    using split_shape_bounds [OF split_inv_shape [OF r(1)]] split_inv_shape [OF r(1)]
    by (simp add: split_shape_def less_Suc_eq)
  let ?vq2 = "vq1\<lparr>sq_avail := (sq_avail vq1)\<lparr>avail_ring := (avail_ring (sq_avail vq1))[?i := first_unused vq],
      avail_idx := master_idx vq + 1\<rparr>, master_idx := master_idx vq1 + 1,
      num_added_since_kick := num_added_since_kick vq1 + 1\<rparr>"
  have same: "sq_avail vq1 = sq_avail vq" "master_idx vq1 = master_idx vq" "sq_num vq1 = sq_num vq"
    using d(3) by (simp_all add: same_rings_def)
  have "publish vq1 (first_unused vq) = Some ?vq2"
    using iN same by (simp add: publish_def DESC_INDEX_mod [OF sh, simplified same])
  then have run: "virtqueue_add_buf_split vq sg out inn (Some p) None pa = Some (0, ?vq2, None)"
    using d(1) nu by (simp add: virtqueue_add_buf_split_def Let_def VQ_ADD_BUFFER_SUCCESS_def)
  have ch: "chain (sq_desc vq1) (take ?n fl)" using d(4) by (simp add: split_inv_def)
  have hd: "unat (avail_ring (sq_avail ?vq2) ! ?i) = hd (take ?n fl)"
    using iN same d(2) n by (cases fl) auto
  have ai: "avail_idx (sq_avail vq) = master_idx vq" using r(4) by (simp add: split_rings_def)
  have seg: "desc_addr (sq_desc vq1 ! (fl ! j)) = physAddr (sg ! j) \<and>
      desc_len (sq_desc vq1 ! (fl ! j)) = sg_length (sg ! j) \<and>
      (desc_flags (sq_desc vq1 ! (fl ! j)) AND VIRTQ_DESC_F_WRITE \<noteq> 0) = (unat out \<le> j)" if "j < ?n" for j
    using d(6) that by (simp add: chain_desc_fields)
  have "list_all (\<lambda>j. desc_addr (sq_desc ?vq2 ! (take ?n fl ! j)) = physAddr (sg ! j) \<and>
      desc_len (sq_desc ?vq2 ! (take ?n fl ! j)) = sg_length (sg ! j) \<and>
      (desc_flags (sq_desc ?vq2 ! (take ?n fl ! j)) AND VIRTQ_DESC_F_WRITE \<noteq> 0) = (unat out \<le> j)) [0..<?n]"
    unfolding list_all_iff using seg n r(2) by simp
  moreover have "filter (\<lambda>m. sq_desc ?vq2 ! m \<noteq> sq_desc vq ! m \<and> m \<notin> set (take ?n fl)) [0..<unat (sq_num vq)] = []"
    using d(5) by (auto simp: filter_empty_conv)
  ultimately show ?thesis
    using run ch hd ai n r(2) split_inv_linked(3) [OF r(1)]
    by (intro exI [of _ "take ?n fl"] exI [of _ ?vq2]) simp
qed

theorem split_published_chain_witness:
  "\<exists>c vq'. virtqueue_add_buf_split (the (the (vring_new_virtqueue_split 0 4 (zero_pages 4)))) demo_sg 1 1
      (Some (7 :: nat)) None 0 = Some (0, vq', None) \<and>
    length c = 2 \<and> desc_addr (sq_desc vq' ! (c ! 0)) = 4096 \<and> desc_addr (sq_desc vq' ! (c ! 1)) = 8192"
proof -
  have "split_rel (the (the (vring_new_virtqueue_split 0 4 (zero_pages 4)))) (a_empty 4 :: nat avq)"
    using demo_split_rel by (simp add: vq_rel_def demo_split_def)
  from split_published_chain [OF this, of 1 1 demo_sg 7 0]
  obtain c vq' where r: "virtqueue_add_buf_split (the (the (vring_new_virtqueue_split 0 4 (zero_pages 4)))) demo_sg 1 1
      (Some (7 :: nat)) None 0 = Some (0, vq', None)" "length c = Suc (Suc 0)"
    and "list_all (\<lambda>j. desc_addr (sq_desc vq' ! (c ! j)) = physAddr (demo_sg ! j)) [0..<Suc (Suc 0)]"
    by (auto simp: demo_a_free demo_sg_def list_all_iff)
  then have "desc_addr (sq_desc vq' ! (c ! 0)) = 4096 \<and> desc_addr (sq_desc vq' ! (c ! 1)) = 8192"
    by (auto simp: list_all_iff demo_sg_def)
  then show ?thesis using r by (metis numeral_2_eq_2)
qed

lemma pflags_kind:
  "(pflags out n j w AND VRING_DESC_F_WRITE \<noteq> 0) = (unat out \<le> j)"
  "(pflags out n j w AND VRING_DESC_F_NEXT \<noteq> 0) = (Suc j \<noteq> n)"
  by (simp_all add: pflags_def flags_for_def packed_flag_defs not_le)

text \<open>
  C6: what the device finds in the packed ring. A successful direct add fills one slot per
  segment from the next free slot on, around the end of the ring where needed. Each
  descriptor has the address and length of its segment and the buffer id; its available bit
  is the wrap counter of the lap the slot belongs to and its used bit the opposite, so the
  device takes it for available; it is device-writable exactly from segment \<open>out\<close> on and
  linked to a successor except for the last. All other slots are left alone.
\<close>

theorem packed_published_slots:
  assumes rel: "packed_rel vq a" and n: "0 < unat out + unat inn" "unat out + unat inn \<le> a_free a"
    "unat out + unat inn \<le> length sg" "unat out + unat inn < 2 ^ 16"
  shows "\<exists>vq'. virtqueue_add_buf_packed vq sg out inn (Some p) None pa = Some (0, vq', None) \<and>
    list_all (\<lambda>j. let d = pq_desc vq' ! ((unat (next_avail_idx vq) + j) mod unat (pq_num vq)) in
        pd_addr d = physAddr (sg ! j) \<and> pd_len d = sg_length (sg ! j) \<and> pd_id d = ucast (free_head vq) \<and>
        abit d = (bit (avail_used_flags vq) VRING_PACKED_DESC_F_AVAIL =
                  (unat (next_avail_idx vq) + j < unat (pq_num vq))) \<and>
        ubit d = (\<not> abit d) \<and>
        (pd_flags d AND VRING_DESC_F_WRITE \<noteq> 0) = (unat out \<le> j) \<and>
        (pd_flags d AND VRING_DESC_F_NEXT \<noteq> 0) = (Suc j < unat out + unat inn))
      [0..<unat out + unat inn] \<and>
    filter (\<lambda>m. pq_desc vq' ! m \<noteq> pq_desc vq ! m \<and>
        m \<notin> (\<lambda>j. (unat (next_avail_idx vq) + j) mod unat (pq_num vq)) ` {0..<unat out + unat inn})
      [0..<unat (pq_num vq)] = []"
proof -
  let ?n = "unat out + unat inn" and ?x = "unat (next_avail_idx vq)" and ?N = "unat (pq_num vq)"
  have un: "unat (out + inn) = ?n" using n by (simp add: unat_plus_small)
  obtain vq' where d: "add_direct_packed vq sg out (out + inn) (Some p) = Some vq'"
    and w: "packed_written vq vq' sg out ?n"
    using add_direct_packed_rel [OF rel, of "out + inn" sg out p] un n by auto
  have run: "virtqueue_add_buf_packed vq sg out inn (Some p) None pa = Some (0, vq', None)"
    using packed_add_accepts [OF rel n(1,4,3), of None p pa] n(2) d
    by (auto simp: virtqueue_add_buf_packed_def Let_def descs_needed_def ENOSPC_def VQ_ADD_BUFFER_SUCCESS_def
        split: if_splits)
  obtain wr where wr: "avail_used_flags vq = flags_for wr"
    "\<forall>j < ?n. pq_desc vq' ! ((?x + j) mod ?N) =
        (pbody (sg ! j) (ucast (free_head vq)) (pq_desc vq ! ((?x + j) mod ?N)))
        \<lparr>pd_flags := pflags out ?n j (wr = (?x + j < ?N))\<rparr>"
    using w by (auto simp: packed_written_def)
  have bit: "bit (flags_for wr) VRING_PACKED_DESC_F_AVAIL = wr"
    by (simp add: flags_for_def packed_flag_defs)
  show ?thesis
    by (rule exI [of _ vq'])
      (use run wr w in \<open>auto simp: list_all_iff Let_def pflags_bits pflags_kind bit pbody_def
          filter_empty_conv packed_written_def image_iff\<close>)
qed

theorem packed_published_slots_witness:
  "\<exists>vq'. virtqueue_add_buf_packed (the (vring_new_virtqueue_packed 0 4
        (replicate 4 zero_packed_desc, zero_event, zero_event))) demo_sg 1 1 (Some (7 :: nat)) None 0 =
      Some (0, vq', None) \<and> pd_addr (pq_desc vq' ! 1) = 8192"
proof -
  let ?vq = "the (vring_new_virtqueue_packed 0 4
      (replicate 4 zero_packed_desc, zero_event, zero_event)) :: nat virtqueue_packed"
  have "packed_rel ?vq (a_empty 4)" using demo_packed_rel by (simp add: vq_rel_def demo_packed_def)
  moreover have "next_avail_idx ?vq = 0" "pq_num ?vq = 4" by code_simp+
  ultimately show ?thesis
    using packed_published_slots [of ?vq "a_empty 4" 1 1 demo_sg 7 0]
    by (auto simp: demo_a_free demo_sg_def Let_def)
qed

subsection \<open>Driver loops\<close>

text \<open>
  C7: the drivers' completion loop, which calls \<open>virtqueue_get_buf\<close> until it returns
  \<open>NULL\<close>, ends after one call more than there are completed buffers. It returns their
  pointers and lengths in the order of completion, and afterwards the queue reports nothing
  more to fetch.
\<close>

theorem completion_loop_drains:
  assumes "vq_rel q a"
  shows "\<exists>xs q'. fetch_all (virtqueue_get_buf ev) (Suc (length (a_done a))) q = Some (xs, q') \<and>
    map snd xs = map snd (a_done a) \<and>
    map (Some \<circ> fst) xs = map (map_option snd \<circ> a_lookup a \<circ> fst) (a_done a) \<and>
    virtqueue_has_buf q' = Some False"
proof -
  obtain xs q' where r: "fetch_all (virtqueue_get_buf ev) (Suc (length (a_done a))) q = Some (xs, q')"
    "map (\<lambda>(p, len). (Some p, len)) xs =
       map (\<lambda>(bid, len). (map_option snd (a_lookup a bid), len)) (a_done a)"
    "vq_rel q' (a\<lparr>a_out := filter (\<lambda>x. fst x \<notin> fst ` set (a_done a)) (a_out a), a_done := []\<rparr>)"
    using vq.fetch_all_done [OF assms, of "Suc (length (a_done a))" ev] by auto
  have "map fst (map (\<lambda>(p, len). (Some p, len)) xs) = map (map_option snd \<circ> a_lookup a \<circ> fst) (a_done a)"
    "map snd (map (\<lambda>(p, len). (Some p, len)) xs) = map snd (a_done a)"
    unfolding r(2) by (auto simp: comp_def split_def)
  then have "map (Some \<circ> fst) xs = map (map_option snd \<circ> a_lookup a \<circ> fst) (a_done a)"
    "map snd xs = map snd (a_done a)"
    by (auto simp: comp_def split_def)
  then show ?thesis using r(1) vq.has_iff [OF r(3)] by (auto simp del: fetch_all.simps)
qed

theorem completion_loop_drains_witness:
  "\<exists>q'. fetch_all (virtqueue_get_buf True) 2 demo_used = Some ([(7, 5)], q')"
  using completion_loop_drains [OF demo_used_rel, of True]
  by (auto simp: demo_used_done numeral_2_eq_2 map_eq_Cons_conv)
    (simp add: a_lookup_def demo_out_def a_add_def a_take_def a_complete_def a_empty_def)

text \<open>
  C8: teardown. Detaching until \<open>NULL\<close> comes back ends after one call more than there
  are buffers out and returns every pointer the queue still holds exactly once, also those
  the device never completed; shutting the queue down then leaves an empty queue of the
  same size.
\<close>

theorem teardown_returns_all:
  assumes "vq_rel q a"
  shows "\<exists>ps q' q''. detach_all virtqueue_detach_unused_buf (Suc (length (a_out a))) q = Some (ps, q') \<and>
    mset ps = a_ptrs a \<and> virtqueue_shutdown q' = Some (Some q'') \<and> vq_rel q'' (a_empty (a_size a))"
proof -
  obtain ps q' where r: "detach_all virtqueue_detach_unused_buf (Suc (length (a_out a))) q = Some (ps, q')"
    "mset ps = a_ptrs a" "vq_owned q' (a_size a) []"
    using vq_cleanup.detach_all_ptrs [OF vq_cleanup.rel_owned [OF assms], of "Suc (length (a_out a))"]
    by (auto simp: a_ptrs_def)
  then show ?thesis using vq_cleanup.shutdown_rel [OF r(3)] by blast
qed

theorem teardown_returns_all_witness:
  "\<exists>q' q''. detach_all virtqueue_detach_unused_buf 2 demo_added = Some ([7], q') \<and>
     virtqueue_shutdown q' = Some (Some q'') \<and> vq_rel q'' (a_empty 4)"
  using teardown_returns_all [OF demo_added_rel]
  by (auto simp: demo_out_def a_add_def a_empty_def a_ptrs_def numeral_2_eq_2)

subsection \<open>Notifications\<close>





lemma unat_add_mod_16: "unat (x + y :: u16) = (unat x + unat y) mod 65536"
  by (simp add: unat_word_ariths)

lemma unat_minus_one_16: "unat (- 1 :: u16) = 65535"
  by (simp add: unsigned_minus_1_eq_mask mask_eq_exp_minus_1)

lemma borrow_iff:
  fixes d x :: u16
  shows "d - x - 1 < d \<longleftrightarrow> x < d"
proof (cases "x < d")
  case True
  then have "unat (x + 1) = Suc (unat x)" by (intro unat_Suc_small) (use unat_lt_16 [of d] in \<open>auto simp: word_less_nat_alt\<close>)
  moreover from this have "unat (d - (x + 1)) = unat d - Suc (unat x)"
    using True by (subst unat_minus_le) (auto simp: word_le_nat_alt word_less_nat_alt)
  ultimately show ?thesis using True by (simp add: word_less_nat_alt algebra_simps)
next
  case False
  then have "unat (x - d) = unat x - unat d" by (intro unat_minus_le) simp
  moreover have "unat (d - x - 1) + unat (x - d) = 65535"
  proof -
    have "(d - x - 1) + (x - d) = - 1" by simp
    then have "(unat (d - x - 1) + unat (x - d)) mod 65536 = 65535"
      by (metis unat_add_mod_16 unat_minus_one_16)
    then show ?thesis using unat_lt_16 [of "d - x - 1"] unat_lt_16 [of "x - d"]
      by (cases "unat (d - x - 1) + unat (x - d) < 65536") (simp_all add: le_mod_geq)
  qed
  ultimately show ?thesis using False unat_lt_16 [of x] by (simp add: word_less_nat_alt)
qed

lemma need_event_window:
  "vring_need_event e new old \<longleftrightarrow> (\<exists>k < unat (new - old). e = old + word_of_nat k)"
proof -
  have "new - e - 1 = (new - old) - (e - old) - 1" by simp
  then have "vring_need_event e new old \<longleftrightarrow> unat (e - old) < unat (new - old)"
    using borrow_iff [of "new - old" "e - old"] by (simp add: vring_need_event_def word_less_nat_alt)
  also have "\<dots> \<longleftrightarrow> (\<exists>k < unat (new - old). e = old + word_of_nat k)"
  proof
    assume "unat (e - old) < unat (new - old)"
    then show "\<exists>k < unat (new - old). e = old + word_of_nat k"
      by (intro exI [of _ "unat (e - old)"]) simp
  next
    assume "\<exists>k < unat (new - old). e = old + word_of_nat k"
    then obtain k where "k < unat (new - old)" "e - old = word_of_nat k" by auto
    then show "unat (e - old) < unat (new - old)"
      using unat_lt_16 [of "new - old"] by (simp add: unat_of_nat_small)
  qed
  finally show ?thesis .
qed

lemma kick_window:
  fixes n :: u32
  shows "2 ^ 16 \<le> n \<or> vring_need_event e m (m - ucast n) \<longleftrightarrow>
     (\<exists>k < unat n. e = m - ucast n + word_of_nat k)"
proof (cases "2 ^ 16 \<le> n")
  case True
  have "unat (e - (m - ucast n)) < 2 ^ 16" using unat_lt_16 [of "e - (m - ucast n)"] by simp
  also have "\<dots> \<le> unat n" using True by (simp add: word_le_nat_alt)
  finally show ?thesis using True by (auto intro!: exI [of _ "unat (e - (m - ucast n))"])
next
  case False
  then have "unat (ucast n :: u16) = unat n" by (intro unat_ucast_32_16) (simp add: word_le_nat_alt)
  then show ?thesis using False by (simp add: need_event_window)
qed

text \<open>
  C10: the driver notifies the device exactly when it has to. With event suppression, the
  16-bit arithmetic of \<open>vring_need_event\<close> together with the wrap-around test of
  \<open>virtqueue_kick_prepare_split\<close> says yes if and only if the event index the device asked
  for is one of the indices published since the last kick, also when the indices wrap and
  when \<open>2 ^ 16\<close> or more buffers were added; without it, unless the device set
  \<open>NO_NOTIFY\<close>. The count of added buffers restarts at zero.
\<close>

theorem kick_prepare_exact:
  "virtqueue_kick_prepare_split ev vq =
     (if ev then (\<exists>k < unat (num_added_since_kick vq).
                    used_avail_event (sq_used vq) = master_idx vq - ucast (num_added_since_kick vq) + word_of_nat k)
      else used_flags (sq_used vq) AND VIRTQ_USED_F_NO_NOTIFY = 0,
      vq\<lparr>num_added_since_kick := 0\<rparr>)"
  using kick_window [of "num_added_since_kick vq" "used_avail_event (sq_used vq)" "master_idx vq"]
  by (simp add: virtqueue_kick_prepare_split_def Let_def)

subsection \<open>Ring memory\<close>








subsection \<open>Deviations\<close>


text \<open>
  C30: the delayed variant misjudges a used index that has wrapped. The final comparison
  promotes both 16-bit indices to \<open>int\<close>, so whenever the used index is numerically below
  the last one seen, the routine answers true, that is \<open>no more than the threshold is
  pending\<close>, however many buffers the device has completed.
\<close>

theorem enable_cb_delayed_wrapped:
  assumes "used_idx (sq_used vq) < last_used vq" "unat (sq_num vq) < length (avail_ring (sq_avail vq))"
  shows "\<exists>vq'. virtqueue_enable_cb_delayed_split ev vq = Some (True, vq')"
proof -
  have "uint (used_idx (sq_used vq)) - uint (last_used vq) \<le> uint m" for m :: u16
    using assms(1) uint_nonnegative [of m] unfolding word_less_def by linarith
  then show ?thesis using assms(2)
    by (auto simp: virtqueue_enable_cb_delayed_split_def Let_def set_used_event_def clear_no_interrupt_def)
qed

definition demo_wrapped :: "nat virtqueue_split" where
  "demo_wrapped = (let vq = the (the (vring_new_virtqueue_split 0 4 (zero_pages 4))) in
     vq\<lparr>last_used := 65535, master_idx := 1, sq_used := (sq_used vq)\<lparr>used_idx := 1\<rparr>\<rparr>)"

theorem enable_cb_delayed_wrapped_witness:
  "\<exists>vq'. virtqueue_enable_cb_delayed_split True demo_wrapped = Some (True, vq') \<and>
     unat (used_idx (sq_used demo_wrapped) - last_used demo_wrapped) = 2"
proof -
  have "used_idx (sq_used demo_wrapped) < last_used demo_wrapped" by code_simp
  moreover have "unat (sq_num demo_wrapped) < length (avail_ring (sq_avail demo_wrapped))" by code_simp
  moreover have "unat (used_idx (sq_used demo_wrapped) - last_used demo_wrapped) = 2" by code_simp
  ultimately show ?thesis using enable_cb_delayed_wrapped [of demo_wrapped True] by simp
qed

end
