(* ===== verification/PciTypes.thy ===== *)
theory PciTypes
  imports Virtqueue "HOL-Library.State_Monad"
begin

text \<open>
  Types shared by the PCI transports (\<^verbatim>\<open>src/VirtIO/virtio_pci.h\<close>,
  \<^verbatim>\<open>src/VirtIO/virtio_pci_common.h\<close>): the device structure, the callbacks of the driver
  model and the feature macros.

  The callbacks of \<open>VirtIOSystemOps\<close> are supplied by each driver and reach hardware and
  operating system; they are a parameter, a record of state transformers over an
  abstract world \<open>'w\<close>. A pointer is its address, \<open>0\<close> is \<open>NULL\<close>. The contents of ring
  memory that the ring constructors find at an address are a parameter too.
\<close>

subsection \<open>Constants\<close>

definition VIRTIO_CONFIG_S_ACKNOWLEDGE :: u8 where "VIRTIO_CONFIG_S_ACKNOWLEDGE = 1"
definition VIRTIO_CONFIG_S_DRIVER :: u8 where "VIRTIO_CONFIG_S_DRIVER = 2"
definition VIRTIO_CONFIG_S_DRIVER_OK :: u8 where "VIRTIO_CONFIG_S_DRIVER_OK = 4"
definition VIRTIO_CONFIG_S_FEATURES_OK :: u8 where "VIRTIO_CONFIG_S_FEATURES_OK = 8"
definition VIRTIO_TRANSPORT_F_START :: nat where "VIRTIO_TRANSPORT_F_START = 28"
definition VIRTIO_TRANSPORT_F_END :: nat where "VIRTIO_TRANSPORT_F_END = 32"
definition VIRTIO_RING_F_INDIRECT_DESC :: nat where "VIRTIO_RING_F_INDIRECT_DESC = 28"
definition VIRTIO_RING_F_EVENT_IDX :: nat where "VIRTIO_RING_F_EVENT_IDX = 29"
definition VIRTIO_F_VERSION_1 :: nat where "VIRTIO_F_VERSION_1 = 32"
definition VIRTIO_F_RING_PACKED :: nat where "VIRTIO_F_RING_PACKED = 34"
definition VIRTIO_MSI_NO_VECTOR :: u16 where "VIRTIO_MSI_NO_VECTOR = 0xffff"
definition PAGE_SIZE :: u32 where "PAGE_SIZE = 4096"
definition SMP_CACHE_BYTES :: u32 where "SMP_CACHE_BYTES = 64"
definition PCI_TYPE0_ADDRESSES :: nat where "PCI_TYPE0_ADDRESSES = 6"

definition ROUND_TO_PAGES :: "u32 \<Rightarrow> u32" where
  "ROUND_TO_PAGES n = (n + PAGE_SIZE - 1) AND NOT (PAGE_SIZE - 1)"

subsection \<open>Features\<close>

definition virtio_is_feature_enabled :: "u64 \<Rightarrow> nat \<Rightarrow> bool" where
  "virtio_is_feature_enabled fs f \<longleftrightarrow> fs AND push_bit f 1 \<noteq> 0"

definition virtio_feature_enable :: "u64 \<Rightarrow> nat \<Rightarrow> u64" where
  "virtio_feature_enable fs f = fs OR push_bit f 1"

definition virtio_feature_disable :: "u64 \<Rightarrow> nat \<Rightarrow> u64" where
  "virtio_feature_disable fs f = fs AND NOT (push_bit f 1)"

text \<open>The loop over the transport feature bits (\<^verbatim>\<open>VirtIORing.c\<close>).\<close>

definition vring_transport_features :: "u64 \<Rightarrow> u64" where
  "vring_transport_features features =
     foldl (\<lambda>fs i. if i \<noteq> VIRTIO_RING_F_INDIRECT_DESC \<and> i \<noteq> VIRTIO_RING_F_EVENT_IDX \<and> i \<noteq> VIRTIO_F_VERSION_1
                   then virtio_feature_disable fs i else fs)
       features [VIRTIO_TRANSPORT_F_START..<VIRTIO_TRANSPORT_F_END]"

subsection \<open>Callbacks of the driver model\<close>

record 'w system_ops =
  vdev_read_byte :: "u64 \<Rightarrow> ('w, u8) state"
  vdev_read_word :: "u64 \<Rightarrow> ('w, u16) state"
  vdev_read_dword :: "u64 \<Rightarrow> ('w, u32) state"
  vdev_write_byte :: "u64 \<Rightarrow> u8 \<Rightarrow> ('w, unit) state"
  vdev_write_word :: "u64 \<Rightarrow> u16 \<Rightarrow> ('w, unit) state"
  vdev_write_dword :: "u64 \<Rightarrow> u32 \<Rightarrow> ('w, unit) state"
  mem_alloc_contiguous_pages :: "u64 \<Rightarrow> ('w, u64) state"
  mem_free_contiguous_pages :: "u64 \<Rightarrow> ('w, unit) state"
  mem_get_physical_address :: "u64 \<Rightarrow> ('w, u64) state"
  mem_alloc_nonpaged_block :: "u64 \<Rightarrow> ('w, u64) state"
  mem_free_nonpaged_block :: "u64 \<Rightarrow> ('w, unit) state"
  pci_read_config_byte :: "int \<Rightarrow> ('w, int \<times> u8) state"
  pci_read_config_word :: "int \<Rightarrow> ('w, int \<times> u16) state"
  pci_read_config_dword :: "int \<Rightarrow> ('w, int \<times> u32) state"
  pci_get_resource_len :: "int \<Rightarrow> ('w, u64) state"
  pci_map_address_range :: "int \<Rightarrow> u64 \<Rightarrow> u64 \<Rightarrow> ('w, u64) state"
  vdev_get_msix_vector :: "int \<Rightarrow> ('w, u16) state"
  vdev_sleep :: "u32 \<Rightarrow> ('w, unit) state"

text \<open>
  The macro of \<^verbatim>\<open>virtio_pci_common.h\<close> that writes a 64-bit register in two halves. It
  mentions its argument twice, so the call that computes the value runs twice.
\<close>

definition iowrite64_twopart :: "'w system_ops \<Rightarrow> ('w, u64) state \<Rightarrow> u64 \<Rightarrow> u64 \<Rightarrow> ('w, unit) state" where
  "iowrite64_twopart ops val lo hi = do {
     v \<leftarrow> val;
     vdev_write_dword ops lo (ucast v);
     v' \<leftarrow> val;
     vdev_write_dword ops hi (ucast (drop_bit 32 v'))
   }"

subsection \<open>The device\<close>

text \<open>
  \<open>struct virtqueue\<close> with the fields that are the same for both layouts; \<open>vqo_mem\<close> is the
  address of the control structure.
\<close>

record 'o virtqueue_obj =
  vqo_index :: u32
  vqo_ring :: "'o vqueue"
  notification_addr :: u64
  avail_va :: u64
  used_va :: u64
  vqo_mem :: u64

record 'o virtio_queue_info =
  info_vq :: "'o virtqueue_obj option"
  info_num :: u16
  info_queue :: u64

text \<open>What the constructors find in memory: the ring pages, a block of queue infos; and the sizes of the control structures.\<close>

record ('o, 'w) ring_memory =
  split_pages :: "u64 \<Rightarrow> u32 \<Rightarrow> u32 \<Rightarrow> 'w \<Rightarrow> vring_desc list \<times> vring_avail \<times> vring_used"
  packed_pages :: "u64 \<Rightarrow> u32 \<Rightarrow> 'w \<Rightarrow> vring_packed_desc list \<times> vring_packed_desc_event \<times> vring_packed_desc_event"
  info_entries :: "u64 \<Rightarrow> u32 \<Rightarrow> 'w \<Rightarrow> 'o virtio_queue_info list"
  sizeof_virtqueue_split :: u32
  sizeof_virtqueue_packed :: u32
  sizeof_desc_state :: u32
  sizeof_queue_info :: u32

datatype device_ops = NoDevice | ModernDevice | LegacyDevice

datatype info_ptr = InfoNull | InfoInline | InfoBlock u64

record 'o virtio_device =
  dev_addr :: u64
  msix_used :: bool
  event_suppression_enabled :: bool
  packed_ring :: bool
  device :: device_ops
  dev_isr :: u64
  common :: u64
  config :: u64
  notify_base :: u64
  notify_map_cap :: int
  notify_offset_multiplier :: u32
  config_len :: u64
  notify_len :: u64
  shmem_base :: u64
  shmem_len :: u64
  shmem_offset :: u64
  shmem_bar :: u8
  shmem_id :: u32
  maxQueues :: u32
  dev_info_ptr :: info_ptr
  dev_info :: "'o virtio_queue_info list"

definition MAX_QUEUES_PER_DEVICE_DEFAULT :: u32 where "MAX_QUEUES_PER_DEVICE_DEFAULT = 8"

definition zero_info :: "'o virtio_queue_info" where
  "zero_info = \<lparr>info_vq = None, info_num = 0, info_queue = 0\<rparr>"

text \<open>
  Code with a loop that may not end, or that may run through a \<open>NULL\<close> operations table,
  has the type \<open>'w \<Rightarrow> ('a \<times> 'w) option\<close>; \<open>lift\<close> turns a total step into one.
\<close>

type_synonym ('w, 'a) run = "'w \<Rightarrow> ('a \<times> 'w) option"

definition lift :: "('w, 'a) state \<Rightarrow> ('w, 'a) run" where
  "lift m w = Some (run_state m w)"

text \<open>Multi-byte registers in a caller's buffer, least significant byte first.\<close>

definition bytes_of_u16 :: "u16 \<Rightarrow> u8 list" where
  "bytes_of_u16 v = [ucast v, ucast (drop_bit 8 v)]"

definition bytes_of_u32 :: "u32 \<Rightarrow> u8 list" where
  "bytes_of_u32 v = [ucast v, ucast (drop_bit 8 v), ucast (drop_bit 16 v), ucast (drop_bit 24 v)]"

fun le_of_bytes :: "u8 list \<Rightarrow> 'a::len word" where
  "le_of_bytes [] = 0"
| "le_of_bytes (b # bs) = ucast b OR push_bit 8 (le_of_bytes bs)"

subsection \<open>Creating the rings\<close>

text \<open>
  The two constructors at the level of \<open>struct virtqueue\<close>: the ring memory is what lies at
  \<open>pages\<close>, \<open>avail_va\<close> and \<open>used_va\<close> are computed from it.
\<close>

definition new_virtqueue_split ::
  "('o, 'w) ring_memory \<Rightarrow> u32 \<Rightarrow> u32 \<Rightarrow> u32 \<Rightarrow> u64 \<Rightarrow> u64 \<Rightarrow> 'w \<Rightarrow> 'o virtqueue_obj option option" where
  "new_virtqueue_split mem index num align pages control w = do {
     r \<leftarrow> vring_new_virtqueue_split index num (split_pages mem pages num align w);
     Some (case r of
        None \<Rightarrow> None
      | Some vq \<Rightarrow>
          (case vring_init num pages align of (_, avail, used) \<Rightarrow>
             Some \<lparr>vqo_index = index, vqo_ring = SplitVq vq, notification_addr = 0,
                   avail_va = avail, used_va = used, vqo_mem = control\<rparr>))
   }"

definition new_virtqueue_packed ::
  "('o, 'w) ring_memory \<Rightarrow> u32 \<Rightarrow> u32 \<Rightarrow> u64 \<Rightarrow> u64 \<Rightarrow> 'w \<Rightarrow> 'o virtqueue_obj option option" where
  "new_virtqueue_packed mem index num pages control w = do {
     vq \<leftarrow> vring_new_virtqueue_packed index num (packed_pages mem pages num w);
     let avail = pages + ucast num * 16;
     Some (Some \<lparr>vqo_index = index, vqo_ring = PackedVq vq, notification_addr = 0,
                 avail_va = avail, used_va = avail + 4, vqo_mem = control\<rparr>)
   }"

subsection \<open>Running programs\<close>

lemma run_bindE:
  assumes "run_state (m \<bind> f) w = r"
  obtains a w1 where "run_state m w = (a, w1)" "run_state (f a) w1 = r"
  using assms by (auto split: prod.splits)

lemma lift_bindE:
  assumes "lift m w \<bind> f = Some r"
  obtains a w1 where "run_state m w = (a, w1)" "f (a, w1) = Some r"
  using assms by (cases "run_state m w") (simp add: lift_def)

lemma some_bindE:
  assumes "x \<bind> f = Some r"
  obtains a where "x = Some a" "f a = Some r"
  using assms by (cases x) auto

lemma liftE:
  assumes "lift m w = Some (a, w1)"
  obtains "run_state m w = (a, w1)"
  using assms by (simp add: lift_def)

lemma lift_bind [simp]: "lift m w \<bind> f = f (run_state m w)"
  by (simp add: lift_def)

subsection \<open>Feature masks\<close>

lemma feature_enabled_bit: "virtio_is_feature_enabled fs f \<longleftrightarrow> bit fs f"
  by (simp add: virtio_is_feature_enabled_def bit_iff_and_push_bit_not_eq_0)

lemma feature_disable_bit: "bit (virtio_feature_disable fs f) i \<longleftrightarrow> bit fs i \<and> i \<noteq> f"
  by (auto simp: virtio_feature_disable_def bit_and_iff bit_not_iff bit_exp_iff
      dest: bit_imp_possible_bit)

lemma feature_enable_bit: "f < 64 \<Longrightarrow> bit (virtio_feature_enable fs f) i \<longleftrightarrow> bit fs i \<or> i = f"
  by (auto simp: virtio_feature_enable_def bit_or_iff bit_exp_iff)

lemma vring_transport_features_bit:
  "bit (vring_transport_features fs) i \<longleftrightarrow> bit fs i \<and> i \<noteq> 30 \<and> i \<noteq> 31"
proof -
  have "[VIRTIO_TRANSPORT_F_START..<VIRTIO_TRANSPORT_F_END] = [28, 29, 30, 31]"
    by (simp add: VIRTIO_TRANSPORT_F_START_def VIRTIO_TRANSPORT_F_END_def upt_rec)
  then show ?thesis
    by (auto simp: vring_transport_features_def feature_disable_bit VIRTIO_RING_F_INDIRECT_DESC_def
        VIRTIO_RING_F_EVENT_IDX_def VIRTIO_F_VERSION_1_def)
qed

end
