(* ===== verification/PciModern.thy ===== *)
theory PciModern
  imports PciTypes
begin

text \<open>
  The modern (virtio 1.0) PCI transport, \<^verbatim>\<open>src/VirtIO/VirtIOPCIModern.c\<close>: discovery and
  mapping of the vendor capabilities, the register accesses of the common configuration
  structure, and creation and deletion of queues.
\<close>

subsection \<open>Offsets of the configuration structures\<close>

definition cfg_device_feature_select :: u64 where "cfg_device_feature_select = 0"
definition cfg_device_feature :: u64 where "cfg_device_feature = 4"
definition cfg_guest_feature_select :: u64 where "cfg_guest_feature_select = 8"
definition cfg_guest_feature :: u64 where "cfg_guest_feature = 12"
definition cfg_msix_config :: u64 where "cfg_msix_config = 16"
definition cfg_num_queues :: u64 where "cfg_num_queues = 18"
definition cfg_device_status :: u64 where "cfg_device_status = 20"
definition cfg_config_generation :: u64 where "cfg_config_generation = 21"
definition cfg_queue_select :: u64 where "cfg_queue_select = 22"
definition cfg_queue_size :: u64 where "cfg_queue_size = 24"
definition cfg_queue_msix_vector :: u64 where "cfg_queue_msix_vector = 26"
definition cfg_queue_enable :: u64 where "cfg_queue_enable = 28"
definition cfg_queue_notify_off :: u64 where "cfg_queue_notify_off = 30"
definition cfg_queue_desc_lo :: u64 where "cfg_queue_desc_lo = 32"
definition cfg_queue_desc_hi :: u64 where "cfg_queue_desc_hi = 36"
definition cfg_queue_avail_lo :: u64 where "cfg_queue_avail_lo = 40"
definition cfg_queue_avail_hi :: u64 where "cfg_queue_avail_hi = 44"
definition cfg_queue_used_lo :: u64 where "cfg_queue_used_lo = 48"
definition cfg_queue_used_hi :: u64 where "cfg_queue_used_hi = 52"
definition sizeof_common_cfg :: u64 where "sizeof_common_cfg = 56"

definition cap_cfg_type :: int where "cap_cfg_type = 3"
definition cap_bar :: int where "cap_bar = 4"
definition cap_id :: int where "cap_id = 5"
definition cap_offset_lo :: int where "cap_offset_lo = 8"
definition cap_length_lo :: int where "cap_length_lo = 12"
definition cap_offset_hi :: int where "cap_offset_hi = 16"
definition cap_length_hi :: int where "cap_length_hi = 20"
definition cap_notify_off_multiplier :: int where "cap_notify_off_multiplier = 16"

definition VIRTIO_PCI_CAP_COMMON_CFG :: nat where "VIRTIO_PCI_CAP_COMMON_CFG = 1"
definition VIRTIO_PCI_CAP_NOTIFY_CFG :: nat where "VIRTIO_PCI_CAP_NOTIFY_CFG = 2"
definition VIRTIO_PCI_CAP_ISR_CFG :: nat where "VIRTIO_PCI_CAP_ISR_CFG = 3"
definition VIRTIO_PCI_CAP_DEVICE_CFG :: nat where "VIRTIO_PCI_CAP_DEVICE_CFG = 4"
definition VIRTIO_PCI_CAP_SHARED_MEMORY_CFG :: nat where "VIRTIO_PCI_CAP_SHARED_MEMORY_CFG = 8"
definition VIRTIO_PCI_CAP_MAX :: nat where "VIRTIO_PCI_CAP_MAX = 9"

definition SIZE_MAX :: u64 where "SIZE_MAX = 0xffffffffffffffff"

subsection \<open>Mapping capabilities\<close>

text \<open>
  The result is the mapped address and, when the routine got as far as writing it, the
  value for \<open>*len\<close>.
\<close>

definition vio_modern_map_capability ::
  "'w system_ops \<Rightarrow> int \<Rightarrow> u64 \<Rightarrow> u32 \<Rightarrow> u32 \<Rightarrow> u32 \<Rightarrow> ('w, u64 \<times> u64 option) state" where
  "vio_modern_map_capability ops cap_offset minlen alignment start sz = do {
     (_, bar) \<leftarrow> pci_read_config_byte ops (cap_offset + cap_bar);
     (_, bar_offset) \<leftarrow> pci_read_config_dword ops (cap_offset + cap_offset_lo);
     (_, bar_length) \<leftarrow> pci_read_config_dword ops (cap_offset + cap_length_lo);
     if ucast start + minlen > ucast bar_length then State_Monad.return (0, None)
     else
       let bar_length1 = bar_length - start;
           bar_offset1 = bar_offset + start
       in if bar_offset1 AND (alignment - 1) \<noteq> 0 then State_Monad.return (0, None)
          else
            let bar_length2 = (if bar_length1 > sz then sz else bar_length1)
            in do {
              res_len \<leftarrow> pci_get_resource_len ops (uint bar);
              if ucast bar_offset1 + minlen > res_len then State_Monad.return (0, Some (ucast bar_length2))
              else do {
                addr \<leftarrow> pci_map_address_range ops (uint bar) (ucast bar_offset1) (ucast bar_length2);
                State_Monad.return (addr, Some (ucast bar_length2))
              }
            }
   }"

definition vio_modern_map_simple_capability ::
  "'w system_ops \<Rightarrow> int \<Rightarrow> u64 \<Rightarrow> u32 \<Rightarrow> ('w, u64) state" where
  "vio_modern_map_simple_capability ops cap_offset len alignment = do {
     (addr, _) \<leftarrow> vio_modern_map_capability ops cap_offset len alignment 0 (ucast len);
     State_Monad.return addr
   }"

definition vio_modern_map_shared_memory_capability ::
  "'w system_ops \<Rightarrow> 'o virtio_device \<Rightarrow> int \<Rightarrow> ('w, 'o virtio_device) state" where
  "vio_modern_map_shared_memory_capability ops vdev cap_offset = do {
     (_, bar) \<leftarrow> pci_read_config_byte ops (cap_offset + cap_bar);
     (_, shm_id) \<leftarrow> pci_read_config_byte ops (cap_offset + cap_id);
     (_, off_lo) \<leftarrow> pci_read_config_dword ops (cap_offset + cap_offset_lo);
     (_, len_lo) \<leftarrow> pci_read_config_dword ops (cap_offset + cap_length_lo);
     (_, off_hi) \<leftarrow> pci_read_config_dword ops (cap_offset + cap_offset_hi);
     (_, len_hi) \<leftarrow> pci_read_config_dword ops (cap_offset + cap_length_hi);
     let offset = push_bit 32 (ucast off_hi) OR ucast off_lo;
     let len = push_bit 32 (ucast len_hi) OR ucast len_lo;
     if len = 0 then State_Monad.return vdev
     else if offset > SIZE_MAX \<or> len > SIZE_MAX \<or> offset + len > SIZE_MAX then State_Monad.return vdev
     else if unat bar \<ge> PCI_TYPE0_ADDRESSES then State_Monad.return vdev
     else do {
       res_len \<leftarrow> pci_get_resource_len ops (uint bar);
       if offset + len > res_len then State_Monad.return vdev
       else State_Monad.return
              (vdev\<lparr>shmem_base := 0, shmem_len := len, shmem_offset := offset, shmem_bar := bar,
                    shmem_id := ucast shm_id\<rparr>)
     }
   }"

subsection \<open>Device configuration\<close>

text \<open>The bytes written to \<open>buf\<close>, \<open>None\<close> when the routine returns without writing.\<close>

definition vio_modern_get_config ::
  "'w system_ops \<Rightarrow> 'o virtio_device \<Rightarrow> u32 \<Rightarrow> u32 \<Rightarrow> ('w, u8 list option) state" where
  "vio_modern_get_config ops vdev offset len =
     (if config vdev = 0 then State_Monad.return None
      else if ucast (offset + len) > config_len vdev then State_Monad.return None
      else if len = 1 then do {
        v \<leftarrow> vdev_read_byte ops (config vdev + ucast offset);
        State_Monad.return (Some [v])
      }
      else if len = 2 then do {
        v \<leftarrow> vdev_read_word ops (config vdev + ucast offset);
        State_Monad.return (Some (bytes_of_u16 v))
      }
      else if len = 4 then do {
        v \<leftarrow> vdev_read_dword ops (config vdev + ucast offset);
        State_Monad.return (Some (bytes_of_u32 v))
      }
      else State_Monad.return None)"

definition vio_modern_set_config ::
  "'w system_ops \<Rightarrow> 'o virtio_device \<Rightarrow> u32 \<Rightarrow> u8 list \<Rightarrow> u32 \<Rightarrow> ('w, unit) state" where
  "vio_modern_set_config ops vdev offset buf len =
     (if config vdev = 0 then State_Monad.return ()
      else if ucast (offset + len) > config_len vdev then State_Monad.return ()
      else if len = 1 then vdev_write_byte ops (config vdev + ucast offset) (le_of_bytes (take 1 buf))
      else if len = 2 then vdev_write_word ops (config vdev + ucast offset) (le_of_bytes (take 2 buf))
      else if len = 4 then vdev_write_dword ops (config vdev + ucast offset) (le_of_bytes (take 4 buf))
      else State_Monad.return ())"

definition vio_modern_get_generation :: "'w system_ops \<Rightarrow> 'o virtio_device \<Rightarrow> ('w, u32) state" where
  "vio_modern_get_generation ops vdev = do {
     g \<leftarrow> vdev_read_byte ops (common vdev + cfg_config_generation);
     State_Monad.return (ucast g)
   }"

subsection \<open>Status and reset\<close>

definition vio_modern_get_status :: "'w system_ops \<Rightarrow> 'o virtio_device \<Rightarrow> ('w, u8) state" where
  "vio_modern_get_status ops vdev = vdev_read_byte ops (common vdev + cfg_device_status)"

definition vio_modern_set_status :: "'w system_ops \<Rightarrow> 'o virtio_device \<Rightarrow> u8 \<Rightarrow> ('w, unit) state" where
  "vio_modern_set_status ops vdev status = vdev_write_byte ops (common vdev + cfg_device_status) status"

text \<open>The loop that waits for the device to report status 0, or for its removal.\<close>

partial_function (option) reset_wait ::
  "'w system_ops \<Rightarrow> u64 \<Rightarrow> 'w \<Rightarrow> (unit \<times> 'w) option" where
  "reset_wait ops common_addr w = do {
     (status, w1) \<leftarrow> lift (vdev_read_byte ops (common_addr + cfg_device_status)) w;
     if status = 0 then Some ((), w1)
     else do {
       ((rc, val), w2) \<leftarrow> lift (pci_read_config_word ops 0) w1;
       if rc \<noteq> 0 \<or> val = 0xffff then Some ((), w2)
       else do {
         (_, w3) \<leftarrow> lift (vdev_sleep ops 1) w2;
         reset_wait ops common_addr w3
       }
     }
   }"

declare reset_wait.simps [code]

definition vio_modern_reset :: "'w system_ops \<Rightarrow> 'o virtio_device \<Rightarrow> ('w, unit) run" where
  "vio_modern_reset ops vdev w = do {
     (_, w1) \<leftarrow> lift (vdev_write_byte ops (common vdev + cfg_device_status) 0) w;
     reset_wait ops (common vdev) w1
   }"

subsection \<open>Features and vectors\<close>

definition vio_modern_get_features :: "'w system_ops \<Rightarrow> 'o virtio_device \<Rightarrow> ('w, u64) state" where
  "vio_modern_get_features ops vdev = do {
     vdev_write_dword ops (common vdev + cfg_device_feature_select) 0;
     lo \<leftarrow> vdev_read_dword ops (common vdev + cfg_device_feature);
     vdev_write_dword ops (common vdev + cfg_device_feature_select) 1;
     hi \<leftarrow> vdev_read_dword ops (common vdev + cfg_device_feature);
     State_Monad.return (ucast lo OR push_bit 32 (ucast hi))
   }"

definition vio_modern_set_features ::
  "'w system_ops \<Rightarrow> 'o virtio_device \<Rightarrow> u64 \<Rightarrow> ('w, ntstatus) state" where
  "vio_modern_set_features ops vdev fs =
     (let features = vring_transport_features fs
      in if \<not> virtio_is_feature_enabled features VIRTIO_F_VERSION_1
         then State_Monad.return STATUS_INVALID_PARAMETER
         else do {
           vdev_write_dword ops (common vdev + cfg_guest_feature_select) 0;
           vdev_write_dword ops (common vdev + cfg_guest_feature) (ucast features);
           vdev_write_dword ops (common vdev + cfg_guest_feature_select) 1;
           vdev_write_dword ops (common vdev + cfg_guest_feature) (ucast (drop_bit 32 features));
           State_Monad.return STATUS_SUCCESS
         })"

definition vio_modern_set_config_vector ::
  "'w system_ops \<Rightarrow> 'o virtio_device \<Rightarrow> u16 \<Rightarrow> ('w, u16) state" where
  "vio_modern_set_config_vector ops vdev vector = do {
     vdev_write_word ops (common vdev + cfg_msix_config) vector;
     vdev_read_word ops (common vdev + cfg_msix_config)
   }"

definition vio_modern_set_queue_vector ::
  "'w system_ops \<Rightarrow> 'o virtio_device \<Rightarrow> u32 \<Rightarrow> u16 \<Rightarrow> ('w, u16) state" where
  "vio_modern_set_queue_vector ops vdev index vector = do {
     vdev_write_word ops (common vdev + cfg_queue_select) (ucast index);
     vdev_write_word ops (common vdev + cfg_queue_msix_vector) vector;
     vdev_read_word ops (common vdev + cfg_queue_msix_vector)
   }"

subsection \<open>Queues\<close>

definition vring_pci_size :: "u16 \<Rightarrow> bool \<Rightarrow> u64" where
  "vring_pci_size num packed = ucast (ROUND_TO_PAGES (vring_size (ucast num) SMP_CACHE_BYTES packed))"

definition control_block_size :: "('o, 'w) ring_memory \<Rightarrow> u16 \<Rightarrow> bool \<Rightarrow> u32" where
  "control_block_size mem num packed =
     vring_control_block_size (sizeof_virtqueue_split mem) (sizeof_virtqueue_packed mem)
       (sizeof_desc_state mem) num packed"

text \<open>The three out parameters, or the error status.\<close>

definition vio_modern_query_vq_alloc ::
  "'w system_ops \<Rightarrow> ('o, 'w) ring_memory \<Rightarrow> 'o virtio_device \<Rightarrow> u32
     \<Rightarrow> ('w, ntstatus + (u16 \<times> u32 \<times> u32)) state" where
  "vio_modern_query_vq_alloc ops mem vdev index = do {
     nq \<leftarrow> vdev_read_word ops (common vdev + cfg_num_queues);
     if index \<ge> ucast nq then State_Monad.return (Inl STATUS_NOT_FOUND)
     else do {
       vdev_write_word ops (common vdev + cfg_queue_select) (ucast index);
       num \<leftarrow> vdev_read_word ops (common vdev + cfg_queue_size);
       State_Monad.return
         (if num = 0 then Inl STATUS_NOT_FOUND
          else if num AND (num - 1) \<noteq> 0 then Inl STATUS_INVALID_PARAMETER
          else Inr (num, ucast (vring_pci_size num (packed_ring vdev)),
                    control_block_size mem num (packed_ring vdev)))
     }
   }"

lemma unat_half_less: "0 < (num :: u16) \<Longrightarrow> unat (num div 2) < unat num"
  by (simp add: unat_div word_gt_0 unat_gt_0)

text \<open>The loop that scales the queue down until the allocation succeeds.\<close>

function alloc_scaled ::
  "'w system_ops \<Rightarrow> bool \<Rightarrow> u16 \<Rightarrow> 'w \<Rightarrow> (u64 \<times> u16) \<times> 'w" where
  "alloc_scaled ops packed num w =
     (let (queue, w1) = run_state (mem_alloc_contiguous_pages ops (vring_pci_size num packed)) w
      in if queue \<noteq> 0 then ((queue, num), w1)
         else if num > 0 then alloc_scaled ops packed (num div 2) w1
         else ((0, num), w1))"
  by pat_completeness auto

termination
  by (relation "measure (\<lambda>(ops, packed, num, w). unat num)") (auto simp: unat_half_less)

declare alloc_scaled.simps [simp del]

text \<open>The registers of a queue that is being activated.\<close>

definition modern_activate ::
  "'w system_ops \<Rightarrow> 'o virtio_device \<Rightarrow> u16 \<Rightarrow> u64 \<Rightarrow> 'o virtqueue_obj \<Rightarrow> ('w, unit) state" where
  "modern_activate ops vdev num queue vq = do {
     vdev_write_word ops (common vdev + cfg_queue_size) num;
     iowrite64_twopart ops (mem_get_physical_address ops queue)
       (common vdev + cfg_queue_desc_lo) (common vdev + cfg_queue_desc_hi);
     iowrite64_twopart ops (mem_get_physical_address ops (avail_va vq))
       (common vdev + cfg_queue_avail_lo) (common vdev + cfg_queue_avail_hi);
     iowrite64_twopart ops (mem_get_physical_address ops (used_va vq))
       (common vdev + cfg_queue_used_lo) (common vdev + cfg_queue_used_hi)
   }"

text \<open>The notification address of a queue, or the error status.\<close>

definition modern_notification_addr ::
  "'w system_ops \<Rightarrow> 'o virtio_device \<Rightarrow> u16 \<Rightarrow> ('w, ntstatus + u64) state" where
  "modern_notification_addr ops vdev off =
     (if notify_base vdev \<noteq> 0 then
        State_Monad.return
          (if ucast off * ucast (notify_offset_multiplier vdev) + 2 > notify_len vdev
           then Inl STATUS_INVALID_PARAMETER
           else let addr = notify_base vdev + ucast (ucast off * notify_offset_multiplier vdev)
                in if addr = 0 then Inl STATUS_INSUFFICIENT_RESOURCES else Inr addr)
      else do {
        (addr, _) \<leftarrow> vio_modern_map_capability ops (notify_map_cap vdev) 2 2
                       (ucast off * notify_offset_multiplier vdev) 2;
        State_Monad.return (if addr = 0 then Inl STATUS_INSUFFICIENT_RESOURCES else Inr addr)
      })"

text \<open>The optional assignment of an interrupt vector: whether it succeeded.\<close>

definition modern_assign_vector ::
  "'w system_ops \<Rightarrow> 'o virtio_device \<Rightarrow> u32 \<Rightarrow> u16 \<Rightarrow> ('w, bool) state" where
  "modern_assign_vector ops vdev index msix_vec =
     (if msix_vec \<noteq> VIRTIO_MSI_NO_VECTOR then do {
        v \<leftarrow> vio_modern_set_queue_vector ops vdev index msix_vec;
        State_Monad.return (v \<noteq> VIRTIO_MSI_NO_VECTOR)
      } else State_Monad.return True)"

definition modern_release :: "'w system_ops \<Rightarrow> u64 \<Rightarrow> u64 \<Rightarrow> ('w, unit) state" where
  "modern_release ops vq_addr queue = do {
     mem_free_nonpaged_block ops vq_addr;
     mem_free_contiguous_pages ops queue
   }"

text \<open>
  From the activation of the registers to the enabling of the queue, with the error paths
  \<open>err_assign_vector\<close> and \<open>err_map_notify\<close>.
\<close>

definition modern_start_vq ::
  "'w system_ops \<Rightarrow> 'o virtio_device \<Rightarrow> u32 \<Rightarrow> u16 \<Rightarrow> u16 \<Rightarrow> u64 \<Rightarrow> u64 \<Rightarrow> u16 \<Rightarrow> 'o virtqueue_obj
     \<Rightarrow> ('w, ntstatus + 'o virtqueue_obj) run" where
  "modern_start_vq ops vdev index msix_vec num queue vq_addr off vq w = do {
     (_, w1) \<leftarrow> lift (modern_activate ops vdev num queue vq) w;
     (na, w2) \<leftarrow> lift (modern_notification_addr ops vdev off) w1;
     case na of
       Inl status \<Rightarrow> do {
         _ \<leftarrow> virtqueue_shutdown (vqo_ring vq);
         (_, w3) \<leftarrow> lift (modern_release ops vq_addr queue) w2;
         Some (Inl status, w3)
       }
     | Inr addr \<Rightarrow> do {
         (ok, w3) \<leftarrow> lift (modern_assign_vector ops vdev index msix_vec) w2;
         if \<not> ok then do {
           _ \<leftarrow> virtqueue_shutdown (vqo_ring vq);
           (_, w4) \<leftarrow> lift (modern_release ops vq_addr queue) w3;
           Some (Inl STATUS_DEVICE_BUSY, w4)
         }
         else do {
           (_, w4) \<leftarrow> lift (vdev_write_word ops (common vdev + cfg_queue_enable) 1) w3;
           Some (Inr (vq\<lparr>notification_addr := addr\<rparr>), w4)
         }
       }
   }"

text \<open>
  The whole routine: the status or the new queue, and the queue info as the routine
  leaves it.
\<close>

definition vio_modern_setup_vq ::
  "'w system_ops \<Rightarrow> ('o, 'w) ring_memory \<Rightarrow> 'o virtio_device \<Rightarrow> 'o virtio_queue_info \<Rightarrow> u32 \<Rightarrow> u16
     \<Rightarrow> ('w, (ntstatus + 'o virtqueue_obj) \<times> 'o virtio_queue_info) run" where
  "vio_modern_setup_vq ops mem vdev info index msix_vec w = do {
     (r, w1) \<leftarrow> lift (vio_modern_query_vq_alloc ops mem vdev index) w;
     case r of
       Inl status \<Rightarrow> Some ((Inl status, info), w1)
     | Inr (num0, ring_size, heap_size) \<Rightarrow> do {
         (off, w2) \<leftarrow> lift (vdev_read_word ops (common vdev + cfg_queue_notify_off)) w1;
         let ((queue, num), w3) = alloc_scaled ops (packed_ring vdev) num0 w2;
         let info1 = info\<lparr>info_num := num, info_queue := queue\<rparr>;
         if queue = 0 then Some ((Inl STATUS_INSUFFICIENT_RESOURCES, info1), w3)
         else do {
           (vq_addr, w4) \<leftarrow> lift (mem_alloc_nonpaged_block ops (ucast heap_size)) w3;
           if vq_addr = 0 then Some ((Inl STATUS_INSUFFICIENT_RESOURCES, info1), w4)
           else do {
             new \<leftarrow> (if packed_ring vdev
                     then new_virtqueue_packed mem index (ucast num) queue vq_addr w4
                     else new_virtqueue_split mem index (ucast num) SMP_CACHE_BYTES queue vq_addr w4);
             case new of
               None \<Rightarrow> do {
                 (_, w5) \<leftarrow> lift (modern_release ops vq_addr queue) w4;
                 Some ((Inl STATUS_INSUFFICIENT_RESOURCES, info1), w5)
               }
             | Some vq \<Rightarrow> do {
                 (res, w5) \<leftarrow> modern_start_vq ops vdev index msix_vec num queue vq_addr off vq w4;
                 Some ((res, info1), w5)
               }
           }
         }
       }
   }"

definition vio_modern_del_vq ::
  "'w system_ops \<Rightarrow> 'o virtio_device \<Rightarrow> 'o virtio_queue_info \<Rightarrow> ('w, unit) run" where
  "vio_modern_del_vq ops vdev info w = do {
     vq \<leftarrow> info_vq info;
     (_, w1) \<leftarrow> lift (vdev_write_word ops (common vdev + cfg_queue_select) (ucast (vqo_index vq))) w;
     (_, w2) \<leftarrow> lift (if msix_used vdev then do {
                       vdev_write_word ops (common vdev + cfg_queue_msix_vector) VIRTIO_MSI_NO_VECTOR;
                       _ \<leftarrow> vdev_read_word ops (common vdev + cfg_queue_msix_vector);
                       State_Monad.return ()
                     } else State_Monad.return ()) w1;
     _ \<leftarrow> virtqueue_shutdown (vqo_ring vq);
     lift (modern_release ops (vqo_mem vq) (info_queue info)) w2
   }"

subsection \<open>Discovery\<close>

definition PCI_CAPABILITY_ID_VENDOR_SPECIFIC :: u8 where "PCI_CAPABILITY_ID_VENDOR_SPECIFIC = 9"
definition PCI_STATUS_CAPABILITIES_LIST :: u16 where "PCI_STATUS_CAPABILITIES_LIST = 0x10"
definition PCI_MULTIFUNCTION :: u8 where "PCI_MULTIFUNCTION = 0x80"
definition PCI_BRIDGE_TYPE :: u8 where "PCI_BRIDGE_TYPE = 1"
definition PCI_CARDBUS_BRIDGE_TYPE :: u8 where "PCI_CARDBUS_BRIDGE_TYPE = 2"
definition hdr_CapabilityID :: int where "hdr_CapabilityID = 0"
definition hdr_Next :: int where "hdr_Next = 1"
definition pci_HeaderType :: int where "pci_HeaderType = 0x0e"
definition pci_Status :: int where "pci_Status = 0x06"
definition pci_type0_CapabilitiesPtr :: u8 where "pci_type0_CapabilitiesPtr = 0x34"
definition pci_type1_CapabilitiesPtr :: u8 where "pci_type1_CapabilitiesPtr = 0x34"
definition pci_type2_CapabilitiesPtr :: u8 where "pci_type2_CapabilitiesPtr = 0x14"

text \<open>The search loop; the counter is \<open>iterations\<close>.\<close>

fun vendor_cap_loop :: "'w system_ops \<Rightarrow> nat \<Rightarrow> u8 \<Rightarrow> ('w, u8) state" where
  "vendor_cap_loop ops 0 offset = State_Monad.return 0"
| "vendor_cap_loop ops (Suc iterations) offset =
     (if offset \<ge> 0x40 then
        let offset1 = offset AND NOT 3
        in do {
          (rc, id) \<leftarrow> pci_read_config_byte ops (uint offset1 + hdr_CapabilityID);
          if rc \<noteq> 0 then State_Monad.return 0
          else if id = 0xff then State_Monad.return 0
          else if id = PCI_CAPABILITY_ID_VENDOR_SPECIFIC then State_Monad.return offset1
          else do {
            (rc', offset2) \<leftarrow> pci_read_config_byte ops (uint offset1 + hdr_Next);
            if rc' \<noteq> 0 then State_Monad.return 0
            else vendor_cap_loop ops iterations offset2
          }
        }
      else State_Monad.return 0)"

definition find_next_pci_vendor_capability :: "'w system_ops \<Rightarrow> u8 \<Rightarrow> ('w, u8) state" where
  "find_next_pci_vendor_capability ops offset = do {
     (rc, offset1) \<leftarrow> pci_read_config_byte ops (uint offset);
     if rc \<noteq> 0 then State_Monad.return 0
     else vendor_cap_loop ops 48 offset1
   }"

definition find_first_pci_vendor_capability :: "'w system_ops \<Rightarrow> ('w, u8) state" where
  "find_first_pci_vendor_capability ops = do {
     (rc, hdr_type) \<leftarrow> pci_read_config_byte ops pci_HeaderType;
     if rc \<noteq> 0 then State_Monad.return 0
     else do {
       (rc', status) \<leftarrow> pci_read_config_word ops pci_Status;
       if rc' \<noteq> 0 then State_Monad.return 0
       else if status AND PCI_STATUS_CAPABILITIES_LIST = 0 then State_Monad.return 0
       else
         let t = hdr_type AND NOT PCI_MULTIFUNCTION;
             offset = (if t = PCI_BRIDGE_TYPE then pci_type1_CapabilitiesPtr
                       else if t = PCI_CARDBUS_BRIDGE_TYPE then pci_type2_CapabilitiesPtr
                       else pci_type0_CapabilitiesPtr)
         in if offset \<noteq> 0 then find_next_pci_vendor_capability ops offset
            else State_Monad.return offset
     }
   }"

text \<open>One iteration of the outer loop: record the capability, find the next one.\<close>

definition vendor_cap_step ::
  "'w system_ops \<Rightarrow> u8 \<Rightarrow> int list \<Rightarrow> ('w, u8 \<times> int list) state" where
  "vendor_cap_step ops offset caps = do {
     (_, cfg_type) \<leftarrow> pci_read_config_byte ops (uint offset + cap_cfg_type);
     (_, bar) \<leftarrow> pci_read_config_byte ops (uint offset + cap_bar);
     len \<leftarrow> (if unat bar < PCI_TYPE0_ADDRESSES \<and> unat cfg_type < length caps
            then pci_get_resource_len ops (uint bar) else State_Monad.return 0);
     let caps1 = (if len > 0 then caps[unat cfg_type := uint offset] else caps);
     next \<leftarrow> find_next_pci_vendor_capability ops (offset + 1);
     State_Monad.return (next, caps1)
   }"

partial_function (option) vendor_caps_loop ::
  "'w system_ops \<Rightarrow> u8 \<Rightarrow> int list \<Rightarrow> 'w \<Rightarrow> (int list \<times> 'w) option" where
  "vendor_caps_loop ops offset caps w =
     (if offset > 0 then do {
        ((next, caps1), w1) \<leftarrow> lift (vendor_cap_step ops offset caps) w;
        vendor_caps_loop ops next caps1 w1
      } else Some (caps, w))"

declare vendor_caps_loop.simps [code]

definition find_pci_vendor_capabilities ::
  "'w system_ops \<Rightarrow> int list \<Rightarrow> ('w, int list) run" where
  "find_pci_vendor_capabilities ops caps w = do {
     (offset, w1) \<leftarrow> lift (find_first_pci_vendor_capability ops) w;
     vendor_caps_loop ops offset caps w1
   }"

subsection \<open>Initialization\<close>

text \<open>The notify capability: mapped whole when it fits a page, else queue by queue later.\<close>

definition modern_map_notify ::
  "'w system_ops \<Rightarrow> 'o virtio_device \<Rightarrow> int \<Rightarrow> ('w, bool \<times> 'o virtio_device) state" where
  "modern_map_notify ops vdev cap = do {
     (_, mult) \<leftarrow> pci_read_config_dword ops (cap + cap_notify_off_multiplier);
     (_, notify_length) \<leftarrow> pci_read_config_dword ops (cap + cap_length_lo);
     (_, notify_offset) \<leftarrow> pci_read_config_dword ops (cap + cap_offset_lo);
     let vdev1 = vdev\<lparr>notify_offset_multiplier := mult\<rparr>;
     if notify_length + notify_offset mod PAGE_SIZE \<le> PAGE_SIZE then do {
       (addr, len) \<leftarrow> vio_modern_map_capability ops cap 2 2 0 notify_length;
       let vdev2 = vdev1\<lparr>notify_base := addr,
                         notify_len := (case len of Some l \<Rightarrow> l | None \<Rightarrow> notify_len vdev1)\<rparr>;
       State_Monad.return (addr \<noteq> 0, vdev2)
     }
     else State_Monad.return (True, vdev1\<lparr>notify_map_cap := cap\<rparr>)
   }"

definition modern_map_config ::
  "'w system_ops \<Rightarrow> 'o virtio_device \<Rightarrow> int \<Rightarrow> ('w, bool \<times> 'o virtio_device) state" where
  "modern_map_config ops vdev cap =
     (if cap \<noteq> 0 then do {
        (addr, len) \<leftarrow> vio_modern_map_capability ops cap 0 4 0 PAGE_SIZE;
        State_Monad.return (addr \<noteq> 0,
          vdev\<lparr>config := addr, config_len := (case len of Some l \<Rightarrow> l | None \<Rightarrow> config_len vdev)\<rparr>)
      } else State_Monad.return (True, vdev))"

text \<open>The mapping of the structures once the capabilities are known.\<close>

definition modern_map_all ::
  "'w system_ops \<Rightarrow> 'o virtio_device \<Rightarrow> int list \<Rightarrow> ('w, ntstatus \<times> 'o virtio_device) state" where
  "modern_map_all ops vdev caps = do {
     c \<leftarrow> vio_modern_map_simple_capability ops (caps ! VIRTIO_PCI_CAP_COMMON_CFG) sizeof_common_cfg 4;
     let vdev1 = vdev\<lparr>common := c\<rparr>;
     if c = 0 then State_Monad.return (STATUS_INVALID_PARAMETER, vdev1)
     else do {
       isr \<leftarrow> vio_modern_map_simple_capability ops (caps ! VIRTIO_PCI_CAP_ISR_CFG) 1 1;
       let vdev2 = vdev1\<lparr>dev_isr := isr\<rparr>;
       if isr = 0 then State_Monad.return (STATUS_INVALID_PARAMETER, vdev2)
       else do {
         (notify_ok, vdev3) \<leftarrow> modern_map_notify ops vdev2 (caps ! VIRTIO_PCI_CAP_NOTIFY_CFG);
         if \<not> notify_ok then State_Monad.return (STATUS_INVALID_PARAMETER, vdev3)
         else do {
           (config_ok, vdev4) \<leftarrow> modern_map_config ops vdev3 (caps ! VIRTIO_PCI_CAP_DEVICE_CFG);
           if \<not> config_ok then State_Monad.return (STATUS_INVALID_PARAMETER, vdev4)
           else do {
             vdev5 \<leftarrow> (if caps ! VIRTIO_PCI_CAP_SHARED_MEMORY_CFG \<noteq> 0
                       then vio_modern_map_shared_memory_capability ops vdev4
                              (caps ! VIRTIO_PCI_CAP_SHARED_MEMORY_CFG)
                       else State_Monad.return vdev4);
             State_Monad.return (STATUS_SUCCESS, vdev5\<lparr>device := ModernDevice\<rparr>)
           }
         }
       }
     }
   }"

definition vio_modern_initialize ::
  "'w system_ops \<Rightarrow> 'o virtio_device \<Rightarrow> ('w, ntstatus \<times> 'o virtio_device) run" where
  "vio_modern_initialize ops vdev w = do {
     let vdev1 = vdev\<lparr>shmem_base := 0, shmem_len := 0, shmem_offset := 0, shmem_bar := 0, shmem_id := 0\<rparr>;
     (caps, w1) \<leftarrow> find_pci_vendor_capabilities ops (replicate VIRTIO_PCI_CAP_MAX 0) w;
     if caps ! VIRTIO_PCI_CAP_COMMON_CFG = 0 then Some ((STATUS_DEVICE_NOT_CONNECTED, vdev1), w1)
     else if caps ! VIRTIO_PCI_CAP_ISR_CFG = 0 \<or> caps ! VIRTIO_PCI_CAP_NOTIFY_CFG = 0
     then Some ((STATUS_INVALID_PARAMETER, vdev1), w1)
     else lift (modern_map_all ops vdev1 caps) w1
   }"

end
