(* ===== verification/PciLegacy.thy ===== *)
theory PciLegacy
  imports PciTypes
begin

text \<open>
  The legacy (virtio 0.9) PCI transport, \<^verbatim>\<open>src/VirtIO/VirtIOPCILegacy.c\<close>: one I/O BAR with
  fixed register offsets.
\<close>

subsection \<open>Registers\<close>

definition VIRTIO_PCI_HOST_FEATURES :: u64 where "VIRTIO_PCI_HOST_FEATURES = 0"
definition VIRTIO_PCI_GUEST_FEATURES :: u64 where "VIRTIO_PCI_GUEST_FEATURES = 4"
definition VIRTIO_PCI_QUEUE_PFN :: u64 where "VIRTIO_PCI_QUEUE_PFN = 8"
definition VIRTIO_PCI_QUEUE_NUM :: u64 where "VIRTIO_PCI_QUEUE_NUM = 12"
definition VIRTIO_PCI_QUEUE_SEL :: u64 where "VIRTIO_PCI_QUEUE_SEL = 14"
definition VIRTIO_PCI_QUEUE_NOTIFY :: u64 where "VIRTIO_PCI_QUEUE_NOTIFY = 16"
definition VIRTIO_PCI_STATUS :: u64 where "VIRTIO_PCI_STATUS = 18"
definition VIRTIO_PCI_ISR :: u64 where "VIRTIO_PCI_ISR = 19"
definition VIRTIO_MSI_CONFIG_VECTOR :: u64 where "VIRTIO_MSI_CONFIG_VECTOR = 20"
definition VIRTIO_MSI_QUEUE_VECTOR :: u64 where "VIRTIO_MSI_QUEUE_VECTOR = 22"
definition VIRTIO_PCI_CONFIG :: "bool \<Rightarrow> u64" where "VIRTIO_PCI_CONFIG msix = (if msix then 24 else 20)"
definition VIRTIO_PCI_QUEUE_ADDR_SHIFT :: nat where "VIRTIO_PCI_QUEUE_ADDR_SHIFT = 12"
definition VIRTIO_PCI_VRING_ALIGN :: u32 where "VIRTIO_PCI_VRING_ALIGN = 4096"

subsection \<open>Device configuration\<close>

text \<open>The byte loops: \<open>k\<close> bytes remain.\<close>

fun legacy_read_bytes :: "'w system_ops \<Rightarrow> nat \<Rightarrow> u64 \<Rightarrow> ('w, u8 list) state" where
  "legacy_read_bytes ops 0 ioaddr = State_Monad.return []"
| "legacy_read_bytes ops (Suc k) ioaddr = do {
     b \<leftarrow> vdev_read_byte ops ioaddr;
     bs \<leftarrow> legacy_read_bytes ops k (ioaddr + 1);
     State_Monad.return (b # bs)
   }"

definition vio_legacy_get_config ::
  "'w system_ops \<Rightarrow> 'o virtio_device \<Rightarrow> u32 \<Rightarrow> u32 \<Rightarrow> ('w, u8 list option) state" where
  "vio_legacy_get_config ops vdev offset len = do {
     bs \<leftarrow> legacy_read_bytes ops (unat len)
            (dev_addr vdev + VIRTIO_PCI_CONFIG (msix_used vdev) + ucast offset);
     State_Monad.return (Some bs)
   }"

fun legacy_write_bytes :: "'w system_ops \<Rightarrow> u8 list \<Rightarrow> u64 \<Rightarrow> ('w, unit) state" where
  "legacy_write_bytes ops [] ioaddr = State_Monad.return ()"
| "legacy_write_bytes ops (b # bs) ioaddr = do {
     vdev_write_byte ops ioaddr b;
     legacy_write_bytes ops bs (ioaddr + 1)
   }"

definition vio_legacy_set_config ::
  "'w system_ops \<Rightarrow> 'o virtio_device \<Rightarrow> u32 \<Rightarrow> u8 list \<Rightarrow> u32 \<Rightarrow> ('w, unit) state" where
  "vio_legacy_set_config ops vdev offset buf len =
     legacy_write_bytes ops (take (unat len) buf)
       (dev_addr vdev + VIRTIO_PCI_CONFIG (msix_used vdev) + ucast offset)"

subsection \<open>Status, features and vectors\<close>

definition vio_legacy_get_status :: "'w system_ops \<Rightarrow> 'o virtio_device \<Rightarrow> ('w, u8) state" where
  "vio_legacy_get_status ops vdev = vdev_read_byte ops (dev_addr vdev + VIRTIO_PCI_STATUS)"

definition vio_legacy_set_status :: "'w system_ops \<Rightarrow> 'o virtio_device \<Rightarrow> u8 \<Rightarrow> ('w, unit) state" where
  "vio_legacy_set_status ops vdev status = vdev_write_byte ops (dev_addr vdev + VIRTIO_PCI_STATUS) status"

definition vio_legacy_reset :: "'w system_ops \<Rightarrow> 'o virtio_device \<Rightarrow> ('w, unit) state" where
  "vio_legacy_reset ops vdev = vdev_write_byte ops (dev_addr vdev + VIRTIO_PCI_STATUS) 0"

definition vio_legacy_get_features :: "'w system_ops \<Rightarrow> 'o virtio_device \<Rightarrow> ('w, u64) state" where
  "vio_legacy_get_features ops vdev = do {
     f \<leftarrow> vdev_read_dword ops (dev_addr vdev + VIRTIO_PCI_HOST_FEATURES);
     State_Monad.return (ucast f)
   }"

definition vio_legacy_set_features ::
  "'w system_ops \<Rightarrow> 'o virtio_device \<Rightarrow> u64 \<Rightarrow> ('w, ntstatus) state" where
  "vio_legacy_set_features ops vdev fs = do {
     vdev_write_dword ops (dev_addr vdev + VIRTIO_PCI_GUEST_FEATURES) (ucast (vring_transport_features fs));
     State_Monad.return STATUS_SUCCESS
   }"

definition vio_legacy_set_config_vector ::
  "'w system_ops \<Rightarrow> 'o virtio_device \<Rightarrow> u16 \<Rightarrow> ('w, u16) state" where
  "vio_legacy_set_config_vector ops vdev vector = do {
     vdev_write_word ops (dev_addr vdev + VIRTIO_MSI_CONFIG_VECTOR) vector;
     vdev_read_word ops (dev_addr vdev + VIRTIO_MSI_CONFIG_VECTOR)
   }"

definition vio_legacy_set_queue_vector ::
  "'w system_ops \<Rightarrow> 'o virtio_device \<Rightarrow> u32 \<Rightarrow> u16 \<Rightarrow> ('w, u16) state" where
  "vio_legacy_set_queue_vector ops vdev index vector = do {
     vdev_write_word ops (dev_addr vdev + VIRTIO_PCI_QUEUE_SEL) (ucast index);
     vdev_write_word ops (dev_addr vdev + VIRTIO_MSI_QUEUE_VECTOR) vector;
     vdev_read_word ops (dev_addr vdev + VIRTIO_MSI_QUEUE_VECTOR)
   }"

subsection \<open>Queues\<close>

definition legacy_ring_size :: "u16 \<Rightarrow> u32" where
  "legacy_ring_size num = ROUND_TO_PAGES (vring_size (ucast num) VIRTIO_PCI_VRING_ALIGN False)"

text \<open>\<open>VIRTIO_PCI_QUEUE_PFN\<close> is read only when the size is not 0.\<close>

definition vio_legacy_query_vq_alloc ::
  "'w system_ops \<Rightarrow> ('o, 'w) ring_memory \<Rightarrow> 'o virtio_device \<Rightarrow> u32
     \<Rightarrow> ('w, ntstatus + (u16 \<times> u32 \<times> u32)) state" where
  "vio_legacy_query_vq_alloc ops mem vdev index = do {
     vdev_write_word ops (dev_addr vdev + VIRTIO_PCI_QUEUE_SEL) (ucast index);
     num \<leftarrow> vdev_read_word ops (dev_addr vdev + VIRTIO_PCI_QUEUE_NUM);
     if num = 0 then State_Monad.return (Inl STATUS_NOT_FOUND)
     else do {
       pfn \<leftarrow> vdev_read_dword ops (dev_addr vdev + VIRTIO_PCI_QUEUE_PFN);
       State_Monad.return
         (if pfn \<noteq> 0 then Inl STATUS_NOT_FOUND
          else let data_size = ROUND_TO_PAGES (vring_control_block_size_split num (sizeof_virtqueue_split mem))
               in Inr (num, legacy_ring_size num + data_size, 0))
     }
   }"

definition legacy_deactivate :: "'w system_ops \<Rightarrow> 'o virtio_device \<Rightarrow> u64 \<Rightarrow> ('w, unit) state" where
  "legacy_deactivate ops vdev queue = do {
     vdev_write_dword ops (dev_addr vdev + VIRTIO_PCI_QUEUE_PFN) 0;
     mem_free_contiguous_pages ops queue
   }"

definition legacy_assign_vector ::
  "'w system_ops \<Rightarrow> 'o virtio_device \<Rightarrow> u32 \<Rightarrow> u16 \<Rightarrow> ('w, bool) state" where
  "legacy_assign_vector ops vdev index msix_vec =
     (if msix_vec \<noteq> VIRTIO_MSI_NO_VECTOR then do {
        v \<leftarrow> vio_legacy_set_queue_vector ops vdev index msix_vec;
        State_Monad.return (v \<noteq> VIRTIO_MSI_NO_VECTOR)
      } else State_Monad.return True)"

definition vio_legacy_setup_vq ::
  "'w system_ops \<Rightarrow> ('o, 'w) ring_memory \<Rightarrow> 'o virtio_device \<Rightarrow> 'o virtio_queue_info \<Rightarrow> u32 \<Rightarrow> u16
     \<Rightarrow> ('w, (ntstatus + 'o virtqueue_obj) \<times> 'o virtio_queue_info) run" where
  "vio_legacy_setup_vq ops mem vdev info index msix_vec w = do {
     (r, w1) \<leftarrow> lift (vio_legacy_query_vq_alloc ops mem vdev index) w;
     case r of
       Inl status \<Rightarrow> Some ((Inl status, info), w1)
     | Inr (num, ring_size, heap_size) \<Rightarrow> do {
         (queue, w2) \<leftarrow> lift (mem_alloc_contiguous_pages ops (ucast ring_size)) w1;
         let info1 = info\<lparr>info_num := num, info_queue := queue\<rparr>;
         if queue = 0 then Some ((Inl STATUS_INSUFFICIENT_RESOURCES, info1), w2)
         else do {
           (pa, w3) \<leftarrow> lift (mem_get_physical_address ops queue) w2;
           (_, w4) \<leftarrow> lift (vdev_write_dword ops (dev_addr vdev + VIRTIO_PCI_QUEUE_PFN)
                              (ucast (drop_bit VIRTIO_PCI_QUEUE_ADDR_SHIFT pa))) w3;
           new \<leftarrow> new_virtqueue_split mem index (ucast num) VIRTIO_PCI_VRING_ALIGN queue
                     (queue + ucast (legacy_ring_size num)) w4;
           case new of
             None \<Rightarrow> do {
               (_, w5) \<leftarrow> lift (legacy_deactivate ops vdev queue) w4;
               Some ((Inl STATUS_INSUFFICIENT_RESOURCES, info1), w5)
             }
           | Some vq \<Rightarrow> do {
               (ok, w5) \<leftarrow> lift (legacy_assign_vector ops vdev index msix_vec) w4;
               if \<not> ok then do {
                 (_, w6) \<leftarrow> lift (legacy_deactivate ops vdev queue) w5;
                 Some ((Inl STATUS_DEVICE_BUSY, info1), w6)
               }
               else Some ((Inr (vq\<lparr>notification_addr := dev_addr vdev + VIRTIO_PCI_QUEUE_NOTIFY\<rparr>), info1), w5)
             }
         }
       }
   }"

definition vio_legacy_del_vq ::
  "'w system_ops \<Rightarrow> 'o virtio_device \<Rightarrow> 'o virtio_queue_info \<Rightarrow> ('w, unit) run" where
  "vio_legacy_del_vq ops vdev info w = do {
     vq \<leftarrow> info_vq info;
     lift (do {
       vdev_write_word ops (dev_addr vdev + VIRTIO_PCI_QUEUE_SEL) (ucast (vqo_index vq));
       (if msix_used vdev then do {
          vdev_write_word ops (dev_addr vdev + VIRTIO_MSI_QUEUE_VECTOR) VIRTIO_MSI_NO_VECTOR;
          _ \<leftarrow> vdev_read_byte ops (dev_addr vdev + VIRTIO_PCI_ISR);
          State_Monad.return ()
        } else State_Monad.return ());
       legacy_deactivate ops vdev (info_queue info)
     }) w
   }"

subsection \<open>Initialization\<close>

definition vio_legacy_initialize ::
  "'w system_ops \<Rightarrow> 'o virtio_device \<Rightarrow> ('w, ntstatus \<times> 'o virtio_device) state" where
  "vio_legacy_initialize ops vdev = do {
     len \<leftarrow> pci_get_resource_len ops 0;
     addr \<leftarrow> pci_map_address_range ops 0 0 len;
     let vdev1 = vdev\<lparr>dev_addr := addr\<rparr>;
     State_Monad.return
       (if addr = 0 then (STATUS_INSUFFICIENT_RESOURCES, vdev1)
        else (STATUS_SUCCESS, vdev1\<lparr>dev_isr := addr + VIRTIO_PCI_ISR, device := LegacyDevice\<rparr>))
   }"

end
