(* ===== verification/PciCommon.thy ===== *)
theory PciCommon
  imports PciModern PciLegacy
begin

text \<open>
  The transport-independent API of \<^verbatim>\<open>src/VirtIO/VirtIOPCICommon.c\<close>. Calls through
  \<open>vdev->device\<close> dispatch on the device's operations table; through a \<open>NULL\<close> table they
  have no result (\<open>None\<close>).
\<close>

subsection \<open>The operations tables\<close>

definition dispatch ::
  "'o virtio_device \<Rightarrow> ('w, 'a) run \<Rightarrow> ('w, 'a) run \<Rightarrow> ('w, 'a) run" where
  "dispatch vdev modern legacy w =
     (case device vdev of
        NoDevice \<Rightarrow> None
      | ModernDevice \<Rightarrow> modern w
      | LegacyDevice \<Rightarrow> legacy w)"

definition dev_get_config ::
  "'w system_ops \<Rightarrow> 'o virtio_device \<Rightarrow> u32 \<Rightarrow> u32 \<Rightarrow> ('w, u8 list option) run" where
  "dev_get_config ops vdev offset len =
     dispatch vdev (lift (vio_modern_get_config ops vdev offset len))
       (lift (vio_legacy_get_config ops vdev offset len))"

definition dev_set_config ::
  "'w system_ops \<Rightarrow> 'o virtio_device \<Rightarrow> u32 \<Rightarrow> u8 list \<Rightarrow> u32 \<Rightarrow> ('w, unit) run" where
  "dev_set_config ops vdev offset buf len =
     dispatch vdev (lift (vio_modern_set_config ops vdev offset buf len))
       (lift (vio_legacy_set_config ops vdev offset buf len))"

text \<open>The legacy table has no \<open>get_config_generation\<close>; its callers use 0 instead.\<close>

definition dev_get_config_generation :: "'w system_ops \<Rightarrow> 'o virtio_device \<Rightarrow> ('w, u32) run" where
  "dev_get_config_generation ops vdev =
     dispatch vdev (lift (vio_modern_get_generation ops vdev)) (\<lambda>w. Some (0, w))"

definition virtio_get_status :: "'w system_ops \<Rightarrow> 'o virtio_device \<Rightarrow> ('w, u8) run" where
  "virtio_get_status ops vdev =
     dispatch vdev (lift (vio_modern_get_status ops vdev)) (lift (vio_legacy_get_status ops vdev))"

definition virtio_set_status :: "'w system_ops \<Rightarrow> 'o virtio_device \<Rightarrow> u8 \<Rightarrow> ('w, unit) run" where
  "virtio_set_status ops vdev status =
     dispatch vdev (lift (vio_modern_set_status ops vdev status))
       (lift (vio_legacy_set_status ops vdev status))"

definition virtio_add_status :: "'w system_ops \<Rightarrow> 'o virtio_device \<Rightarrow> u8 \<Rightarrow> ('w, unit) run" where
  "virtio_add_status ops vdev status w = do {
     (s, w1) \<leftarrow> virtio_get_status ops vdev w;
     virtio_set_status ops vdev (s OR status) w1
   }"

definition virtio_device_reset :: "'w system_ops \<Rightarrow> 'o virtio_device \<Rightarrow> ('w, unit) run" where
  "virtio_device_reset ops vdev =
     dispatch vdev (vio_modern_reset ops vdev) (lift (vio_legacy_reset ops vdev))"

definition virtio_device_ready :: "'w system_ops \<Rightarrow> 'o virtio_device \<Rightarrow> ('w, unit) run" where
  "virtio_device_ready ops vdev w = do {
     (s, w1) \<leftarrow> virtio_get_status ops vdev w;
     virtio_set_status ops vdev (s OR VIRTIO_CONFIG_S_DRIVER_OK) w1
   }"

definition virtio_get_features :: "'w system_ops \<Rightarrow> 'o virtio_device \<Rightarrow> ('w, u64) run" where
  "virtio_get_features ops vdev =
     dispatch vdev (lift (vio_modern_get_features ops vdev)) (lift (vio_legacy_get_features ops vdev))"

definition dev_set_features :: "'w system_ops \<Rightarrow> 'o virtio_device \<Rightarrow> u64 \<Rightarrow> ('w, ntstatus) run" where
  "dev_set_features ops vdev fs =
     dispatch vdev (lift (vio_modern_set_features ops vdev fs)) (lift (vio_legacy_set_features ops vdev fs))"

definition virtio_set_features ::
  "'w system_ops \<Rightarrow> 'o virtio_device \<Rightarrow> u64 \<Rightarrow> ('w, ntstatus \<times> 'o virtio_device) run" where
  "virtio_set_features ops vdev fs w = do {
     let vdev1 = vdev\<lparr>event_suppression_enabled := virtio_is_feature_enabled fs VIRTIO_RING_F_EVENT_IDX,
                      packed_ring := virtio_is_feature_enabled fs VIRTIO_F_RING_PACKED\<rparr>;
     (status, w1) \<leftarrow> dev_set_features ops vdev1 fs w;
     if \<not> NT_SUCCESS status then Some ((status, vdev1), w1)
     else if \<not> virtio_is_feature_enabled fs VIRTIO_F_VERSION_1 then Some ((status, vdev1), w1)
     else do {
       (_, w2) \<leftarrow> virtio_add_status ops vdev1 VIRTIO_CONFIG_S_FEATURES_OK w1;
       (dev_status, w3) \<leftarrow> virtio_get_status ops vdev1 w2;
       Some ((if dev_status AND VIRTIO_CONFIG_S_FEATURES_OK = 0 then STATUS_INVALID_PARAMETER else status,
              vdev1), w3)
     }
   }"

subsection \<open>Initialization and shutdown\<close>

text \<open>The structure after \<open>RtlZeroMemory\<close> and the first assignments.\<close>

definition initial_device :: "bool \<Rightarrow> 'o virtio_device" where
  "initial_device msix =
     \<lparr>dev_addr = 0, msix_used = msix, event_suppression_enabled = False, packed_ring = False,
      device = NoDevice, dev_isr = 0, common = 0, config = 0, notify_base = 0, notify_map_cap = 0,
      notify_offset_multiplier = 0, config_len = 0, notify_len = 0, shmem_base = 0, shmem_len = 0,
      shmem_offset = 0, shmem_bar = 0, shmem_id = 0, maxQueues = MAX_QUEUES_PER_DEVICE_DEFAULT,
      dev_info_ptr = InfoInline,
      dev_info = replicate (unat MAX_QUEUES_PER_DEVICE_DEFAULT) zero_info\<rparr>"

definition virtio_device_initialize ::
  "'w system_ops \<Rightarrow> bool \<Rightarrow> ('w, ntstatus \<times> 'o virtio_device) run" where
  "virtio_device_initialize ops msix w = do {
     ((status0, vdev0), w1) \<leftarrow> vio_modern_initialize ops (initial_device msix) w;
     ((status, vdev), w2) \<leftarrow> (if status0 = STATUS_DEVICE_NOT_CONNECTED
                               then lift (vio_legacy_initialize ops vdev0) w1
                               else Some ((status0, vdev0), w1));
     if NT_SUCCESS status then do {
       (_, w3) \<leftarrow> virtio_device_reset ops vdev w2;
       (_, w4) \<leftarrow> virtio_add_status ops vdev VIRTIO_CONFIG_S_ACKNOWLEDGE w3;
       (_, w5) \<leftarrow> virtio_add_status ops vdev VIRTIO_CONFIG_S_DRIVER w4;
       Some ((status, vdev), w5)
     }
     else Some ((status, vdev), w2)
   }"

definition virtio_device_shutdown ::
  "'w system_ops \<Rightarrow> 'o virtio_device \<Rightarrow> ('w, 'o virtio_device) state" where
  "virtio_device_shutdown ops vdev =
     (case dev_info_ptr vdev of
        InfoBlock p \<Rightarrow> do {
          mem_free_nonpaged_block ops p;
          State_Monad.return (vdev\<lparr>dev_info_ptr := InfoNull, dev_info := []\<rparr>)
        }
      | _ \<Rightarrow> State_Monad.return vdev)"

subsection \<open>Device configuration\<close>

text \<open>
  A field written to the caller's buffer at position \<open>i\<close>; a buffer that is too short is a
  memory error.
\<close>

definition buf_write :: "u8 list \<Rightarrow> nat \<Rightarrow> u8 list option \<Rightarrow> u8 list option" where
  "buf_write buf i bs =
     (case bs of
        None \<Rightarrow> Some buf
      | Some xs \<Rightarrow> if i + length xs \<le> length buf
                  then Some (take i buf @ xs @ drop (i + length xs) buf) else None)"

text \<open>The inner loop: \<open>k\<close> fields remain, \<open>i\<close> is the current one.\<close>

fun cread_fields ::
  "'w system_ops \<Rightarrow> 'o virtio_device \<Rightarrow> u32 \<Rightarrow> nat \<Rightarrow> nat \<Rightarrow> nat \<Rightarrow> u8 list \<Rightarrow> ('w, u8 list) run" where
  "cread_fields ops vdev offset bytes 0 i buf w = Some (buf, w)"
| "cread_fields ops vdev offset bytes (Suc k) i buf w = do {
     (r, w1) \<leftarrow> dev_get_config ops vdev (offset + of_nat (bytes * i)) (of_nat bytes) w;
     buf1 \<leftarrow> buf_write buf (i * bytes) r;
     cread_fields ops vdev offset bytes k (Suc i) buf1 w1
   }"

text \<open>The outer loop repeats until the configuration generation is stable.\<close>

partial_function (option) cread_loop ::
  "'w system_ops \<Rightarrow> 'o virtio_device \<Rightarrow> u32 \<Rightarrow> nat \<Rightarrow> nat \<Rightarrow> u32 \<Rightarrow> u8 list \<Rightarrow> 'w \<Rightarrow> (u8 list \<times> 'w) option" where
  "cread_loop ops vdev offset cnt bytes old buf w = do {
     (buf1, w1) \<leftarrow> cread_fields ops vdev offset bytes cnt 0 buf w;
     (gen, w2) \<leftarrow> dev_get_config_generation ops vdev w1;
     if gen \<noteq> old then cread_loop ops vdev offset cnt bytes gen buf1 w2
     else Some (buf1, w2)
   }"

declare cread_loop.simps [code]

definition virtio_cread_many ::
  "'w system_ops \<Rightarrow> 'o virtio_device \<Rightarrow> u32 \<Rightarrow> u8 list \<Rightarrow> nat \<Rightarrow> nat \<Rightarrow> ('w, u8 list) run" where
  "virtio_cread_many ops vdev offset buf cnt bytes w = do {
     (gen, w1) \<leftarrow> dev_get_config_generation ops vdev w;
     cread_loop ops vdev offset cnt bytes gen buf w1
   }"

definition virtio_get_config ::
  "'w system_ops \<Rightarrow> 'o virtio_device \<Rightarrow> u32 \<Rightarrow> u8 list \<Rightarrow> u32 \<Rightarrow> ('w, u8 list) run" where
  "virtio_get_config ops vdev offset buf len w =
     (if len = 1 \<or> len = 2 \<or> len = 4 then do {
        (r, w1) \<leftarrow> dev_get_config ops vdev offset len w;
        buf1 \<leftarrow> buf_write buf 0 r;
        Some (buf1, w1)
      }
      else if len = 8 then virtio_cread_many ops vdev offset buf 2 4 w
      else virtio_cread_many ops vdev offset buf (unat len) 1 w)"

fun cwrite_fields ::
  "'w system_ops \<Rightarrow> 'o virtio_device \<Rightarrow> u32 \<Rightarrow> nat \<Rightarrow> nat \<Rightarrow> nat \<Rightarrow> u8 list \<Rightarrow> ('w, unit) run" where
  "cwrite_fields ops vdev offset bytes 0 i buf w = Some ((), w)"
| "cwrite_fields ops vdev offset bytes (Suc k) i buf w = do {
     (_, w1) \<leftarrow> dev_set_config ops vdev (offset + of_nat (bytes * i)) (drop (i * bytes) buf) (of_nat bytes) w;
     cwrite_fields ops vdev offset bytes k (Suc i) buf w1
   }"

definition virtio_cwrite_many ::
  "'w system_ops \<Rightarrow> 'o virtio_device \<Rightarrow> u32 \<Rightarrow> u8 list \<Rightarrow> nat \<Rightarrow> nat \<Rightarrow> ('w, unit) run" where
  "virtio_cwrite_many ops vdev offset buf cnt bytes w = cwrite_fields ops vdev offset bytes cnt 0 buf w"

definition virtio_set_config ::
  "'w system_ops \<Rightarrow> 'o virtio_device \<Rightarrow> u32 \<Rightarrow> u8 list \<Rightarrow> u32 \<Rightarrow> ('w, unit) run" where
  "virtio_set_config ops vdev offset buf len w =
     (if len = 1 \<or> len = 2 \<or> len = 4 then dev_set_config ops vdev offset buf len w
      else if len = 8 then virtio_cwrite_many ops vdev offset buf 2 4 w
      else virtio_cwrite_many ops vdev offset buf (unat len) 1 w)"

subsection \<open>Queues\<close>

definition virtio_query_queue_allocation ::
  "'w system_ops \<Rightarrow> ('o, 'w) ring_memory \<Rightarrow> 'o virtio_device \<Rightarrow> u32 \<Rightarrow> ('w, ntstatus + (u16 \<times> u32 \<times> u32)) run" where
  "virtio_query_queue_allocation ops mem vdev index =
     dispatch vdev (lift (vio_modern_query_vq_alloc ops mem vdev index))
       (lift (vio_legacy_query_vq_alloc ops mem vdev index))"

definition virtio_reserve_queue_memory ::
  "'w system_ops \<Rightarrow> ('o, 'w) ring_memory \<Rightarrow> 'o virtio_device \<Rightarrow> u32 \<Rightarrow> ('w, ntstatus \<times> 'o virtio_device) run" where
  "virtio_reserve_queue_memory ops mem vdev nvqs w =
     (if nvqs > maxQueues vdev then do {
        (new_info, w1) \<leftarrow> lift (mem_alloc_nonpaged_block ops (ucast (nvqs * sizeof_queue_info mem))) w;
        if new_info = 0 then Some ((STATUS_INSUFFICIENT_RESOURCES, vdev), w1)
        else do {
          (_, w2) \<leftarrow> lift (case dev_info_ptr vdev of
                            InfoBlock p \<Rightarrow> mem_free_nonpaged_block ops p
                          | _ \<Rightarrow> State_Monad.return ()) w1;
          Some ((STATUS_SUCCESS,
                 vdev\<lparr>dev_info_ptr := InfoBlock new_info, dev_info := info_entries mem new_info nvqs w2,
                      maxQueues := nvqs\<rparr>), w2)
        }
      }
      else Some ((STATUS_SUCCESS, vdev), w))"

definition dev_setup_queue ::
  "'w system_ops \<Rightarrow> ('o, 'w) ring_memory \<Rightarrow> 'o virtio_device \<Rightarrow> 'o virtio_queue_info \<Rightarrow> u32 \<Rightarrow> u16
     \<Rightarrow> ('w, (ntstatus + 'o virtqueue_obj) \<times> 'o virtio_queue_info) run" where
  "dev_setup_queue ops mem vdev info index msix_vec =
     dispatch vdev (vio_modern_setup_vq ops mem vdev info index msix_vec)
       (vio_legacy_setup_vq ops mem vdev info index msix_vec)"

definition vp_setup_vq ::
  "'w system_ops \<Rightarrow> ('o, 'w) ring_memory \<Rightarrow> 'o virtio_device \<Rightarrow> u32 \<Rightarrow> u16
     \<Rightarrow> ('w, (ntstatus + 'o virtqueue_obj) \<times> 'o virtio_device) run" where
  "vp_setup_vq ops mem vdev index msix_vec w = do {
     info \<leftarrow> rd (dev_info vdev) index;
     ((r, info1), w1) \<leftarrow> dev_setup_queue ops mem vdev info index msix_vec w;
     let info2 = (case r of Inl _ \<Rightarrow> info1 | Inr vq \<Rightarrow> info1\<lparr>info_vq := Some vq\<rparr>);
     Some ((r, vdev\<lparr>dev_info := (dev_info vdev)[unat index := info2]\<rparr>), w1)
   }"

definition virtio_find_queue ::
  "'w system_ops \<Rightarrow> ('o, 'w) ring_memory \<Rightarrow> 'o virtio_device \<Rightarrow> u32
     \<Rightarrow> ('w, (ntstatus + 'o virtqueue_obj) \<times> 'o virtio_device) run" where
  "virtio_find_queue ops mem vdev index w = do {
     (msix_vec, w1) \<leftarrow> lift (vdev_get_msix_vector ops (sint index)) w;
     vp_setup_vq ops mem vdev index msix_vec w1
   }"

definition dev_delete_queue ::
  "'w system_ops \<Rightarrow> 'o virtio_device \<Rightarrow> 'o virtio_queue_info \<Rightarrow> ('w, unit) run" where
  "dev_delete_queue ops vdev info =
     dispatch vdev (vio_modern_del_vq ops vdev info) (vio_legacy_del_vq ops vdev info)"

definition virtio_delete_queue ::
  "'w system_ops \<Rightarrow> 'o virtio_device \<Rightarrow> 'o virtqueue_obj \<Rightarrow> ('w, 'o virtio_device) run" where
  "virtio_delete_queue ops vdev vq w = do {
     info \<leftarrow> rd (dev_info vdev) (vqo_index vq);
     (_, w1) \<leftarrow> dev_delete_queue ops vdev info w;
     Some (vdev\<lparr>dev_info := (dev_info vdev)[unat (vqo_index vq) := info\<lparr>info_vq := None\<rparr>]\<rparr>, w1)
   }"

text \<open>The deletion loop: \<open>k\<close> entries remain, \<open>i\<close> is the current one.\<close>

fun delete_loop ::
  "'w system_ops \<Rightarrow> nat \<Rightarrow> u32 \<Rightarrow> 'o virtio_device \<Rightarrow> ('w, 'o virtio_device) run" where
  "delete_loop ops 0 i vdev w = Some (vdev, w)"
| "delete_loop ops (Suc k) i vdev w = do {
     info \<leftarrow> rd (dev_info vdev) i;
     (vdev1, w1) \<leftarrow> (case info_vq info of
                      None \<Rightarrow> Some (vdev, w)
                    | Some vq \<Rightarrow> do {
                        (_, w1) \<leftarrow> dev_delete_queue ops vdev info w;
                        Some (vdev\<lparr>dev_info := (dev_info vdev)[unat i := info\<lparr>info_vq := None\<rparr>]\<rparr>, w1)
                      });
     delete_loop ops k (i + 1) vdev1 w1
   }"

definition virtio_delete_queues ::
  "'w system_ops \<Rightarrow> 'o virtio_device \<Rightarrow> ('w, 'o virtio_device) run" where
  "virtio_delete_queues ops vdev w =
     (if dev_info_ptr vdev = InfoNull then Some (vdev, w)
      else delete_loop ops (unat (maxQueues vdev)) 0 vdev w)"

text \<open>
  The loop that sets the queues up: \<open>k\<close> queues remain, \<open>i\<close> is the current one. The
  result is the error status or the queues stored in \<open>vqs\<close>.
\<close>

fun setup_loop ::
  "'w system_ops \<Rightarrow> ('o, 'w) ring_memory \<Rightarrow> nat \<Rightarrow> u32 \<Rightarrow> 'o virtio_device
     \<Rightarrow> ('w, (ntstatus + 'o virtqueue_obj list) \<times> 'o virtio_device) run" where
  "setup_loop ops mem 0 i vdev w = Some ((Inr [], vdev), w)"
| "setup_loop ops mem (Suc k) i vdev w = do {
     (msix_vec, w1) \<leftarrow> lift (vdev_get_msix_vector ops (sint i)) w;
     ((r, vdev1), w2) \<leftarrow> vp_setup_vq ops mem vdev i msix_vec w1;
     case r of
       Inl status \<Rightarrow> Some ((Inl status, vdev1), w2)
     | Inr vq \<Rightarrow> do {
         ((rs, vdev2), w3) \<leftarrow> setup_loop ops mem k (i + 1) vdev1 w2;
         Some ((map_sum id ((#) vq) rs, vdev2), w3)
       }
   }"

definition dev_set_config_vector ::
  "'w system_ops \<Rightarrow> 'o virtio_device \<Rightarrow> u16 \<Rightarrow> ('w, u16) run" where
  "dev_set_config_vector ops vdev vector =
     dispatch vdev (lift (vio_modern_set_config_vector ops vdev vector))
       (lift (vio_legacy_set_config_vector ops vdev vector))"

text \<open>The configuration interrupt: whether it could be assigned.\<close>

definition setup_config_vector :: "'w system_ops \<Rightarrow> 'o virtio_device \<Rightarrow> ('w, bool) run" where
  "setup_config_vector ops vdev w = do {
     (msix_vec, w1) \<leftarrow> lift (vdev_get_msix_vector ops (-1)) w;
     if msix_vec \<noteq> VIRTIO_MSI_NO_VECTOR then do {
       (v, w2) \<leftarrow> dev_set_config_vector ops vdev msix_vec w1;
       Some (v \<noteq> VIRTIO_MSI_NO_VECTOR, w2)
     }
     else Some (True, w1)
   }"

definition virtio_find_queues ::
  "'w system_ops \<Rightarrow> ('o, 'w) ring_memory \<Rightarrow> 'o virtio_device \<Rightarrow> u32
     \<Rightarrow> ('w, (ntstatus + 'o virtqueue_obj list) \<times> 'o virtio_device) run" where
  "virtio_find_queues ops mem vdev nvqs w = do {
     ((status, vdev1), w1) \<leftarrow> virtio_reserve_queue_memory ops mem vdev nvqs w;
     if \<not> NT_SUCCESS status then Some ((Inl status, vdev1), w1)
     else do {
       (ok, w2) \<leftarrow> setup_config_vector ops vdev1 w1;
       ((r, vdev2), w3) \<leftarrow> (if ok then setup_loop ops mem (unat nvqs) 0 vdev1 w2
                             else Some ((Inl STATUS_DEVICE_BUSY, vdev1), w2));
       case r of
         Inr vqs \<Rightarrow> Some ((Inr vqs, vdev2), w3)
       | Inl e \<Rightarrow> do {
           (vdev3, w4) \<leftarrow> virtio_delete_queues ops vdev2 w3;
           Some ((Inl e, vdev3), w4)
         }
     }
   }"

definition virtio_get_queue_size :: "'o virtio_device \<Rightarrow> 'o virtqueue_obj \<Rightarrow> u32 option" where
  "virtio_get_queue_size vdev vq = map_option (\<lambda>i. ucast (info_num i)) (rd (dev_info vdev) (vqo_index vq))"

definition virtio_set_config_vector ::
  "'w system_ops \<Rightarrow> 'o virtio_device \<Rightarrow> u16 \<Rightarrow> ('w, u16) run" where
  "virtio_set_config_vector ops vdev vector = dev_set_config_vector ops vdev vector"

definition virtio_set_queue_vector ::
  "'w system_ops \<Rightarrow> 'o virtio_device \<Rightarrow> 'o virtqueue_obj \<Rightarrow> u16 \<Rightarrow> ('w, u16) run" where
  "virtio_set_queue_vector ops vdev vq vector =
     dispatch vdev (lift (vio_modern_set_queue_vector ops vdev (vqo_index vq) vector))
       (lift (vio_legacy_set_queue_vector ops vdev (vqo_index vq) vector))"

definition virtio_read_isr_status :: "'w system_ops \<Rightarrow> 'o virtio_device \<Rightarrow> ('w, u8) state" where
  "virtio_read_isr_status ops vdev = vdev_read_byte ops (dev_isr vdev)"

subsection \<open>BARs\<close>

definition PCI_ADDRESS_IO_SPACE :: u32 where "PCI_ADDRESS_IO_SPACE = 1"
definition PCI_ADDRESS_IO_ADDRESS_MASK :: u32 where "PCI_ADDRESS_IO_ADDRESS_MASK = 0xfffffffc"
definition PCI_ADDRESS_MEMORY_TYPE_MASK :: u32 where "PCI_ADDRESS_MEMORY_TYPE_MASK = 6"
definition PCI_TYPE_64BIT :: u32 where "PCI_TYPE_64BIT = 4"
definition PCI_ADDRESS_MEMORY_ADDRESS_MASK :: u32 where "PCI_ADDRESS_MEMORY_ADDRESS_MASK = 0xfffffff0"

text \<open>
  The loop over the base address registers, from index \<open>i\<close>; reading beyond the array is
  \<open>None\<close>.
\<close>

function bar_loop :: "u32 list \<Rightarrow> u64 \<Rightarrow> nat \<Rightarrow> int option" where
  "bar_loop bars base i =
     (if i < PCI_TYPE0_ADDRESSES then do {
        lo \<leftarrow> nth_opt bars i;
        (bar, extra) \<leftarrow> (if lo AND PCI_ADDRESS_IO_SPACE \<noteq> 0
                       then Some (ucast (lo AND PCI_ADDRESS_IO_ADDRESS_MASK), 0)
                       else if lo AND PCI_ADDRESS_MEMORY_TYPE_MASK = PCI_TYPE_64BIT
                       then do {
                         hi \<leftarrow> nth_opt bars (i + 1);
                         Some (ucast (lo AND PCI_ADDRESS_MEMORY_ADDRESS_MASK) OR push_bit 32 (ucast hi), 1)
                       }
                       else Some (ucast (lo AND PCI_ADDRESS_MEMORY_ADDRESS_MASK), 0));
        if bar = base then Some (int i) else bar_loop bars base (Suc (i + extra))
      }
      else Some (-1))"
  by pat_completeness auto

termination
  by (relation "measure (\<lambda>(bars, base, i). PCI_TYPE0_ADDRESSES - i)") auto

declare bar_loop.simps [simp del]

definition virtio_get_bar_index :: "u32 list \<Rightarrow> u64 \<Rightarrow> int option" where
  "virtio_get_bar_index bars base = bar_loop bars base 0"

subsection \<open>Notification\<close>

definition vp_notify :: "'w system_ops \<Rightarrow> 'o virtqueue_obj \<Rightarrow> ('w, bool) state" where
  "vp_notify ops vq = do {
     vdev_write_word ops (notification_addr vq) (ucast (vqo_index vq));
     State_Monad.return True
   }"

text \<open>Every queue is created with \<open>vp_notify\<close> as its \<open>notification_cb\<close>.\<close>

definition virtqueue_notify :: "'w system_ops \<Rightarrow> 'o virtqueue_obj \<Rightarrow> ('w, unit) state" where
  "virtqueue_notify ops vq = do {
     _ \<leftarrow> vp_notify ops vq;
     State_Monad.return ()
   }"

definition virtqueue_kick ::
  "'w system_ops \<Rightarrow> 'o virtio_device \<Rightarrow> 'o virtqueue_obj \<Rightarrow> ('w, 'o virtqueue_obj) state" where
  "virtqueue_kick ops vdev vq =
     (case virtqueue_kick_prepare (event_suppression_enabled vdev) (vqo_ring vq) of
        (notify, ring) \<Rightarrow> do {
          (if notify then virtqueue_notify ops vq else State_Monad.return ());
          State_Monad.return (vq\<lparr>vqo_ring := ring\<rparr>)
        })"

end
