(* ===== verification/PciDiscovery.thy ===== *)
theory PciDiscovery
  imports PciModern
begin

text \<open>
  What capability discovery and mapping guarantee, whatever the configuration space holds:
  offsets stay inside the capability area, mapped ranges lie inside the BAR, the search
  through a list that ends returns and the search through a cyclic list does not.
\<close>

subsection \<open>Vendor capabilities\<close>

lemma aligned_offset:
  fixes off :: u8
  assumes "0x40 \<le> off"
  shows "0x40 \<le> off AND NOT 3" "(off AND NOT 3) AND 3 = 0"
proof -
  have m: "(3 :: u8) = mask 2" by (simp add: mask_eq_exp_minus_1)
  show "0x40 \<le> off AND NOT 3"
    using assms unfolding m word_le_nat_alt unat_and_not_mask by simp
  show "(off AND NOT 3) AND 3 = 0"
    by (simp add: and.assoc)
qed

definition cap_offset_ok :: "u8 \<Rightarrow> bool" where
  "cap_offset_ok off \<longleftrightarrow> off = 0 \<or> (0x40 \<le> off \<and> off AND 3 = 0)"

lemma cap_offset_ok_0 [simp]: "cap_offset_ok 0"
  by (simp add: cap_offset_ok_def)

lemma vendor_cap_loop_offset: "cap_offset_ok (fst (run_state (vendor_cap_loop ops k off) w))"
proof (induction k arbitrary: off w)
  case 0
  then show ?case by (simp add: cap_offset_ok_def)
next
  case (Suc k)
  then show ?case
    using aligned_offset [of off] by (auto simp: Let_def cap_offset_ok_def split: prod.splits)
qed

lemma find_next_offset: "cap_offset_ok (fst (run_state (find_next_pci_vendor_capability ops off) w))"
  by (simp add: find_next_pci_vendor_capability_def vendor_cap_loop_offset split: prod.splits)

lemma find_first_offset: "cap_offset_ok (fst (run_state (find_first_pci_vendor_capability ops) w))"
  by (simp add: find_first_pci_vendor_capability_def find_next_offset Let_def split: prod.splits)

text \<open>The table of capabilities: as long as before, every entry 0 or a valid offset.\<close>

definition caps_ok :: "nat \<Rightarrow> int list \<Rightarrow> bool" where
  "caps_ok n caps \<longleftrightarrow> length caps = n \<and> (\<forall>c \<in> set caps. c = 0 \<or> (0x40 \<le> c \<and> c \<le> 0xfc \<and> c mod 4 = 0))"

lemma cap_offset_int:
  assumes "cap_offset_ok off" "off \<noteq> 0"
  shows "0x40 \<le> uint off \<and> uint off \<le> 0xfc \<and> uint off mod 4 = 0"
proof -
  have "take_bit 2 off = 0"
    using assms by (simp add: cap_offset_ok_def take_bit_eq_mask mask_eq_exp_minus_1)
  then have "take_bit 2 (uint off) = 0" by (metis unsigned_0 unsigned_take_bit_eq)
  moreover have "0x40 \<le> uint off" using assms by (simp add: cap_offset_ok_def word_le_def)
  moreover have "uint off < 256" using uint_bounded [of off] by simp
  ultimately show ?thesis unfolding take_bit_eq_mod by simp presburger
qed

lemma vendor_cap_step_cases:
  assumes "run_state (vendor_cap_step ops off caps) w = ((next, caps1), w1)"
  shows "\<exists>w0. run_state (find_next_pci_vendor_capability ops (off + 1)) w0 = (next, w1) \<and>
           (caps1 = caps \<or> (\<exists>i. caps1 = caps[i := uint off]))"
  using assms unfolding vendor_cap_step_def Let_def
  by (auto elim!: run_bindE simp del: run_state_bind split: if_splits)

lemma vendor_cap_step_ok:
  assumes "cap_offset_ok off" "off \<noteq> 0" "caps_ok n caps"
    and "run_state (vendor_cap_step ops off caps) w = ((next, caps1), w1)"
  shows "cap_offset_ok next \<and> caps_ok n caps1"
proof -
  obtain w0 where w0: "run_state (find_next_pci_vendor_capability ops (off + 1)) w0 = (next, w1)"
    and c: "caps1 = caps \<or> (\<exists>i. caps1 = caps[i := uint off])"
    using vendor_cap_step_cases [OF assms(4)] by blast
  have "cap_offset_ok next" using find_next_offset [of ops "off + 1" w0] w0 by simp
  moreover have "set caps1 \<subseteq> insert (uint off) (set caps)" "length caps1 = length caps"
    using c by (auto dest!: set_update_subset_insert [THEN subsetD])
  ultimately show ?thesis
    using assms(3) cap_offset_int [OF assms(1,2)] by (auto simp: caps_ok_def)
qed

lemma vendor_caps_loop_ok:
  assumes "vendor_caps_loop ops off caps w = Some r" "cap_offset_ok off" "caps_ok n caps"
  shows "caps_ok n (fst r)"
proof -
  have "cap_offset_ok off \<longrightarrow> caps_ok n caps \<longrightarrow> caps_ok n (fst r)"
  proof (rule vendor_caps_loop.raw_induct [OF _ assms(1)])
    fix loop ops off caps w r
    assume IH: "\<And>ops off caps w r. loop ops off caps w = Some r \<Longrightarrow>
                  cap_offset_ok off \<longrightarrow> caps_ok n caps \<longrightarrow> caps_ok n (fst r)"
      and eq: "(if 0 < off
                then lift (vendor_cap_step ops off caps) w \<bind>
                     (\<lambda>((next, caps1), w1). loop ops next caps1 w1)
                else Some (caps, w)) = Some r"
    show "cap_offset_ok off \<longrightarrow> caps_ok n caps \<longrightarrow> caps_ok n (fst r)"
    proof (cases "0 < off")
      case True
      then obtain nx caps1 w1 where "run_state (vendor_cap_step ops off caps) w = ((nx, caps1), w1)"
        "loop ops nx caps1 w1 = Some r"
        using eq by (cases "run_state (vendor_cap_step ops off caps) w") auto
      then show ?thesis using True vendor_cap_step_ok IH by (metis word_gt_0)
    next
      case False
      then show ?thesis using eq by auto
    qed
  qed
  then show ?thesis using assms(2,3) by blast
qed

lemma find_pci_vendor_capabilities_ok:
  assumes "find_pci_vendor_capabilities ops (replicate n 0) w = Some (caps, w')"
  shows "caps_ok n caps"
proof -
  obtain off w1 where off: "run_state (find_first_pci_vendor_capability ops) w = (off, w1)"
    by fastforce
  have "cap_offset_ok off" using find_first_offset [of ops w] off by simp
  moreover have "vendor_caps_loop ops off (replicate n 0) w1 = Some (caps, w')"
    using assms off by (simp add: find_pci_vendor_capabilities_def)
  moreover have "caps_ok n (replicate n 0)" by (simp add: caps_ok_def)
  ultimately show ?thesis by (metis fst_conv vendor_caps_loop_ok)
qed

subsection \<open>Termination of the search\<close>

text \<open>
  Reading the configuration space does not change it. Then the search returns exactly when
  the chain of vendor capabilities ends.
\<close>

definition next_vendor_cap :: "'w system_ops \<Rightarrow> 'w \<Rightarrow> u8 \<Rightarrow> u8" where
  "next_vendor_cap ops w off = fst (run_state (find_next_pci_vendor_capability ops (off + 1)) w)"

definition config_reads_pure :: "'w system_ops \<Rightarrow> 'w \<Rightarrow> bool" where
  "config_reads_pure ops w \<longleftrightarrow>
     (\<forall>a. snd (run_state (pci_read_config_byte ops a) w) = w) \<and>
     (\<forall>b. snd (run_state (pci_get_resource_len ops b) w) = w)"

lemma pure_read [simp]: "config_reads_pure ops w \<Longrightarrow> snd (run_state (pci_read_config_byte ops a) w) = w"
  by (simp add: config_reads_pure_def)

lemma pure_len [simp]: "config_reads_pure ops w \<Longrightarrow> snd (run_state (pci_get_resource_len ops b) w) = w"
  by (simp add: config_reads_pure_def)

lemma vendor_cap_loop_pure [simp]:
  "config_reads_pure ops w \<Longrightarrow> snd (run_state (vendor_cap_loop ops k off) w) = w"
  by (induction k arbitrary: off) (simp_all add: Let_def split_beta)

lemma find_next_pure [simp]:
  "config_reads_pure ops w \<Longrightarrow> snd (run_state (find_next_pci_vendor_capability ops off) w) = w"
  by (simp add: find_next_pci_vendor_capability_def split_beta)

lemma vendor_cap_step_pure:
  assumes "config_reads_pure ops w"
  shows "\<exists>caps1. run_state (vendor_cap_step ops off caps) w = ((next_vendor_cap ops w off, caps1), w)"
  using assms by (simp add: vendor_cap_step_def next_vendor_cap_def Let_def split_beta)

lemma vendor_caps_loop_terminates:
  assumes "config_reads_pure ops w" "(next_vendor_cap ops w ^^ n) off = 0"
  shows "\<exists>r. vendor_caps_loop ops off caps w = Some r"
  using assms(2)
proof (induction n arbitrary: off caps)
  case 0
  then show ?case by (subst vendor_caps_loop.simps) simp
next
  case (Suc n)
  obtain caps1 where "run_state (vendor_cap_step ops off caps) w = ((next_vendor_cap ops w off, caps1), w)"
    using vendor_cap_step_pure [OF assms(1)] by blast
  then show ?case
    using Suc.IH [of "next_vendor_cap ops w off" caps1] Suc.prems
    by (subst vendor_caps_loop.simps) (auto simp: funpow_swap1)
qed

lemma vendor_caps_loop_returns:
  assumes "vendor_caps_loop ops off caps w = Some r"
  shows "config_reads_pure ops w \<longrightarrow> (\<exists>n. (next_vendor_cap ops w ^^ n) off = 0)"
proof (rule vendor_caps_loop.raw_induct [OF _ assms])
  fix loop :: "'a system_ops \<Rightarrow> u8 \<Rightarrow> int list \<Rightarrow> 'a \<Rightarrow> (int list \<times> 'a) option" and ops off caps w r
  assume IH: "\<And>ops off caps w r. loop ops off caps w = Some r \<Longrightarrow>
                config_reads_pure ops w \<longrightarrow> (\<exists>n. (next_vendor_cap ops w ^^ n) off = 0)"
    and eq: "(if 0 < off
              then lift (vendor_cap_step ops off caps) w \<bind>
                   (\<lambda>((next, caps1), w1). loop ops next caps1 w1)
              else Some (caps, w)) = Some r"
  show "config_reads_pure ops w \<longrightarrow> (\<exists>n. (next_vendor_cap ops w ^^ n) off = 0)"
  proof (intro impI, cases "0 < off")
    case True
    assume pure: "config_reads_pure ops w"
    from vendor_cap_step_pure [OF pure] eq True obtain caps1
      where "loop ops (next_vendor_cap ops w off) caps1 w = Some r"
      by (metis (mono_tags, lifting) case_prod_conv lift_bind)
    from IH [OF this] pure obtain n where "(next_vendor_cap ops w ^^ n) (next_vendor_cap ops w off) = 0" by blast
    then have "(next_vendor_cap ops w ^^ Suc n) off = 0" by (simp only: funpow_Suc_right o_apply)
    then show "\<exists>n. (next_vendor_cap ops w ^^ n) off = 0" by blast
  next
    case False
    then have "(next_vendor_cap ops w ^^ 0) off = 0" by (simp add: word_gt_0)
    then show "\<exists>n. (next_vendor_cap ops w ^^ n) off = 0" by blast
  qed
qed

subsection \<open>Mapped ranges\<close>

text \<open>
  A non-null result comes from a mapping request that is aligned, starts and ends inside the
  BAR, and covers at least \<open>minlen\<close> and at most \<open>size\<close> bytes.
\<close>

lemma map_capability_request:
  assumes "run_state (vio_modern_map_capability ops cap minlen al start sz) w = ((addr, len), w')"
    and "addr \<noteq> 0"
  obtains bar boff blen rlen w1 w2 where
    "run_state (pci_get_resource_len ops bar) w1 = (rlen, w2)"
    "run_state (pci_map_address_range ops bar (ucast (boff + start)) (ucast (min (blen - start) sz))) w2 = (addr, w')"
    "len = Some (ucast (min (blen - start) sz))"
    "(boff + start) AND (al - 1) = 0" "ucast (boff + start) + minlen \<le> rlen"
    "ucast start + minlen \<le> ucast blen"
proof -
  have min: "(if sz < x then sz else x) = min x sz" for x by (auto simp: min_def)
  show thesis
    using assms unfolding vio_modern_map_capability_def Let_def min
    by (auto elim!: run_bindE simp del: run_state_bind split: if_splits simp: not_less)
      (rule that, assumption+)
qed

lemma map_capability_inside:
  assumes run: "run_state (vio_modern_map_capability ops cap minlen al start sz) w = ((addr, len), w')"
    and nz: "addr \<noteq> 0" and small: "minlen \<le> ucast sz"
  shows "\<exists>bar off n rlen w1 w2.
           run_state (pci_get_resource_len ops bar) w1 = (rlen, w2) \<and>
           run_state (pci_map_address_range ops bar (ucast off) (ucast n)) w2 = (addr, w') \<and>
           len = Some (ucast n) \<and> off AND (al - 1) = 0 \<and>
           unat off + unat minlen \<le> unat rlen \<and> minlen \<le> ucast n \<and> n \<le> sz"
proof -
  obtain bar boff blen rlen w1 w2 where r:
    "run_state (pci_get_resource_len ops bar) w1 = (rlen, w2)"
    "run_state (pci_map_address_range ops bar (ucast (boff + start)) (ucast (min (blen - start) sz))) w2 = (addr, w')"
    "len = Some (ucast (min (blen - start) sz))"
    "(boff + start) AND (al - 1) = 0" "ucast (boff + start) + minlen \<le> rlen"
    "ucast start + minlen \<le> ucast blen"
    using map_capability_request [OF run nz] .
  have m: "unat minlen \<le> unat sz" "unat sz < 2 ^ 32"
    using small unat_lt_32 [of sz] by (simp_all add: word_le_nat_alt)
  have "unat (ucast (boff + start) + minlen) = unat (boff + start) + unat minlen"
    using m unat_lt_32 [of "boff + start"] by (subst unat_plus_small) simp_all
  then have a: "unat (boff + start) + unat minlen \<le> unat rlen" using r(5) by (simp add: word_le_nat_alt)
  have "unat (ucast start + minlen) = unat start + unat minlen"
    using m unat_lt_32 [of start] by (subst unat_plus_small) simp_all
  then have b: "unat start + unat minlen \<le> unat blen" using r(6) by (simp add: word_le_nat_alt)
  then have "unat (blen - start) = unat blen - unat start" by (intro unat_minus_le) (simp add: word_le_nat_alt)
  with b m have c: "minlen \<le> ucast (min (blen - start) sz)"
    by (auto simp: word_le_nat_alt min_def)
  show ?thesis using r a c by (intro exI conjI) auto
qed

end
