(* ===== verification/PciQueues.thy ===== *)
theory PciQueues
  imports PciCommon PciDiscovery
begin

text \<open>
  Creation and deletion of queues over the two transports: the sizes that the query
  accepts, the scaled-down allocation, the notification address, and what
  \<open>setup_queue\<close>, \<open>virtio_find_queues\<close> and \<open>virtio_delete_queues\<close> leave in the device.
\<close>

lemma run_unit_ex [simp]: "\<exists>w1. run_state m w = ((), w1)"
  by (metis old.unit.exhaust surj_pair)

lemma run_unitE:
  obtains w1 where "run_state m w = ((), w1)"
  by (cases "run_state m w") simp

subsection \<open>Queue sizes\<close>

lemma power_of_two_word:
  fixes x :: "'a::len word"
  assumes "x \<noteq> 0" "x AND (x - 1) = 0"
  shows "\<exists>k < LENGTH('a). unat x = 2 ^ k"
proof -
  have pos: "1 \<le> unat x" using assms(1) by (simp add: unat_gt_0 Suc_leI)
  obtain k where k: "2 ^ k \<le> unat x" "unat x < 2 ^ Suc k"
    using ex_power_ivl1 [of 2 "unat x"] pos by auto
  have less: "k < LENGTH('a)"
    using k(1) unsigned_less [of x, where ?'a = nat] using power_less_imp_less_exp [of "2::nat" k] by (meson le_less_trans one_less_numeral_iff semiring_norm(76))
  have bit: "bit y k" if "2 ^ k \<le> unat y" "unat y < 2 ^ Suc k" for y :: "'a word"
  proof -
    have "unat y div 2 ^ k = 1" using that by (intro div_nat_eqI) auto
    then have "bit (unat y) k" by (simp add: bit_iff_odd)
    then show ?thesis by (simp add: bit_unsigned_iff)
  qed
  have "unat x = 2 ^ k"
  proof (rule ccontr)
    assume "unat x \<noteq> 2 ^ k"
    then have "2 ^ k \<le> unat (x - 1)" "unat (x - 1) < 2 ^ Suc k"
      using k pos by (simp_all add: unat_pred)
    then have "bit (x AND (x - 1)) k" using bit k by (simp add: bit_and_iff)
    then show False using assms(2) by simp
  qed
  then show ?thesis using less by blast
qed

lemma modern_query_size:
  assumes "run_state (vio_modern_query_vq_alloc ops mem vdev index) w = (Inr (num, ring_size, heap_size), w')"
  shows "(\<exists>k \<le> 15. unat num = 2 ^ k) \<and> ring_size = ucast (vring_pci_size num (packed_ring vdev)) \<and>
         heap_size = control_block_size mem num (packed_ring vdev)"
proof -
  have "num \<noteq> 0" "num AND (num - 1) = 0"
    "ring_size = ucast (vring_pci_size num (packed_ring vdev))"
    "heap_size = control_block_size mem num (packed_ring vdev)"
    using assms
    by (auto elim!: run_bindE simp: vio_modern_query_vq_alloc_def simp del: run_state_bind split: if_splits)
  then show ?thesis using power_of_two_word [of num] by (auto simp: less_Suc_eq_le)
qed

text \<open>The size after scaling down, and the request that finally succeeded.\<close>

lemma alloc_scaled_spec:
  assumes "alloc_scaled ops packed num w = ((queue, n), w')"
  shows "(\<exists>j. unat n = unat num div 2 ^ j) \<and>
         (queue = 0 \<longrightarrow> n = 0) \<and>
         (\<exists>w1. run_state (mem_alloc_contiguous_pages ops (vring_pci_size n packed)) w1 = (queue, w'))"
  using assms
proof (induction ops packed num w arbitrary: w' rule: alloc_scaled.induct)
  case (1 ops packed num w)
  obtain q w1 where q: "run_state (mem_alloc_contiguous_pages ops (vring_pci_size num packed)) w = (q, w1)"
    by fastforce
  have half: "unat (num div 2) div 2 ^ j = unat num div 2 ^ Suc j" for j
    by (simp add: unat_div div_mult2_eq)
  show ?case
  proof (cases "q = 0 \<and> num > 0")
    case True
    then have "alloc_scaled ops packed (num div 2) w1 = ((queue, n), w')"
      using "1.prems" q by (subst (asm) alloc_scaled.simps) simp
    from "1.IH" [OF q [symmetric] refl _ _ this] True
    have ih: "\<exists>j. unat n = unat (num div 2) div 2 ^ j" "queue = 0 \<longrightarrow> n = 0"
      "\<exists>w1. run_state (mem_alloc_contiguous_pages ops (vring_pci_size n packed)) w1 = (queue, w')" by auto
    from ih(1) have "\<exists>j. unat n = unat num div 2 ^ j" unfolding half by blast
    with ih(2,3) show ?thesis by blast
  next
    case False
    then have "q = queue" "num = n" "w1 = w'"
      using "1.prems" q by (auto simp: alloc_scaled.simps [of ops packed num] split: if_splits)
    then show ?thesis using q False by (auto simp: word_gt_0 intro: exI [of _ 0])
  qed
qed

lemma power_of_two_div:
  assumes "unat (num :: u16) = 2 ^ k" "k \<le> 15" "unat (n :: u16) = unat num div 2 ^ j" "n \<noteq> 0"
  shows "\<exists>i \<le> 15. unat n = 2 ^ i"
proof (cases "j \<le> k")
  case True
  then have "unat n = 2 ^ (k - j)" using assms by (simp add: power_diff)
  then show ?thesis using assms(2) by (intro exI [of _ "k - j"]) auto
next
  case False
  then have "unat n = 0" using assms by simp
  then show ?thesis using assms(4) by (simp add: unsigned_eq_0_iff)
qed

subsection \<open>Notification address\<close>

lemma notification_addr_inside:
  assumes "run_state (modern_notification_addr ops vdev off) w = (Inr addr, w')"
    and "notify_base vdev \<noteq> 0" "notify_len vdev \<le> ucast (0xffffffff :: u32)"
  shows "addr = notify_base vdev + of_nat (unat off * unat (notify_offset_multiplier vdev)) \<and>
         unat off * unat (notify_offset_multiplier vdev) + 2 \<le> unat (notify_len vdev) \<and> w' = w"
proof -
  let ?m = "notify_offset_multiplier vdev"
  have le: "ucast off * ucast ?m + 2 \<le> notify_len vdev"
    and addr: "addr = notify_base vdev + ucast (ucast off * ?m)" and w: "w' = w"
    using assms(1,2)
    by (auto simp: modern_notification_addr_def Let_def not_less split: if_splits)
  have o: "unat off < 2 ^ 16" using unsigned_less [of off, where ?'a = nat] by simp
  have "unat off * unat ?m < 2 ^ 16 * 2 ^ 32"
    using o unat_lt_32 [of ?m] by (intro mult_strict_mono) auto
  then have p: "unat (ucast off * ucast ?m :: u64) = unat off * unat ?m"
    by (subst unat_mult_lem [THEN iffD1]) auto
  have "unat (ucast off * ucast ?m + 2 :: u64) = unat off * unat ?m + 2"
    using \<open>unat off * unat ?m < 2 ^ 16 * 2 ^ 32\<close> p by (subst unat_plus_small) auto
  then have le': "unat off * unat ?m + 2 \<le> unat (notify_len vdev)"
    using le by (simp add: word_le_nat_alt)
  moreover have "unat (notify_len vdev) < 2 ^ 32" using assms(3) by (simp add: word_le_nat_alt)
  ultimately have "unat off * unat ?m < 2 ^ 32" by simp
  then have "unat (ucast off * ?m :: u32) = unat off * unat ?m"
    by (subst unat_mult_lem [THEN iffD1]) auto
  then have "ucast (ucast off * ?m :: u32) = (of_nat (unat off * unat ?m) :: u64)"
    by (metis unat_ucast_32_64 of_nat_unat)
  then show ?thesis using addr w le' by simp
qed

subsection \<open>Setting a queue up\<close>

text \<open>
  What the constructors rely on: the allocator hands out zeroed ring pages, and the pages
  have the size of the ring.
\<close>

definition ring_memory_ok :: "('o, 'w) ring_memory \<Rightarrow> bool" where
  "ring_memory_ok mem \<longleftrightarrow>
     (\<forall>a num align w. pages_ok num (split_pages mem a num align w)) \<and>
     (\<forall>a num w. case packed_pages mem a num w of (desc, _, _) \<Rightarrow>
        length desc = unat num \<and> (\<forall>d \<in> set desc. pd_flags d = 0))"

definition new_queue_ok :: "u32 \<Rightarrow> nat \<Rightarrow> u64 \<Rightarrow> 'o virtqueue_obj \<Rightarrow> bool" where
  "new_queue_ok index n control vq \<longleftrightarrow>
     vq_rel (vqo_ring vq) (a_empty n) \<and> vqo_index vq = index \<and> vqo_mem vq = control"

lemma new_virtqueue_split_ok:
  assumes "ring_memory_ok mem" "unat num = 2 ^ k" "k \<le> 15"
  shows "\<exists>vq. new_virtqueue_split mem index num align pages control w = Some (Some vq) \<and>
              new_queue_ok index (unat num) control vq"
proof -
  have "pages_ok num (split_pages mem pages num align w)"
    using assms(1) by (simp add: ring_memory_ok_def)
  from vring_new_virtqueue_split_rel [OF assms(2,3) this, where ?'a = 'a and index = index] show ?thesis
    by (auto simp: new_virtqueue_split_def new_queue_ok_def vq_rel_def split: prod.splits)
qed

lemma new_virtqueue_packed_ok:
  assumes "ring_memory_ok mem" "unat num = 2 ^ k" "k \<le> 15"
  shows "\<exists>vq. new_virtqueue_packed mem index num pages control w = Some (Some vq) \<and>
              new_queue_ok index (unat num) control vq"
proof -
  obtain desc driver dev where pg: "packed_pages mem pages num w = (desc, driver, dev)"
    by (metis surj_pair)
  have d: "length desc = unat num" "\<forall>d \<in> set desc. pd_flags d = 0"
    using assms(1) pg unfolding ring_memory_ok_def by (force split: prod.splits)+
  have "0 < unat num" "unat num \<le> 2 ^ 15"
    unfolding assms(2) using assms(3) power_increasing [of k 15 "2::nat"] by simp_all
  from vring_new_virtqueue_packed_rel [OF this pg d, where ?'a = 'a and index = index] pg show ?thesis
    by (auto simp: new_virtqueue_packed_def new_queue_ok_def vq_rel_def Let_def)
qed

text \<open>A ring of size 0 cannot be built: the linking loop leaves the array.\<close>

lemma new_virtqueue_split_0:
  fixes mem :: "('o, 'w) ring_memory"
  assumes "ring_memory_ok mem"
  shows "new_virtqueue_split mem index 0 align pages control w = None"
proof -
  have "pages_ok 0 (split_pages mem pages 0 align w)"
    using assms by (simp add: ring_memory_ok_def)
  moreover have "link_unused 0 0 [] = None"
    by (subst link_unused.simps) (simp add: upd_def word_gt_0)
  ultimately have "(vring_new_virtqueue_split index 0 (split_pages mem pages 0 align w)
                     :: 'o virtqueue_split option option) = None"
    by (auto simp: vring_new_virtqueue_split_def pages_ok_def DESC_INDEX_def split: prod.splits)
  then show ?thesis by (simp add: new_virtqueue_split_def)
qed

lemma link_states_Nil: "0 < n \<Longrightarrow> link_states n i [] = None"
  by (cases n) (simp_all add: upd_def)

lemma new_virtqueue_packed_0: "new_virtqueue_packed mem index 0 pages control w = None"
  by (simp add: new_virtqueue_packed_def vring_new_virtqueue_packed_def link_states_Nil unat_gt_0
      split: prod.splits)

lemma new_virtqueue_modern:
  fixes num :: u16
  assumes "ring_memory_ok mem" "unat num0 = 2 ^ k" "k \<le> 15" "unat num = unat (num0 :: u16) div 2 ^ j"
    and new: "(if packed then new_virtqueue_packed mem index (ucast num) queue vq_addr w
               else new_virtqueue_split mem index (ucast num) SMP_CACHE_BYTES queue vq_addr w) = Some r"
  shows "(\<exists>i \<le> 15. unat num = 2 ^ i) \<and> (\<exists>vq. r = Some vq \<and> new_queue_ok index (unat num) vq_addr vq)"
proof -
  have "num \<noteq> 0"
    using new by (auto simp: new_virtqueue_packed_0 new_virtqueue_split_0 [OF assms(1)] split: if_splits)
  with power_of_two_div [OF assms(2,3,4)] obtain i where i: "i \<le> 15" "unat num = 2 ^ i" by blast
  then have u: "unat (ucast num :: u32) = 2 ^ i" by simp
  show ?thesis
    using new i new_virtqueue_packed_ok [OF assms(1) u i(1), of index queue vq_addr w]
      new_virtqueue_split_ok [OF assms(1) u i(1), of index SMP_CACHE_BYTES queue vq_addr w]
    by (auto split: if_splits)
qed

lemma notification_addr_not_null:
  "run_state (modern_notification_addr ops vdev off) w = (Inr a, w') \<Longrightarrow> a \<noteq> 0"
  by (auto simp: modern_notification_addr_def Let_def split: if_splits prod.splits)

lemma modern_start_success:
  assumes "modern_start_vq ops vdev index msix num queue vq_addr off vq0 w = Some (Inr vq, w')"
  shows "\<exists>a. a \<noteq> 0 \<and> vq = vq0\<lparr>notification_addr := a\<rparr>"
  using assms
  by (auto simp: modern_start_vq_def elim!: some_bindE liftE simp del: lift_bind
      split: sum.splits if_splits dest!: notification_addr_not_null) blast

lemma modern_setup_success:
  assumes ok: "ring_memory_ok mem"
    and run: "vio_modern_setup_vq ops mem vdev info index msix w = Some ((Inr vq, info1), w')"
  shows "\<exists>k \<le> 15. unat (info_num info1) = 2 ^ k \<and> new_queue_ok index (2 ^ k) (vqo_mem vq) vq \<and>
           info_queue info1 \<noteq> 0 \<and> notification_addr vq \<noteq> 0 \<and> info_vq info1 = info_vq info"
proof -
  obtain r w1 where q: "run_state (vio_modern_query_vq_alloc ops mem vdev index) w = (r, w1)"
    by fastforce
  obtain num0 ring heap where r: "r = Inr (num0, ring, heap)"
    using run q by (cases r) (auto simp: vio_modern_setup_vq_def Let_def)
  obtain off w2 where off: "run_state (vdev_read_word ops (common vdev + cfg_queue_notify_off)) w1 = (off, w2)"
    by fastforce
  obtain queue num w3 where al: "alloc_scaled ops (packed_ring vdev) num0 w2 = ((queue, num), w3)"
    by (metis surj_pair)
  obtain vq_addr w4 where heap: "run_state (mem_alloc_nonpaged_block ops (ucast heap)) w3 = (vq_addr, w4)"
    by fastforce
  let ?new = "if packed_ring vdev then new_virtqueue_packed mem index (ucast num) queue vq_addr w4
              else new_virtqueue_split mem index (ucast num) SMP_CACHE_BYTES queue vq_addr w4"
  note eqs = q [unfolded r] off al heap
  have queue: "queue \<noteq> 0" and addr: "vq_addr \<noteq> 0"
    using run eqs by (auto simp: vio_modern_setup_vq_def Let_def split: if_splits)
  obtain new where new: "?new = Some new"
    using run eqs queue addr unfolding vio_modern_setup_vq_def
    by (cases ?new) (simp_all add: Let_def split del: if_split)
  obtain k where k: "k \<le> 15" "unat num0 = 2 ^ k" using modern_query_size [OF eqs(1)] by blast
  obtain j where "unat num = unat num0 div 2 ^ j" using alloc_scaled_spec [OF al] by blast
  from new_virtqueue_modern [OF ok k(2,1) this new] obtain i vq0 where
    i: "i \<le> 15" "unat num = 2 ^ i" "new = Some vq0" "new_queue_ok index (unat num) vq_addr vq0" by blast
  from run have tail: "modern_start_vq ops vdev index msix num queue vq_addr off vq0 w4 \<bind>
      (\<lambda>(res, w5). Some ((res, info\<lparr>info_num := num, info_queue := queue\<rparr>), w5)) = Some ((Inr vq, info1), w')"
    unfolding vio_modern_setup_vq_def
    by (simp add: eqs queue addr new [unfolded i(3)] Let_def split del: if_split)
  then have start: "modern_start_vq ops vdev index msix num queue vq_addr off vq0 w4 = Some (Inr vq, w')"
    and info: "info1 = info\<lparr>info_num := num, info_queue := queue\<rparr>"
    by (auto elim!: some_bindE)
  obtain a where "a \<noteq> 0" "vq = vq0\<lparr>notification_addr := a\<rparr>"
    using modern_start_success [OF start] by blast
  then show ?thesis
    using info i queue
    by (intro exI [of _ i]) (auto simp: new_queue_ok_def)
qed

subsection \<open>Setting up always returns\<close>

text \<open>
  A queue whose buffers are accounted for can be shut down. The allocation loop may reach
  size 0; an allocator that then succeeds would send the constructor out of bounds, so
  returning rests on the allocator not doing that.
\<close>

definition vq_usable :: "'o virtqueue_obj \<Rightarrow> bool" where
  "vq_usable vq \<longleftrightarrow> (\<exists>s xs. vq_owned (vqo_ring vq) s xs)"

definition no_empty_ring :: "'w system_ops \<Rightarrow> bool \<Rightarrow> bool" where
  "no_empty_ring ops packed \<longleftrightarrow>
     (\<forall>num w queue w'. num \<noteq> 0 \<longrightarrow> alloc_scaled ops packed num w = ((queue, 0), w') \<longrightarrow> queue = 0)"

definition queue_ready :: "u32 \<Rightarrow> 'o virtio_queue_info \<Rightarrow> 'o virtqueue_obj \<Rightarrow> bool" where
  "queue_ready index info vq \<longleftrightarrow>
     vqo_index vq = index \<and> info_num info \<noteq> 0 \<and> vq_rel (vqo_ring vq) (a_empty (unat (info_num info)))"

lemma new_queue_usable: "new_queue_ok index n control vq \<Longrightarrow> vq_usable vq"
  unfolding new_queue_ok_def vq_usable_def using vq_cleanup.rel_owned by blast

lemma queue_ready_usable: "queue_ready index info vq \<Longrightarrow> vq_usable vq"
  unfolding queue_ready_def vq_usable_def using vq_cleanup.rel_owned by blast

lemma usable_shutdown: "vq_usable vq \<Longrightarrow> \<exists>q. virtqueue_shutdown (vqo_ring vq) = Some (Some q)"
  unfolding vq_usable_def using vq_cleanup.shutdown_rel by blast

lemma new_queue_ready:
  "new_queue_ok index (unat (info_num info)) control vq \<Longrightarrow> info_num info \<noteq> 0 \<Longrightarrow>
   queue_ready index info (vq\<lparr>notification_addr := a\<rparr>)"
  by (simp add: queue_ready_def new_queue_ok_def)

lemma modern_start_returns:
  assumes "vq_usable vq"
  shows "\<exists>r w'. modern_start_vq ops vdev index msix num queue vq_addr off vq w = Some (r, w')"
proof -
  obtain q where "virtqueue_shutdown (vqo_ring vq) = Some (Some q)"
    using usable_shutdown [OF assms] by blast
  then show ?thesis
    by (auto simp: modern_start_vq_def split: prod.splits sum.splits)
qed

lemma modern_setup_returns:
  assumes ok: "ring_memory_ok mem" and ne: "no_empty_ring ops (packed_ring vdev)"
  shows "\<exists>r info1 w'. vio_modern_setup_vq ops mem vdev info index msix w = Some ((r, info1), w') \<and>
           info_vq info1 = info_vq info \<and> (\<forall>vq. r = Inr vq \<longrightarrow> queue_ready index info1 vq)"
proof -
  obtain r w1 where q: "run_state (vio_modern_query_vq_alloc ops mem vdev index) w = (r, w1)"
    by fastforce
  show ?thesis
  proof (cases r)
    case (Inl status)
    then show ?thesis using q by (simp add: vio_modern_setup_vq_def)
  next
    case (Inr p)
    then obtain num0 ring heap where r: "r = Inr (num0, ring, heap)" by (cases p) auto
    obtain off w2 where off: "run_state (vdev_read_word ops (common vdev + cfg_queue_notify_off)) w1 = (off, w2)"
      by fastforce
    obtain queue num w3 where al: "alloc_scaled ops (packed_ring vdev) num0 w2 = ((queue, num), w3)"
      by (metis surj_pair)
    obtain vq_addr w4 where heap: "run_state (mem_alloc_nonpaged_block ops (ucast heap)) w3 = (vq_addr, w4)"
      by fastforce
    let ?info1 = "info\<lparr>info_num := num, info_queue := queue\<rparr>"
    note eqs = q [unfolded r] off al heap
    consider "queue = 0" | "queue \<noteq> 0" "vq_addr = 0" | "queue \<noteq> 0" "vq_addr \<noteq> 0" by blast
    then show ?thesis
    proof cases
      case 3
      obtain k where k: "k \<le> 15" "unat num0 = 2 ^ k" using modern_query_size [OF eqs(1)] by blast
      then have "num0 \<noteq> 0" by auto
      then have "num \<noteq> 0" using ne al 3(1) by (auto simp: no_empty_ring_def)
      moreover note k
      moreover obtain j where "unat num = unat num0 div 2 ^ j" using alloc_scaled_spec [OF al] by blast
      ultimately obtain i where i: "i \<le> 15" "unat (ucast num :: u32) = 2 ^ i"
        using power_of_two_div [of num0 k num j] by auto
      obtain vq where vq: "(if packed_ring vdev then new_virtqueue_packed mem index (ucast num) queue vq_addr w4
            else new_virtqueue_split mem index (ucast num) SMP_CACHE_BYTES queue vq_addr w4) = Some (Some vq)"
        and new: "new_queue_ok index (unat num) vq_addr vq"
        using new_virtqueue_packed_ok [OF ok i(2,1), of index queue vq_addr w4]
          new_virtqueue_split_ok [OF ok i(2,1), of index SMP_CACHE_BYTES queue vq_addr w4]
        by (cases "packed_ring vdev") auto
      obtain res w5 where start: "modern_start_vq ops vdev index msix num queue vq_addr off vq w4 = Some (res, w5)"
        using modern_start_returns [OF new_queue_usable [OF new],
            of ops vdev index msix num queue vq_addr off w4] by auto
      have "vio_modern_setup_vq ops mem vdev info index msix w = Some ((res, ?info1), w5)"
        unfolding vio_modern_setup_vq_def
        by (simp add: eqs 3 vq Let_def start split del: if_split)
      moreover have "queue_ready index ?info1 vq'" if res: "res = Inr vq'" for vq'
      proof -
        obtain a where "vq' = vq\<lparr>notification_addr := a\<rparr>"
          using modern_start_success [OF start [unfolded res]] by blast
        then show ?thesis using new \<open>num \<noteq> 0\<close> new_queue_ready [of index ?info1] by simp
      qed
      ultimately show ?thesis by auto
    qed (auto simp: vio_modern_setup_vq_def eqs Let_def)
  qed
qed

lemma legacy_setup_returns:
  assumes ok: "ring_memory_ok mem"
  shows "\<exists>r info1 w'. vio_legacy_setup_vq ops mem vdev info index msix w = Some ((r, info1), w') \<and>
           info_vq info1 = info_vq info \<and> (\<forall>vq. r = Inr vq \<longrightarrow> queue_ready index info1 vq)"
proof -
  obtain r w1 where q: "run_state (vio_legacy_query_vq_alloc ops mem vdev index) w = (r, w1)"
    by fastforce
  show ?thesis
  proof (cases r)
    case (Inl status)
    then show ?thesis using q by (simp add: vio_legacy_setup_vq_def)
  next
    case (Inr p)
    then obtain num ring heap where r: "r = Inr (num, ring, heap)" by (cases p) auto
    have num: "num \<noteq> 0"
      using q r
      by (auto elim!: run_bindE simp: vio_legacy_query_vq_alloc_def Let_def simp del: run_state_bind
          split: if_splits)
    obtain queue w2 where al: "run_state (mem_alloc_contiguous_pages ops (ucast ring)) w1 = (queue, w2)"
      by fastforce
    let ?info1 = "info\<lparr>info_num := num, info_queue := queue\<rparr>"
    note eqs = q [unfolded r] al
    show ?thesis
    proof (cases "queue = 0")
      case True
      then show ?thesis by (simp add: vio_legacy_setup_vq_def eqs Let_def)
    next
      case False
      obtain pa w3 where pa: "run_state (mem_get_physical_address ops queue) w2 = (pa, w3)" by fastforce
      obtain w4 where pfn: "run_state (vdev_write_dword ops (dev_addr vdev + VIRTIO_PCI_QUEUE_PFN)
          (ucast (drop_bit VIRTIO_PCI_QUEUE_ADDR_SHIFT pa))) w3 = ((), w4)"
        by (rule run_unitE)
      let ?new = "new_virtqueue_split mem index (ucast num) VIRTIO_PCI_VRING_ALIGN queue
                    (queue + ucast (legacy_ring_size num)) w4"
      have "?new = Some None \<or> (\<exists>vq. ?new = Some (Some vq) \<and>
              new_queue_ok index (unat num) (queue + ucast (legacy_ring_size num)) vq)"
      proof (cases "DESC_INDEX (ucast num) (ucast num) = 0")
        case True
        have "(ucast num :: u32) \<noteq> 0" using num by (metis unat_ucast_16_32 unsigned_eq_0_iff)
        then obtain k where "unat (ucast num :: u32) = 2 ^ k"
          using power_of_two_word [of "ucast num :: u32"] True by (auto simp: DESC_INDEX_def)
        moreover from this have "k \<le> 15"
          using unsigned_less [of num, where ?'a = nat] power_less_imp_less_exp [of "2::nat" k 16] by simp
        ultimately show ?thesis
          using new_virtqueue_split_ok [OF ok, of "ucast num" k index VIRTIO_PCI_VRING_ALIGN queue
              "queue + ucast (legacy_ring_size num)" w4] by simp
      next
        case False
        then show ?thesis by (simp add: new_virtqueue_split_def vring_new_virtqueue_split_def)
      qed
      then show ?thesis
      proof (elim disjE exE conjE)
        assume "?new = Some None"
        then show ?thesis
          by (simp add: vio_legacy_setup_vq_def eqs False pa pfn Let_def split: prod.splits)
      next
        fix vq assume vq: "?new = Some (Some vq)"
          and "new_queue_ok index (unat num) (queue + ucast (legacy_ring_size num)) vq"
        then have "queue_ready index ?info1 (vq\<lparr>notification_addr := a\<rparr>)" for a
          using num by (intro new_queue_ready [of index ?info1]) auto
        then show ?thesis
          by (auto simp: vio_legacy_setup_vq_def eqs False pa pfn vq Let_def split: prod.splits)
      qed
    qed
  qed
qed

subsection \<open>The device's queues\<close>

text \<open>
  Invariant of a device: its table has an entry for each of its \<open>maxQueues\<close> queues, and
  every queue in the table carries its own index and can be shut down.
\<close>

definition entry_ok :: "nat \<Rightarrow> 'o virtio_queue_info \<Rightarrow> bool" where
  "entry_ok i info \<longleftrightarrow> (\<forall>vq. info_vq info = Some vq \<longrightarrow> unat (vqo_index vq) = i \<and> vq_usable vq)"

definition device_ok :: "'o virtio_device \<Rightarrow> bool" where
  "device_ok vdev \<longleftrightarrow>
     device vdev \<noteq> NoDevice \<and> dev_info_ptr vdev \<noteq> InfoNull \<and>
     length (dev_info vdev) = unat (maxQueues vdev) \<and>
     (\<forall>i < length (dev_info vdev). entry_ok i (dev_info vdev ! i))"

definition no_queues :: "'o virtio_device \<Rightarrow> bool" where
  "no_queues vdev \<longleftrightarrow> (\<forall>info \<in> set (dev_info vdev). info_vq info = None)"

lemma del_vq_returns:
  assumes "device vdev \<noteq> NoDevice" "info_vq info = Some vq" "vq_usable vq"
  shows "\<exists>w'. dev_delete_queue ops vdev info w = Some ((), w')"
proof -
  obtain q where "virtqueue_shutdown (vqo_ring vq) = Some (Some q)"
    using usable_shutdown [OF assms(3)] by blast
  then show ?thesis
    using assms(1,2)
    by (cases "device vdev")
      (auto simp: dev_delete_queue_def dispatch_def vio_modern_del_vq_def vio_legacy_del_vq_def lift_def
        split: prod.splits)
qed

lemma setup_queue_returns:
  assumes "ring_memory_ok mem" "no_empty_ring ops (packed_ring vdev)" "device vdev \<noteq> NoDevice"
  shows "\<exists>r info1 w'. dev_setup_queue ops mem vdev info index msix w = Some ((r, info1), w') \<and>
           info_vq info1 = info_vq info \<and> (\<forall>vq. r = Inr vq \<longrightarrow> queue_ready index info1 vq)"
  using assms(3) modern_setup_returns [OF assms(1,2)] legacy_setup_returns [OF assms(1)]
  by (cases "device vdev") (simp_all add: dev_setup_queue_def dispatch_def)

lemma device_ok_update:
  assumes "device_ok vdev" "entry_ok i info"
  shows "device_ok (vdev\<lparr>dev_info := (dev_info vdev)[i := info]\<rparr>)"
  using assms unfolding device_ok_def by (simp, metis nth_list_update_eq nth_list_update_neq)

lemma delete_loop_spec:
  assumes "device_ok vdev" "unat i + k = length (dev_info vdev)"
  shows "\<exists>infos w'. delete_loop ops k i vdev w = Some (vdev\<lparr>dev_info := infos\<rparr>, w') \<and>
           device_ok (vdev\<lparr>dev_info := infos\<rparr>) \<and> length infos = length (dev_info vdev) \<and>
           (\<forall>j < unat i. infos ! j = dev_info vdev ! j) \<and>
           (\<forall>j. unat i \<le> j \<longrightarrow> j < length infos \<longrightarrow> info_vq (infos ! j) = None)"
  using assms
proof (induction k arbitrary: i vdev w)
  case 0
  then show ?case by (intro exI [of _ "dev_info vdev"]) auto
next
  case (Suc k)
  let ?info = "dev_info vdev ! unat i"
  have len: "unat i < length (dev_info vdev)" "length (dev_info vdev) < 2 ^ 32"
    using Suc.prems unat_lt_32 [of "maxQueues vdev"] by (auto simp: device_ok_def)
  then have i1: "unat (i + 1) = Suc (unat i)" by (intro unat_Suc_small) auto
  let ?vdev = "vdev\<lparr>dev_info := (dev_info vdev)[unat i := ?info\<lparr>info_vq := None\<rparr>]\<rparr>"
  obtain vdev1 w1 where step: "delete_loop ops (Suc k) i vdev w = delete_loop ops k (i + 1) vdev1 w1"
    and vdev1: "vdev1 = ?vdev"
  proof (cases "info_vq ?info")
    case None
    then have "?info\<lparr>info_vq := None\<rparr> = ?info" by (cases ?info) simp
    then have "?vdev = vdev" by simp
    then show thesis by (intro that [of vdev w]) (simp_all add: rd_def None len)
  next
    case (Some vq)
    then have u: "device vdev \<noteq> NoDevice" "vq_usable vq"
      using Suc.prems(1) len by (auto simp: device_ok_def entry_ok_def)
    obtain w1 where "dev_delete_queue ops vdev ?info w = Some ((), w1)"
      using del_vq_returns [OF u(1) Some u(2), of ops w] by auto
    then show thesis by (intro that [of ?vdev w1]) (simp_all add: rd_def Some len)
  qed
  have "device_ok ?vdev" using Suc.prems(1) by (intro device_ok_update) (simp_all add: entry_ok_def)
  moreover have "unat (i + 1) + k = length (dev_info ?vdev)" using Suc.prems(2) i1 by simp
  ultimately obtain infos w' where r: "delete_loop ops k (i + 1) ?vdev w1 = Some (?vdev\<lparr>dev_info := infos\<rparr>, w')"
    "device_ok (?vdev\<lparr>dev_info := infos\<rparr>)" "length infos = length (dev_info vdev)"
    "\<forall>j < unat (i + 1). infos ! j = dev_info ?vdev ! j"
    "\<forall>j. unat (i + 1) \<le> j \<longrightarrow> j < length infos \<longrightarrow> info_vq (infos ! j) = None"
    using Suc.IH [of ?vdev "i + 1" w1] by auto
  have "info_vq (infos ! unat i) = None" using r(4) len i1 by simp
  then have "info_vq (infos ! j) = None" if "unat i \<le> j" "j < length infos" for j
    using r(5) that i1 by (cases "j = unat i") auto
  then show ?case
    using r step vdev1 i1 by (intro exI [of _ infos] exI [of _ w']) auto
qed

lemma delete_queues_spec:
  assumes "device_ok vdev"
  shows "\<exists>infos w'. virtio_delete_queues ops vdev w = Some (vdev\<lparr>dev_info := infos\<rparr>, w') \<and>
           device_ok (vdev\<lparr>dev_info := infos\<rparr>) \<and> no_queues (vdev\<lparr>dev_info := infos\<rparr>)"
proof -
  have p: "dev_info_ptr vdev \<noteq> InfoNull" "unat (0 :: u32) + unat (maxQueues vdev) = length (dev_info vdev)"
    using assms by (simp_all add: device_ok_def)
  obtain infos w' where r: "delete_loop ops (unat (maxQueues vdev)) 0 vdev w = Some (vdev\<lparr>dev_info := infos\<rparr>, w')"
    "device_ok (vdev\<lparr>dev_info := infos\<rparr>)"
    "\<forall>j. unat (0 :: u32) \<le> j \<longrightarrow> j < length infos \<longrightarrow> info_vq (infos ! j) = None"
    using delete_loop_spec [OF assms p(2), of ops w] by blast
  have "no_queues (vdev\<lparr>dev_info := infos\<rparr>)"
    using r(3) by (auto simp: no_queues_def in_set_conv_nth)
  moreover have "virtio_delete_queues ops vdev w = Some (vdev\<lparr>dev_info := infos\<rparr>, w')"
    using p(1) r(1) by (simp add: virtio_delete_queues_def)
  ultimately show ?thesis using r(2) by blast
qed

lemma setup_loop_spec:
  assumes mem: "ring_memory_ok mem"
    and "device_ok vdev" "no_empty_ring ops (packed_ring vdev)" "unat i + k \<le> length (dev_info vdev)"
  shows "\<exists>r infos w'. setup_loop ops mem k i vdev w = Some ((r, vdev\<lparr>dev_info := infos\<rparr>), w') \<and>
           device_ok (vdev\<lparr>dev_info := infos\<rparr>) \<and> length infos = length (dev_info vdev) \<and>
           (\<forall>j < unat i. infos ! j = dev_info vdev ! j) \<and>
           (\<forall>vqs. r = Inr vqs \<longrightarrow> length vqs = k \<and>
              (\<forall>j < k. info_vq (infos ! (unat i + j)) = Some (vqs ! j) \<and>
                       queue_ready (i + of_nat j) (infos ! (unat i + j)) (vqs ! j)))"
  using assms(2-)
proof (induction k arbitrary: i vdev w)
  case 0
  then show ?case by (intro exI [of _ "Inr []"] exI [of _ "dev_info vdev"]) auto
next
  case (Suc k)
  let ?info = "dev_info vdev ! unat i"
  have len: "unat i < length (dev_info vdev)" "length (dev_info vdev) < 2 ^ 32" "device vdev \<noteq> NoDevice"
    using Suc.prems unat_lt_32 [of "maxQueues vdev"] by (auto simp: device_ok_def)
  then have i1: "unat (i + 1) = Suc (unat i)" by (intro unat_Suc_small) auto
  obtain msix w1 where m: "run_state (vdev_get_msix_vector ops (sint i)) w = (msix, w1)" by fastforce
  obtain r info1 w2 where su: "dev_setup_queue ops mem vdev ?info i msix w1 = Some ((r, info1), w2)"
    "info_vq info1 = info_vq ?info" "\<forall>vq. r = Inr vq \<longrightarrow> queue_ready i info1 vq"
    using setup_queue_returns [OF mem Suc.prems(2) len(3), of ?info i msix w1] by blast
  have info: "entry_ok (unat i) ?info" using Suc.prems(1) len by (simp add: device_ok_def)
  show ?case
  proof (cases r)
    case (Inl status)
    let ?infos = "(dev_info vdev)[unat i := info1]"
    have "entry_ok (unat i) info1" using info su(2) by (simp add: entry_ok_def)
    then have "device_ok (vdev\<lparr>dev_info := ?infos\<rparr>)" using Suc.prems(1) by (rule device_ok_update [rotated])
    moreover have "setup_loop ops mem (Suc k) i vdev w = Some ((Inl status, vdev\<lparr>dev_info := ?infos\<rparr>), w2)"
      using m su Inl len by (simp add: vp_setup_vq_def rd_def)
    ultimately show ?thesis by (intro exI [of _ "Inl status"] exI [of _ ?infos] exI [of _ w2]) auto
  next
    case (Inr vq)
    let ?info2 = "info1\<lparr>info_vq := Some vq\<rparr>"
    let ?vdev = "vdev\<lparr>dev_info := (dev_info vdev)[unat i := ?info2]\<rparr>"
    have ready: "queue_ready i ?info2 vq" using su(3) Inr by (simp add: queue_ready_def)
    then have "entry_ok (unat i) ?info2"
      using queue_ready_usable by (auto simp: entry_ok_def queue_ready_def)
    then have "device_ok ?vdev" using Suc.prems(1) by (rule device_ok_update [rotated])
    moreover have "no_empty_ring ops (packed_ring ?vdev)" using Suc.prems(2) by simp
    moreover have "unat (i + 1) + k \<le> length (dev_info ?vdev)" using Suc.prems(3) i1 by simp
    ultimately obtain r' infos w' where
      r': "setup_loop ops mem k (i + 1) ?vdev w2 = Some ((r', ?vdev\<lparr>dev_info := infos\<rparr>), w')"
      "device_ok (?vdev\<lparr>dev_info := infos\<rparr>)" "length infos = length (dev_info ?vdev)"
      "\<forall>j < unat (i + 1). infos ! j = dev_info ?vdev ! j"
      "\<forall>vqs. r' = Inr vqs \<longrightarrow> length vqs = k \<and>
         (\<forall>j < k. info_vq (infos ! (unat (i + 1) + j)) = Some (vqs ! j) \<and>
                  queue_ready (i + 1 + of_nat j) (infos ! (unat (i + 1) + j)) (vqs ! j))"
      using Suc.IH [of ?vdev "i + 1" w2] by blast
    have at: "infos ! unat i = ?info2" using r'(4) len i1 by simp
    have "setup_loop ops mem (Suc k) i vdev w =
        Some ((map_sum (\<lambda>x. x) ((#) vq) r', vdev\<lparr>dev_info := infos\<rparr>), w')"
      using m su Inr len r'(1) by (simp add: vp_setup_vq_def rd_def id_def)
    moreover have "length vqs = Suc k \<and> (\<forall>j < Suc k. info_vq (infos ! (unat i + j)) = Some (vqs ! j) \<and>
        queue_ready (i + of_nat j) (infos ! (unat i + j)) (vqs ! j))"
      if eq: "map_sum (\<lambda>x. x) ((#) vq) r' = Inr vqs" for vqs
    proof -
      obtain vs where vs: "r' = Inr vs" "vqs = vq # vs" using eq by (cases r') auto
      show ?thesis
        using r'(5) vs at ready i1 by (auto simp: nth_Cons add.assoc split: nat.splits)
    qed
    ultimately show ?thesis
      using r'(2-4) i1 len by (intro exI [of _ "map_sum (\<lambda>x. x) ((#) vq) r'"] exI [of _ infos] exI [of _ w']) auto
  qed
qed

text \<open>
  \<open>virtio_find_queues\<close> returns, keeps the invariant, and is all or nothing: on success the
  table holds exactly the returned queues at their indices, on an error no queue is left.
\<close>

definition queues_found :: "'o virtio_device \<Rightarrow> 'o virtqueue_obj list \<Rightarrow> bool" where
  "queues_found vdev vqs \<longleftrightarrow>
     length vqs \<le> length (dev_info vdev) \<and>
     (\<forall>j < length vqs. info_vq (dev_info vdev ! j) = Some (vqs ! j) \<and>
                       queue_ready (of_nat j) (dev_info vdev ! j) (vqs ! j))"

definition info_entries_zero :: "('o, 'w) ring_memory \<Rightarrow> bool" where
  "info_entries_zero mem \<longleftrightarrow>
     (\<forall>a n w. length (info_entries mem a n w) = unat n \<and>
              (\<forall>info \<in> set (info_entries mem a n w). info_vq info = None))"

lemma device_ok_no_queues:
  assumes "device vdev \<noteq> NoDevice" "dev_info_ptr vdev \<noteq> InfoNull"
    "length (dev_info vdev) = unat (maxQueues vdev)" "no_queues vdev"
  shows "device_ok vdev"
  using assms by (auto simp: device_ok_def no_queues_def entry_ok_def)

lemma reserve_returns:
  assumes "info_entries_zero mem" "device_ok vdev" "no_queues vdev"
  shows "\<exists>status vdev1 w'. virtio_reserve_queue_memory ops mem vdev nvqs w = Some ((status, vdev1), w') \<and>
           device_ok vdev1 \<and> no_queues vdev1 \<and> packed_ring vdev1 = packed_ring vdev \<and>
           (NT_SUCCESS status \<longrightarrow> unat nvqs \<le> length (dev_info vdev1))"
proof (cases "nvqs > maxQueues vdev")
  case False
  then have "unat nvqs \<le> length (dev_info vdev)"
    using assms(2) by (simp add: device_ok_def word_le_nat_alt not_less)
  moreover have "virtio_reserve_queue_memory ops mem vdev nvqs w = Some ((STATUS_SUCCESS, vdev), w)"
    using False by (simp add: virtio_reserve_queue_memory_def)
  ultimately show ?thesis using assms by auto
next
  case True
  obtain p w1 where a: "run_state (mem_alloc_nonpaged_block ops (ucast (nvqs * sizeof_queue_info mem))) w = (p, w1)"
    by fastforce
  show ?thesis
  proof (cases "p = 0")
    case False
    obtain w2 where f: "run_state (case dev_info_ptr vdev of InfoBlock p \<Rightarrow> mem_free_nonpaged_block ops p
                                   | _ \<Rightarrow> State_Monad.return ()) w1 = ((), w2)" by (rule run_unitE)
    let ?vdev = "vdev\<lparr>dev_info_ptr := InfoBlock p, dev_info := info_entries mem p nvqs w2, maxQueues := nvqs\<rparr>"
    have "length (dev_info ?vdev) = unat nvqs" "no_queues ?vdev"
      using assms(1) by (auto simp: info_entries_zero_def no_queues_def)
    moreover from this have "device_ok ?vdev"
      using assms(2) by (intro device_ok_no_queues) (auto simp: device_ok_def)
    moreover have "virtio_reserve_queue_memory ops mem vdev nvqs w = Some ((STATUS_SUCCESS, ?vdev), w2)"
      using True False a f by (simp add: virtio_reserve_queue_memory_def)
    ultimately show ?thesis by auto
  qed (use True assms a in \<open>auto simp: virtio_reserve_queue_memory_def\<close>)
qed

lemma config_vector_returns:
  assumes "device vdev \<noteq> NoDevice"
  shows "\<exists>ok w'. setup_config_vector ops vdev w = Some (ok, w')"
  using assms
  by (cases "device vdev")
    (auto simp: setup_config_vector_def dev_set_config_vector_def dispatch_def lift_def split: prod.splits)

lemma find_queues_spec:
  assumes mem: "ring_memory_ok mem" "info_entries_zero mem"
    and dev: "device_ok vdev" "no_queues vdev" "no_empty_ring ops (packed_ring vdev)"
  shows "\<exists>r vdev' w'. virtio_find_queues ops mem vdev nvqs w = Some ((r, vdev'), w') \<and> device_ok vdev' \<and>
           (case r of Inl _ \<Rightarrow> no_queues vdev' | Inr vqs \<Rightarrow> length vqs = unat nvqs \<and> queues_found vdev' vqs)"
proof -
  obtain status vdev1 w1 where res: "virtio_reserve_queue_memory ops mem vdev nvqs w = Some ((status, vdev1), w1)"
    "device_ok vdev1" "no_queues vdev1" "packed_ring vdev1 = packed_ring vdev"
    "NT_SUCCESS status \<longrightarrow> unat nvqs \<le> length (dev_info vdev1)"
    using reserve_returns [OF mem(2) dev(1,2), of ops nvqs w] by blast
  show ?thesis
  proof (cases "NT_SUCCESS status")
    case False
    then show ?thesis using res by (simp add: virtio_find_queues_def)
  next
    case True
    obtain ok w2 where cv: "setup_config_vector ops vdev1 w1 = Some (ok, w2)"
      using config_vector_returns [of vdev1 ops w1] res(2) by (auto simp: device_ok_def)
    have ne: "no_empty_ring ops (packed_ring vdev1)" using dev(3) res(4) by simp
    obtain r infos w3 where loop: "setup_loop ops mem (unat nvqs) 0 vdev1 w2 = Some ((r, vdev1\<lparr>dev_info := infos\<rparr>), w3)"
      "device_ok (vdev1\<lparr>dev_info := infos\<rparr>)" "length infos = length (dev_info vdev1)"
      "\<forall>vqs. r = Inr vqs \<longrightarrow> length vqs = unat nvqs \<and>
              (\<forall>j < unat nvqs. info_vq (infos ! (unat (0 :: u32) + j)) = Some (vqs ! j) \<and>
                 queue_ready (0 + of_nat j) (infos ! (unat (0 :: u32) + j)) (vqs ! j))"
      using setup_loop_spec [OF mem(1) res(2) ne, of 0 "unat nvqs" w2] res(5) True by auto
    define r2 vdev2 w4 where r2: "r2 = (if ok then r else Inl STATUS_DEVICE_BUSY)"
      "vdev2 = (if ok then vdev1\<lparr>dev_info := infos\<rparr> else vdev1)" "w4 = (if ok then w3 else w2)"
    have mid: "(if ok then setup_loop ops mem (unat nvqs) 0 vdev1 w2
                else Some ((Inl STATUS_DEVICE_BUSY, vdev1), w2)) = Some ((r2, vdev2), w4)"
      using loop(1) by (simp add: r2)
    have ok2: "device_ok vdev2" using res(2) loop(2) by (simp add: r2)
    show ?thesis
    proof (cases r2)
      case (Inr vqs)
      then have "ok" by (auto simp: r2 split: if_splits)
      then have "length vqs = unat nvqs \<and> queues_found vdev2 vqs"
        using loop(3,4) res(5) True Inr by (auto simp: r2 queues_found_def)
      moreover have "virtio_find_queues ops mem vdev nvqs w = Some ((Inr vqs, vdev2), w4)"
        unfolding virtio_find_queues_def by (simp add: res(1) True cv mid Inr split del: if_split)
      ultimately show ?thesis using ok2 by auto
    next
      case (Inl e)
      obtain infos3 w5 where del: "virtio_delete_queues ops vdev2 w4 = Some (vdev2\<lparr>dev_info := infos3\<rparr>, w5)"
        "device_ok (vdev2\<lparr>dev_info := infos3\<rparr>)" "no_queues (vdev2\<lparr>dev_info := infos3\<rparr>)"
        using delete_queues_spec [OF ok2, of ops w4] by blast
      have "virtio_find_queues ops mem vdev nvqs w = Some ((Inl e, vdev2\<lparr>dev_info := infos3\<rparr>), w5)"
        unfolding virtio_find_queues_def by (simp add: res(1) True cv mid Inl del(1) split del: if_split)
      then show ?thesis using del(2,3) by auto
    qed
  qed
qed

end
