(* ===== verification/PciDevice.thy ===== *)
theory PciDevice
  imports PciQueues
begin

text \<open>
  Device-level behaviour of the PCI transports: feature negotiation, the status register,
  reset, access to the device configuration, and the search for a BAR.
\<close>

subsection \<open>Feature negotiation\<close>

lemma status_returns:
  assumes "device vdev \<noteq> NoDevice"
  shows "\<exists>s w'. virtio_get_status ops vdev w = Some (s, w')" "\<exists>w'. virtio_set_status ops vdev v w = Some ((), w')"
  using assms by (cases "device vdev"; simp add: virtio_get_status_def virtio_set_status_def dispatch_def lift_def)+

lemma add_status_returns:
  assumes "device vdev \<noteq> NoDevice"
  shows "\<exists>w'. virtio_add_status ops vdev v w = Some ((), w')"
proof -
  obtain s w1 where "virtio_get_status ops vdev w = Some (s, w1)" using status_returns(1) [OF assms, of ops w] by blast
  moreover obtain w2 where "virtio_set_status ops vdev (s OR v) w1 = Some ((), w2)"
    using status_returns(2) [OF assms, of ops "s OR v" w1] by blast
  ultimately show ?thesis by (simp add: virtio_add_status_def)
qed

lemma set_features_returns:
  assumes "device vdev \<noteq> NoDevice"
  shows "\<exists>r. virtio_set_features ops vdev fs w = Some r"
proof -
  let ?vdev = "vdev\<lparr>event_suppression_enabled := virtio_is_feature_enabled fs VIRTIO_RING_F_EVENT_IDX,
                    packed_ring := virtio_is_feature_enabled fs VIRTIO_F_RING_PACKED\<rparr>"
  have d: "device ?vdev \<noteq> NoDevice" using assms by simp
  obtain st w1 where 1: "dev_set_features ops ?vdev fs w = Some (st, w1)"
    using assms by (cases "device vdev") (simp_all add: dev_set_features_def dispatch_def lift_def, fastforce+)
  obtain w2 where 2: "virtio_add_status ops ?vdev VIRTIO_CONFIG_S_FEATURES_OK w1 = Some ((), w2)"
    using add_status_returns [OF d, of ops VIRTIO_CONFIG_S_FEATURES_OK w1] by blast
  obtain s w3 where 3: "virtio_get_status ops ?vdev w2 = Some (s, w3)"
    using status_returns(1) [OF d, of ops w2] by blast
  show ?thesis by (simp add: virtio_set_features_def Let_def 1 2 3)
qed

lemma set_features_modern:
  assumes m: "device vdev = ModernDevice"
    and run: "virtio_set_features ops vdev fs w = Some ((st, vdev'), w')"
  shows "vdev' = vdev\<lparr>event_suppression_enabled := bit fs 29, packed_ring := bit fs 34\<rparr>"
    and "\<not> bit fs 32 \<Longrightarrow> st = STATUS_INVALID_PARAMETER \<and> w' = w"
    and "NT_SUCCESS st \<Longrightarrow>
           bit fs 32 \<and> (\<exists>s w2. run_state (vdev_read_byte ops (common vdev + cfg_device_status)) w2 = (s, w') \<and> bit s 3)"
proof -
  have f32: "virtio_is_feature_enabled (vring_transport_features fs) VIRTIO_F_VERSION_1 \<longleftrightarrow> bit fs 32"
    by (simp add: feature_enabled_bit vring_transport_features_bit VIRTIO_F_VERSION_1_def)
  show "vdev' = vdev\<lparr>event_suppression_enabled := bit fs 29, packed_ring := bit fs 34\<rparr>"
    using run
    by (auto simp: virtio_set_features_def Let_def feature_enabled_bit VIRTIO_RING_F_EVENT_IDX_def
        VIRTIO_F_RING_PACKED_def elim!: some_bindE split: if_splits)
  show "st = STATUS_INVALID_PARAMETER \<and> w' = w" if "\<not> bit fs 32"
    using run that m f32
    by (auto simp: virtio_set_features_def Let_def dev_set_features_def dispatch_def lift_def
        vio_modern_set_features_def)
  have b3: "bit s 3" if "s AND VIRTIO_CONFIG_S_FEATURES_OK \<noteq> 0" for s :: u8
  proof -
    have "VIRTIO_CONFIG_S_FEATURES_OK = push_bit 3 1" by (simp add: VIRTIO_CONFIG_S_FEATURES_OK_def)
    then show ?thesis using that by (metis bit_iff_and_push_bit_not_eq_0)
  qed
  show "bit fs 32 \<and> (\<exists>s w2. run_state (vdev_read_byte ops (common vdev + cfg_device_status)) w2 = (s, w') \<and> bit s 3)"
    if ns: "NT_SUCCESS st"
  proof -
    have "bit fs 32" using \<open>\<not> bit fs 32 \<Longrightarrow> st = STATUS_INVALID_PARAMETER \<and> w' = w\<close> ns by (cases "bit fs 32") auto
    moreover obtain s w2 where "virtio_get_status ops vdev' w2 = Some (s, w')" "s AND VIRTIO_CONFIG_S_FEATURES_OK \<noteq> 0"
      using run ns \<open>bit fs 32\<close>
      by (auto simp: virtio_set_features_def Let_def feature_enabled_bit VIRTIO_F_VERSION_1_def
          elim!: some_bindE split: if_splits)
    moreover have "device vdev' = ModernDevice" "common vdev' = common vdev"
      using \<open>vdev' = _\<close> m by simp_all
    ultimately show ?thesis
      using b3 by (auto simp: virtio_get_status_def dispatch_def lift_def vio_modern_get_status_def)
  qed
qed

subsection \<open>Reset\<close>

text \<open>One poll of the status register that did not end the wait, and when a poll ends it.\<close>

definition reset_poll :: "'w system_ops \<Rightarrow> u64 \<Rightarrow> 'w \<Rightarrow> 'w" where
  "reset_poll ops c w =
     snd (run_state (do {
       _ \<leftarrow> vdev_read_byte ops (c + cfg_device_status);
       _ \<leftarrow> pci_read_config_word ops 0;
       vdev_sleep ops 1
     }) w)"

definition reset_stops :: "'w system_ops \<Rightarrow> u64 \<Rightarrow> 'w \<Rightarrow> bool" where
  "reset_stops ops c w \<longleftrightarrow>
     (case run_state (vdev_read_byte ops (c + cfg_device_status)) w of (status, w1) \<Rightarrow>
        status = 0 \<or>
        (case run_state (pci_read_config_word ops 0) w1 of ((rc, val), w2) \<Rightarrow> rc \<noteq> 0 \<or> val = 0xffff))"

lemma reset_wait_stop: "reset_stops ops c w \<Longrightarrow> \<exists>r. reset_wait ops c w = Some r"
  by (subst reset_wait.simps) (auto simp: reset_stops_def split: prod.splits)

lemma reset_wait_step: "\<not> reset_stops ops c w \<Longrightarrow> reset_wait ops c w = reset_wait ops c (reset_poll ops c w)"
  by (subst reset_wait.simps) (auto simp: reset_stops_def reset_poll_def split: prod.splits)

lemma reset_wait_terminates:
  "reset_stops ops c ((reset_poll ops c ^^ n) w) \<Longrightarrow> \<exists>r. reset_wait ops c w = Some r"
proof (induction n arbitrary: w)
  case 0
  then show ?case using reset_wait_stop [of ops c w] by simp
next
  case (Suc n)
  then show ?case
    using reset_wait_stop [of ops c w] reset_wait_step [of ops c w]
    by (cases "reset_stops ops c w") (auto simp: funpow_swap1)
qed

lemma reset_wait_returns:
  assumes "reset_wait ops c w = Some r"
  shows "\<exists>n. reset_stops ops c ((reset_poll ops c ^^ n) w)"
proof (rule reset_wait.raw_induct [OF _ assms])
  fix loop :: "'a system_ops \<Rightarrow> u64 \<Rightarrow> 'a \<Rightarrow> (unit \<times> 'a) option" and ops c w r
  assume IH: "\<And>ops c w r. loop ops c w = Some r \<Longrightarrow> \<exists>n. reset_stops ops c ((reset_poll ops c ^^ n) w)"
    and eq: "lift (vdev_read_byte ops (c + cfg_device_status)) w \<bind>
        (\<lambda>(status, w1). if status = 0 then Some ((), w1)
           else lift (pci_read_config_word ops 0) w1 \<bind>
             (\<lambda>((rc, val), w2). if rc \<noteq> 0 \<or> val = 0xffff then Some ((), w2)
                else lift (vdev_sleep ops 1) w2 \<bind> (\<lambda>(_, w3). loop ops c w3))) = Some r"
  show "\<exists>n. reset_stops ops c ((reset_poll ops c ^^ n) w)"
  proof (cases "reset_stops ops c w")
    case True
    then have "reset_stops ops c ((reset_poll ops c ^^ 0) w)" by simp
    then show ?thesis by blast
  next
    case False
    then have "loop ops c (reset_poll ops c w) = Some r"
      using eq by (auto simp: reset_stops_def reset_poll_def split: prod.splits if_splits)
    from IH [OF this] obtain n where "reset_stops ops c ((reset_poll ops c ^^ n) (reset_poll ops c w))" by blast
    then have "reset_stops ops c ((reset_poll ops c ^^ Suc n) w)" by (simp only: funpow_Suc_right o_apply)
    then show ?thesis by blast
  qed
qed

subsection \<open>Initialization\<close>

definition same_queues :: "'o virtio_device \<Rightarrow> 'o virtio_device \<Rightarrow> bool" where
  "same_queues v v' \<longleftrightarrow> dev_info v' = dev_info v \<and> dev_info_ptr v' = dev_info_ptr v \<and> maxQueues v' = maxQueues v"

lemma map_notify_same:
  "run_state (modern_map_notify ops vdev cap) w = ((ok, vdev'), w') \<Longrightarrow> same_queues vdev vdev'"
  by (auto elim!: run_bindE simp: modern_map_notify_def same_queues_def Let_def simp del: run_state_bind
      split: if_splits)

lemma map_config_same:
  "run_state (modern_map_config ops vdev cap) w = ((ok, vdev'), w') \<Longrightarrow> same_queues vdev vdev'"
  by (auto elim!: run_bindE simp: modern_map_config_def same_queues_def simp del: run_state_bind split: if_splits)

lemma map_shared_same:
  "run_state (vio_modern_map_shared_memory_capability ops vdev cap) w = (vdev', w') \<Longrightarrow> same_queues vdev vdev'"
  by (auto elim!: run_bindE simp: vio_modern_map_shared_memory_capability_def same_queues_def Let_def
      simp del: run_state_bind split: if_splits)

lemma map_all_same:
  "run_state (modern_map_all ops vdev caps) w = ((st, vdev'), w') \<Longrightarrow>
   same_queues vdev vdev' \<and> (NT_SUCCESS st \<longrightarrow> device vdev' = ModernDevice)"
  unfolding modern_map_all_def Let_def
  by (auto elim!: run_bindE simp: same_queues_def simp del: run_state_bind split: if_splits
      dest!: map_notify_same map_config_same map_shared_same)

lemma modern_initialize_same:
  "vio_modern_initialize ops vdev w = Some ((st, vdev'), w') \<Longrightarrow>
   same_queues vdev vdev' \<and> (NT_SUCCESS st \<longrightarrow> device vdev' = ModernDevice)"
  unfolding vio_modern_initialize_def Let_def
  by (auto elim!: some_bindE liftE simp: same_queues_def simp del: lift_bind split: if_splits dest!: map_all_same)

lemma legacy_initialize_same:
  "run_state (vio_legacy_initialize ops vdev) w = ((st, vdev'), w') \<Longrightarrow>
   same_queues vdev vdev' \<and> (NT_SUCCESS st \<longrightarrow> device vdev' = LegacyDevice)"
  by (auto elim!: run_bindE simp: vio_legacy_initialize_def same_queues_def Let_def simp del: run_state_bind
      split: if_splits)

text \<open>
  The status register as the specification of the device describes it: it reads back what
  was written. \<open>stat\<close> is the register's value.
\<close>

definition status_addr :: "'o virtio_device \<Rightarrow> u64" where
  "status_addr vdev =
     (case device vdev of LegacyDevice \<Rightarrow> dev_addr vdev + VIRTIO_PCI_STATUS | _ \<Rightarrow> common vdev + cfg_device_status)"

definition status_register :: "'w system_ops \<Rightarrow> u64 \<Rightarrow> ('w \<Rightarrow> u8) \<Rightarrow> bool" where
  "status_register ops a stat \<longleftrightarrow>
     (\<forall>w. run_state (vdev_read_byte ops a) w = (stat w, w)) \<and>
     (\<forall>v w. stat (snd (run_state (vdev_write_byte ops a v) w)) = v)"

lemma status_read: "status_register ops a stat \<Longrightarrow> run_state (vdev_read_byte ops a) w = (stat w, w)"
  by (simp add: status_register_def)

lemma status_write: "status_register ops a stat \<Longrightarrow> run_state (vdev_write_byte ops a v) w = ((), w1) \<Longrightarrow> stat w1 = v"
  by (metis snd_conv status_register_def)

lemma add_status_register:
  assumes "device vdev \<noteq> NoDevice" "status_register ops (status_addr vdev) stat"
    and "virtio_add_status ops vdev v w = Some ((), w')"
  shows "stat w' = stat w OR v"
proof (cases "device vdev")
  case ModernDevice
  then have r: "status_register ops (common vdev + cfg_device_status) stat" using assms(2) by (simp add: status_addr_def)
  then show ?thesis
    using ModernDevice assms(3) status_write [OF r]
    by (auto simp: virtio_add_status_def virtio_get_status_def virtio_set_status_def dispatch_def lift_def
        vio_modern_get_status_def vio_modern_set_status_def status_read [OF r])
next
  case LegacyDevice
  then have r: "status_register ops (dev_addr vdev + VIRTIO_PCI_STATUS) stat" using assms(2) by (simp add: status_addr_def)
  then show ?thesis
    using LegacyDevice assms(3) status_write [OF r]
    by (auto simp: virtio_add_status_def virtio_get_status_def virtio_set_status_def dispatch_def lift_def
        vio_legacy_get_status_def vio_legacy_set_status_def status_read [OF r])
qed (use assms in simp)

lemma reset_register:
  assumes "device vdev \<noteq> NoDevice" "status_register ops (status_addr vdev) stat"
  shows "\<exists>w'. virtio_device_reset ops vdev w = Some ((), w') \<and> stat w' = 0"
proof (cases "device vdev")
  case ModernDevice
  then have r: "status_register ops (common vdev + cfg_device_status) stat" using assms(2) by (simp add: status_addr_def)
  obtain w1 where w1: "run_state (vdev_write_byte ops (common vdev + cfg_device_status) 0) w = ((), w1)"
    by (rule run_unitE)
  then have "stat w1 = 0" using status_write [OF r] by blast
  then have "reset_wait ops (common vdev) w1 = Some ((), w1)"
    by (subst reset_wait.simps) (simp add: status_read [OF r])
  then show ?thesis
    using ModernDevice w1 \<open>stat w1 = 0\<close> by (simp add: virtio_device_reset_def dispatch_def vio_modern_reset_def)
next
  case LegacyDevice
  then have r: "status_register ops (dev_addr vdev + VIRTIO_PCI_STATUS) stat" using assms(2) by (simp add: status_addr_def)
  obtain w1 where w1: "run_state (vdev_write_byte ops (dev_addr vdev + VIRTIO_PCI_STATUS) 0) w = ((), w1)"
    by (rule run_unitE)
  then show ?thesis
    using LegacyDevice status_write [OF r w1]
    by (simp add: virtio_device_reset_def dispatch_def vio_legacy_reset_def lift_def)
qed (use assms in simp)

lemma initialize_success:
  fixes vdev :: "'o virtio_device"
  assumes run: "virtio_device_initialize ops msix w = Some ((st, vdev), w')" and ok: "NT_SUCCESS st"
  shows "device_ok vdev \<and> no_queues vdev \<and>
         (\<forall>stat. status_register ops (status_addr vdev) stat \<longrightarrow> stat w' = VIRTIO_CONFIG_S_ACKNOWLEDGE OR VIRTIO_CONFIG_S_DRIVER)"
proof -
  obtain st0 vdev0 w1 where
    i0: "vio_modern_initialize ops (initial_device msix :: 'o virtio_device) w = Some ((st0, vdev0), w1)"
    using run by (auto simp: virtio_device_initialize_def elim!: some_bindE)
  obtain w2 w3 w4 where same: "same_queues (initial_device msix) vdev" "device vdev \<noteq> NoDevice"
    and seq: "virtio_device_reset ops vdev w2 = Some ((), w3)"
      "virtio_add_status ops vdev VIRTIO_CONFIG_S_ACKNOWLEDGE w3 = Some ((), w4)"
      "virtio_add_status ops vdev VIRTIO_CONFIG_S_DRIVER w4 = Some ((), w')"
    using run ok modern_initialize_same [OF i0]
    by (auto simp: virtio_device_initialize_def i0 same_queues_def simp del: lift_bind
        elim!: some_bindE liftE split: if_splits dest!: legacy_initialize_same)
  have "no_queues vdev" "length (dev_info vdev) = unat (maxQueues vdev)" "dev_info_ptr vdev \<noteq> InfoNull"
    using same(1) by (auto simp: same_queues_def initial_device_def no_queues_def zero_info_def)
  moreover have "stat w' = VIRTIO_CONFIG_S_ACKNOWLEDGE OR VIRTIO_CONFIG_S_DRIVER"
    if "status_register ops (status_addr vdev) stat" for stat
    using reset_register [OF same(2) that, of w2] add_status_register [OF same(2) that seq(2)]
      add_status_register [OF same(2) that seq(3)] seq(1) by auto
  ultimately show ?thesis using same(2) device_ok_no_queues by blast
qed

subsection \<open>Device configuration\<close>

text \<open>
  A multi-field read that returns was taken between two reads of the generation that agree:
  the fields are a snapshot of one generation.
\<close>

definition snapshot ::
  "'w system_ops \<Rightarrow> 'o virtio_device \<Rightarrow> u32 \<Rightarrow> nat \<Rightarrow> nat \<Rightarrow> u8 list \<Rightarrow> 'w \<Rightarrow> bool" where
  "snapshot ops vdev off bytes cnt buf' w' \<longleftrightarrow>
     (\<exists>g w0 w1 w2 b. dev_get_config_generation ops vdev w0 = Some (g, w1) \<and>
        cread_fields ops vdev off bytes cnt 0 b w1 = Some (buf', w2) \<and>
        dev_get_config_generation ops vdev w2 = Some (g, w'))"

lemma snapshotI:
  "dev_get_config_generation ops vdev w0 = Some (g, w1) \<Longrightarrow>
   cread_fields ops vdev off bytes cnt 0 b w1 = Some (buf', w2) \<Longrightarrow>
   dev_get_config_generation ops vdev w2 = Some (g, w') \<Longrightarrow> snapshot ops vdev off bytes cnt buf' w'"
  unfolding snapshot_def by blast

lemma cread_loop_snapshot:
  fixes ops :: "'w system_ops" and vdev :: "'o virtio_device"
  assumes "cread_loop ops vdev off cnt bytes old buf w = Some (buf', w')"
    and "dev_get_config_generation ops vdev w0 = Some (old, w)"
  shows "snapshot ops vdev off bytes cnt buf' w'"
proof -
  let ?P = "\<lambda>ops vdev off cnt bytes old buf w (r :: u8 list \<times> 'w).
     \<forall>w0. dev_get_config_generation ops vdev w0 = Some (old, w) \<longrightarrow> snapshot ops vdev off bytes cnt (fst r) (snd r)"
  have "?P ops vdev off cnt bytes old buf w (buf', w')"
  proof (rule cread_loop.raw_induct [where P = ?P, OF _ assms(1)])
    fix loop and ops :: "'w system_ops" and vdev :: "'o virtio_device" and off cnt bytes old buf w r
    assume IH: "\<And>ops (vdev :: 'o virtio_device) off cnt bytes old buf w r.
        loop ops vdev off cnt bytes old buf w = Some r \<Longrightarrow> ?P ops vdev off cnt bytes old buf w r"
      and eq: "cread_fields ops vdev off bytes cnt 0 buf w \<bind>
         (\<lambda>(buf1, w1). dev_get_config_generation ops vdev w1 \<bind>
            (\<lambda>(gen, w2). if gen \<noteq> old then loop ops vdev off cnt bytes gen buf1 w2 else Some (buf1, w2))) = Some r"
    obtain buf1 w1 gen w2 where s: "cread_fields ops vdev off bytes cnt 0 buf w = Some (buf1, w1)"
      "dev_get_config_generation ops vdev w1 = Some (gen, w2)"
      "(if gen \<noteq> old then loop ops vdev off cnt bytes gen buf1 w2 else Some (buf1, w2)) = Some r"
      using eq by (auto elim!: some_bindE)
    show "?P ops vdev off cnt bytes old buf w r"
    proof (cases "gen = old")
      case True
      then show ?thesis using s snapshotI by fastforce
    next
      case False
      then show ?thesis using s IH [of ops vdev off cnt bytes gen buf1 w2 r] by auto
    qed
  qed
  then show ?thesis using assms(2) by auto
qed

lemma cread_many_snapshot:
  "virtio_cread_many ops vdev off buf cnt bytes w = Some (buf', w') \<Longrightarrow> snapshot ops vdev off bytes cnt buf' w'"
  by (auto simp: virtio_cread_many_def elim!: some_bindE cread_loop_snapshot)

text \<open>Bytes in a buffer and registers.\<close>

lemma le_u16_roundtrip: "le_of_bytes (bytes_of_u16 v) = v"
  by (rule bit_word_eqI)
    (auto simp: bytes_of_u16_def bit_or_iff bit_push_bit_iff bit_unsigned_iff bit_drop_bit_eq)

lemma le_u32_roundtrip: "le_of_bytes (bytes_of_u32 v) = v"
proof (rule bit_word_eqI)
  fix n assume "n < LENGTH(32)"
  then consider "n < 8" | "8 \<le> n" "n < 16" | "16 \<le> n" "n < 24" | "24 \<le> n" "n < 32" by (simp, linarith)
  then show "bit (le_of_bytes (bytes_of_u32 v) :: u32) n \<longleftrightarrow> bit v n"
    by cases (auto simp: bytes_of_u32_def bit_or_iff bit_push_bit_iff bit_unsigned_iff bit_drop_bit_eq)
qed

subsection \<open>Base address registers\<close>

text \<open>The address that the register at index \<open>i\<close> holds, and the index of the next register.\<close>

definition bar_decode :: "u32 list \<Rightarrow> nat \<Rightarrow> (u64 \<times> nat) option" where
  "bar_decode bars i = do {
     lo \<leftarrow> nth_opt bars i;
     if lo AND PCI_ADDRESS_IO_SPACE \<noteq> 0 then Some (ucast (lo AND PCI_ADDRESS_IO_ADDRESS_MASK), Suc i)
     else if lo AND PCI_ADDRESS_MEMORY_TYPE_MASK = PCI_TYPE_64BIT then do {
       hi \<leftarrow> nth_opt bars (i + 1);
       Some (ucast (lo AND PCI_ADDRESS_MEMORY_ADDRESS_MASK) OR push_bit 32 (ucast hi), Suc (Suc i))
     }
     else Some (ucast (lo AND PCI_ADDRESS_MEMORY_ADDRESS_MASK), Suc i)
   }"

lemma bar_loop_decode:
  "bar_loop bars base i =
     (if i < 6 then do {
        (a, n) \<leftarrow> bar_decode bars i;
        if a = base then Some (int i) else bar_loop bars base n
      } else Some (- 1))"
  by (subst bar_loop.simps) (auto simp: bar_decode_def PCI_TYPE0_ADDRESSES_def nth_opt_def)

text \<open>
  A non-negative result names a register that holds the address. The loop leaves the array
  only through a 64-bit register in the last slot.
\<close>

lemma bar_loop_sound:
  assumes "bar_loop bars base i = Some r" "r \<noteq> - 1"
  shows "\<exists>j n. r = int j \<and> i \<le> j \<and> j < 6 \<and> bar_decode bars j = Some (base, n)"
  using assms(1)
proof (induction "6 - i" arbitrary: i rule: less_induct)
  case less
  have i: "i < 6" using less.prems assms(2) bar_loop_decode [of bars base i] by (auto split: if_splits)
  then obtain a n where a: "bar_decode bars i = Some (a, n)"
    "(if a = base then Some (int i) else bar_loop bars base n) = Some r"
    using less.prems bar_loop_decode [of bars base i] by (auto elim!: some_bindE)
  have n: "i < n" using a(1) by (auto simp: bar_decode_def elim!: some_bindE split: if_splits)
  show ?case
  proof (cases "a = base")
    case True
    then show ?thesis using a i by auto
  next
    case False
    then have "bar_loop bars base n = Some r" using a(2) by simp
    then have "\<exists>j m. r = int j \<and> n \<le> j \<and> j < 6 \<and> bar_decode bars j = Some (base, m)"
      using less.hyps [of n] n i by simp
    then show ?thesis using n by auto
  qed
qed

lemma bar_loop_total:
  assumes len: "length bars = 6"
    and last: "bars ! 5 AND PCI_ADDRESS_IO_SPACE \<noteq> 0 \<or> bars ! 5 AND PCI_ADDRESS_MEMORY_TYPE_MASK \<noteq> PCI_TYPE_64BIT"
  shows "\<exists>r. bar_loop bars base i = Some r"
proof (induction "6 - i" arbitrary: i rule: less_induct)
  case less
  show ?case
  proof (cases "i < 6")
    case True
    then have "\<exists>a n. bar_decode bars i = Some (a, n) \<and> i < n"
      using len last by (cases "i = 5") (auto simp: bar_decode_def nth_opt_def)
    then obtain a n where "bar_decode bars i = Some (a, n)" "i < n" by blast
    then show ?thesis using less [of n] True by (subst bar_loop_decode) auto
  next
    case False
    then show ?thesis by (subst bar_loop_decode) simp
  qed
qed

end
