(* ===== verification/PciProperties.thy ===== *)
theory PciProperties
  imports PciDevice RingProperties
begin

text \<open>
  The properties of the PCI transport: discovery of the capabilities, bring-up, feature
  negotiation, reset, configuration reads and the life of the queues. The system
  operations of the bus driver are a parameter of the model; a small simulated device at
  the top provides the concrete inputs on which the statements are tried.
\<close>

subsection \<open>A small device\<close>

text \<open>
  The world is the status register. The configuration space has a common, a notification,
  an interrupt status and a device capability in one memory BAR.
\<close>

definition demo_config :: "int \<Rightarrow> u8" where
  "demo_config i = (case map_of
     [(0x06, 0x10), (0x34, 0x40),
      (0x40, 9), (0x41, 0x50), (0x43, 1), (0x4d, 0x10),
      (0x50, 9), (0x51, 0x64), (0x53, 2), (0x59, 0x10), (0x5d, 0x10), (0x60, 4),
      (0x64, 9), (0x65, 0x74), (0x67, 3), (0x6d, 0x20), (0x71, 0x10),
      (0x74, 9), (0x77, 4), (0x7d, 0x30), (0x81, 0x10)] i of Some b \<Rightarrow> b | None \<Rightarrow> 0)"

definition demo_ops :: "u8 system_ops" where
  "demo_ops = \<lparr>
     vdev_read_byte = (\<lambda>_. State (\<lambda>w. (w, w))),
     vdev_read_word = (\<lambda>_. State (\<lambda>w. (4, w))),
     vdev_read_dword = (\<lambda>_. State (\<lambda>w. (0, w))),
     vdev_write_byte = (\<lambda>_ v. State (\<lambda>_. ((), v))),
     vdev_write_word = (\<lambda>_ _. State (\<lambda>w. ((), w))),
     vdev_write_dword = (\<lambda>_ _. State (\<lambda>w. ((), w))),
     mem_alloc_contiguous_pages = (\<lambda>_. State (\<lambda>w. (0x10000, w))),
     mem_free_contiguous_pages = (\<lambda>_. State (\<lambda>w. ((), w))),
     mem_get_physical_address = (\<lambda>a. State (\<lambda>w. (a, w))),
     mem_alloc_nonpaged_block = (\<lambda>_. State (\<lambda>w. (0x20000, w))),
     mem_free_nonpaged_block = (\<lambda>_. State (\<lambda>w. ((), w))),
     pci_read_config_byte = (\<lambda>i. State (\<lambda>w. ((0, demo_config i), w))),
     pci_read_config_word = (\<lambda>i. State (\<lambda>w. ((0, le_of_bytes [demo_config i, demo_config (i + 1)]), w))),
     pci_read_config_dword = (\<lambda>i. State (\<lambda>w. ((0, le_of_bytes [demo_config i, demo_config (i + 1),
        demo_config (i + 2), demo_config (i + 3)]), w))),
     pci_get_resource_len = (\<lambda>_. State (\<lambda>w. (0x10000, w))),
     pci_map_address_range = (\<lambda>_ off _. State (\<lambda>w. (0x100000 + off, w))),
     vdev_get_msix_vector = (\<lambda>_. State (\<lambda>w. (0xffff, w))),
     vdev_sleep = (\<lambda>_. State (\<lambda>w. ((), w)))\<rparr>"

definition demo_device :: "nat virtio_device" where
  "demo_device = snd (fst (the (virtio_device_initialize demo_ops False 0)))"

lemma demo_init_run:
  "virtio_device_initialize demo_ops False 0 = Some ((STATUS_SUCCESS, demo_device), 3)"
  by code_simp

subsection \<open>Discovery\<close>



text \<open>
  C18: what the search stores. Every offset in the resulting table is zero, for a capability
  that was not found, or a multiple of four between 0x40 and 0xfc; the table keeps its
  length. This holds for every content of the configuration space.
\<close>

theorem capability_table_bounds:
  assumes "find_pci_vendor_capabilities ops (replicate n 0) w = Some (caps, w')"
  shows "length caps = n \<and> list_all (\<lambda>c. c = 0 \<or> (0x40 \<le> c \<and> c \<le> 0xfc \<and> c mod 4 = 0)) caps"
  using find_pci_vendor_capabilities_ok [OF assms] by (simp add: caps_ok_def list_all_iff)

theorem capability_table_bounds_witness:
  "\<exists>caps. find_pci_vendor_capabilities demo_ops (replicate 9 0) 0 = Some (caps, 0) \<and> length caps = 9"
proof -
  have "find_pci_vendor_capabilities demo_ops (replicate 9 0) 0 = Some ([0, 0x40, 0x50, 0x64, 0x74, 0, 0, 0, 0], 0)"
    by code_simp
  with capability_table_bounds [OF this] show ?thesis by simp
qed

text \<open>
  C19: mapping a capability. When \<open>vio_modern_map_capability\<close> returns an address, it came
  from mapping a range that starts at an aligned offset, has at least the minimal and at
  most the requested length, and the minimal part of it lies inside the BAR, with no
  wrap-around in the sum.
\<close>

theorem mapped_capability_inside_bar:
  assumes "run_state (vio_modern_map_capability ops cap minlen al start sz) w = ((addr, len), w')"
    and "addr \<noteq> 0" "minlen \<le> ucast sz"
  shows "\<exists>bar off n rlen w1 w2.
           run_state (pci_get_resource_len ops bar) w1 = (rlen, w2) \<and>
           run_state (pci_map_address_range ops bar (ucast off) (ucast n)) w2 = (addr, w') \<and>
           len = Some (ucast n) \<and> off AND (al - 1) = 0 \<and>
           unat off + unat minlen \<le> unat rlen \<and> minlen \<le> ucast n \<and> n \<le> sz"
  by (rule map_capability_inside [OF assms])

theorem mapped_capability_inside_bar_witness:
  "\<exists>(off :: u32) (n :: u32). unat off + 2 \<le> 0x10000 \<and> n \<le> 0x1000 \<and>
     fst (run_state (vio_modern_map_capability demo_ops 0x50 2 2 0 0x1000) 0) = (0x100000 + ucast off, Some (ucast n))"
proof -
  have run: "run_state (vio_modern_map_capability demo_ops 0x50 2 2 0 0x1000) 0 = ((0x101000, Some 0x1000), 0)"
    by code_simp
  have prems: "(0x101000 :: u64) \<noteq> 0" "(2 :: u64) \<le> ucast (0x1000 :: u32)" by simp_all
  obtain bar w1 w2 rlen and off n :: u32 where
    r: "run_state (pci_get_resource_len demo_ops bar) w1 = (rlen, w2)"
    "run_state (pci_map_address_range demo_ops bar (ucast off) (ucast n)) w2 = (0x101000, 0)"
    "Some 0x1000 = Some (ucast n :: u64)" "unat off + unat (2 :: u64) \<le> unat rlen" "n \<le> 0x1000"
    using mapped_capability_inside_bar [OF run prems] by (elim exE conjE) (rule that)
  moreover have "rlen = 0x10000" "(0x101000 :: u64) = 0x100000 + ucast off"
    using r(1,2) by (simp_all add: demo_ops_def)
  ultimately show ?thesis unfolding run by (intro exI [of _ off] exI [of _ n]) simp
qed




subsection \<open>Bring-up and negotiation\<close>

text \<open>
  C12: bring-up. When \<open>virtio_device_initialize\<close> succeeds, for a modern or a legacy
  device, the device has its operations and an empty queue table that satisfies the
  invariant of the queue routines; and if the status register keeps what is written to it,
  it holds exactly the acknowledge and driver bits.
\<close>

theorem initialize_ready:
  assumes "virtio_device_initialize ops msix w = Some ((st, vdev), w')" and "NT_SUCCESS st"
    and "status_register ops (status_addr vdev) stat"
  shows "device_ok vdev \<and> no_queues vdev \<and> stat w' = VIRTIO_CONFIG_S_ACKNOWLEDGE OR VIRTIO_CONFIG_S_DRIVER"
  using initialize_success [OF assms(1,2)] assms(3) by simp

theorem initialize_ready_witness: "device_ok demo_device \<and> no_queues demo_device"
proof -
  have "status_register demo_ops (status_addr demo_device) id" by (simp add: status_register_def demo_ops_def)
  from initialize_ready [OF demo_init_run _ this] show ?thesis by simp
qed

text \<open>
  C20: feature negotiation on a modern device. The flags that choose the ring layout and the
  event suppression follow the features passed in. Without \<open>VIRTIO_F_VERSION_1\<close> the call
  fails before anything is written. It reports success only if the device, asked after
  \<open>FEATURES_OK\<close> was set, still has that bit in its status.
\<close>

theorem negotiation_checked:
  assumes "device vdev = ModernDevice" "virtio_set_features ops vdev fs w = Some ((st, vdev'), w')"
  shows "vdev' = vdev\<lparr>event_suppression_enabled := bit fs 29, packed_ring := bit fs 34\<rparr> \<and>
    (bit fs 32 \<or> (st = STATUS_INVALID_PARAMETER \<and> w' = w)) \<and>
    (NT_SUCCESS st \<longrightarrow> bit fs 32 \<and>
       (\<exists>s w2. run_state (vdev_read_byte ops (common vdev + cfg_device_status)) w2 = (s, w') \<and> bit s 3))"
  using set_features_modern [OF assms] by blast

theorem negotiation_checked_witness:
  "\<exists>vdev'. virtio_set_features demo_ops demo_device (2 ^ 32) 3 = Some ((STATUS_SUCCESS, vdev'), 11) \<and>
     \<not> packed_ring vdev'"
proof -
  have "device demo_device = ModernDevice" by code_simp
  moreover have "virtio_set_features demo_ops demo_device (2 ^ 32) 3 =
      Some ((STATUS_SUCCESS, demo_device\<lparr>event_suppression_enabled := False, packed_ring := False\<rparr>), 11)"
    by code_simp
  ultimately show ?thesis using negotiation_checked [of demo_device demo_ops "2 ^ 32" 3] by fastforce
qed

text \<open>
  C21: waiting for a reset. The loop of \<open>vio_modern_reset\<close> returns if and only if at some
  poll the device reports status zero or the configuration space has become unreadable;
  there is no other bound.
\<close>

theorem reset_wait_iff:
  "(\<exists>r. reset_wait ops c w = Some r) \<longleftrightarrow> (\<exists>n. reset_stops ops c ((reset_poll ops c ^^ n) w))"
  using reset_wait_terminates [of ops c _ w] reset_wait_returns [of ops c w] by (metis)

text \<open>
  C22: reading multi-byte configuration fields. Whenever \<open>virtio_cread_many\<close> returns, the
  bytes in the buffer were all read between two reads of the configuration generation that
  gave the same value: a torn read across a configuration change is never returned.
\<close>

theorem config_read_consistent:
  assumes "virtio_cread_many ops vdev off buf cnt bytes w = Some (buf', w')"
  shows "snapshot ops vdev off bytes cnt buf' w'"
  by (rule cread_many_snapshot [OF assms])

theorem config_read_consistent_witness:
  "snapshot demo_ops demo_device 0 4 2 (the (map_option fst (virtio_cread_many demo_ops demo_device 0 (replicate 8 0) 2 4 3))) 3"
proof -
  have "virtio_cread_many demo_ops demo_device 0 (replicate 8 0) 2 4 3 = Some (replicate 8 0, 3)" by code_simp
  with config_read_consistent [OF this] show ?thesis by simp
qed

text \<open>
  C23: finding the BAR of a resource. An index other than -1 names a BAR register whose
  decoded base address, over two registers for a 64-bit BAR, is the address asked for; and
  the search returns for every set of six registers unless the last one claims to be the low
  half of a 64-bit BAR, where the code reads past the array.
\<close>

theorem bar_index_sound:
  assumes "length bars = 6"
  shows "(case virtio_get_bar_index bars base of
       None \<Rightarrow> bars ! 5 AND PCI_ADDRESS_IO_SPACE = 0 \<and> bars ! 5 AND PCI_ADDRESS_MEMORY_TYPE_MASK = PCI_TYPE_64BIT
     | Some r \<Rightarrow> r = - 1 \<or> (\<exists>j n. r = int j \<and> j < 6 \<and> bar_decode bars j = Some (base, n)))"
proof (cases "virtio_get_bar_index bars base")
  case None
  then show ?thesis using bar_loop_total [OF assms, of base 0] by (auto simp: virtio_get_bar_index_def)
next
  case (Some r)
  then show ?thesis using bar_loop_sound [of bars base 0 r] by (auto simp: virtio_get_bar_index_def)
qed

theorem bar_index_sound_witness:
  "virtio_get_bar_index [0xc001, 0, 0xfe00000c, 1, 0, 0] 0x1fe000000 = Some 2 \<and>
   (\<exists>j n. (2 :: int) = int j \<and> j < 6 \<and> bar_decode [0xc001, 0, 0xfe00000c, 1, 0, 0] j = Some (0x1fe000000, n))"
proof -
  have "virtio_get_bar_index [0xc001, 0, 0xfe00000c, 1, 0, 0] 0x1fe000000 = Some 2" by code_simp
  with bar_index_sound [of "[0xc001, 0, 0xfe00000c, 1, 0, 0]" "0x1fe000000"] show ?thesis by simp
qed

subsection \<open>Queues\<close>







text \<open>
  C24: where a queue is kicked. When the notification area is mapped as a whole, the address
  assigned to a queue is the base plus offset times multiplier, computed without
  wrap-around, and the two bytes written by a kick lie inside the area.
\<close>

theorem notification_inside_area:
  assumes "run_state (modern_notification_addr ops vdev off) w = (Inr addr, w')"
    and "notify_base vdev \<noteq> 0" "notify_len vdev \<le> ucast (0xffffffff :: u32)"
  shows "addr = notify_base vdev + of_nat (unat off * unat (notify_offset_multiplier vdev)) \<and>
    unat off * unat (notify_offset_multiplier vdev) + 2 \<le> unat (notify_len vdev)"
  using notification_addr_inside [OF assms] by simp

theorem notification_inside_area_witness:
  "unat (3 :: u16) * unat (notify_offset_multiplier demo_device) + 2 \<le> unat (notify_len demo_device)"
proof -
  have "run_state (modern_notification_addr demo_ops demo_device 3) 0 = (Inr 0x10100c, 0)"
    "notify_base demo_device \<noteq> 0" "notify_len demo_device \<le> ucast (0xffffffff :: u32)" by code_simp+
  from notification_inside_area [OF this] show ?thesis by simp
qed

end
