(* ===== verification/WdfDma.thy ===== *)
theory WdfDma
  imports PciTypes
begin

text \<open>
  DMA memory of the WDF library, \<^verbatim>\<open>src/VirtIO/WDF/Dma.c\<close>: the collection of common
  buffers, translation of addresses, release by address and by tag, memory handed out in
  slices, and the reference count of a DMA transaction.

  The framework calls are arguments: what \<open>WdfCommonBufferCreate\<close> returned, whether
  \<open>WdfCollectionAdd\<close> succeeded, whether the caller runs at \<open>PASSIVE_LEVEL\<close>. The collection
  is a list in its order; the spin lock makes every use of it atomic.
\<close>

subsection \<open>Common buffers\<close>

record mem_block =
  pVirtualAddress :: u64
  PhysicalAddress :: u64
  Length :: u64
  groupTag :: u32
  bToBeDeleted :: bool

definition AllocateCommonBuffer ::
  "bool \<Rightarrow> (u64 \<times> u64) option \<Rightarrow> bool \<Rightarrow> u64 \<Rightarrow> u32 \<Rightarrow> mem_block list \<Rightarrow> u64 \<times> mem_block list" where
  "AllocateCommonBuffer passive created added sz tag blocks =
     (if \<not> passive then (0, blocks)
      else case created of
        None \<Rightarrow> (0, blocks)
      | Some (va, pa) \<Rightarrow>
          if \<not> added then (0, blocks)
          else (va, blocks @ [\<lparr>pVirtualAddress = va, PhysicalAddress = pa, Length = sz, groupTag = tag,
                               bToBeDeleted = False\<rparr>]))"

definition block_covers :: "mem_block \<Rightarrow> u64 \<Rightarrow> bool" where
  "block_covers b va \<longleftrightarrow> pVirtualAddress b \<le> va \<and> va < pVirtualAddress b + Length b"

text \<open>The search loop: the index of the first block that covers the address.\<close>

fun find_block :: "mem_block list \<Rightarrow> u64 \<Rightarrow> bool \<Rightarrow> nat option" where
  "find_block [] va bRemoval = None"
| "find_block (b # bs) va bRemoval =
     (if bToBeDeleted b \<and> \<not> bRemoval then map_option Suc (find_block bs va bRemoval)
      else if block_covers b va then Some 0
      else map_option Suc (find_block bs va bRemoval))"

definition remove_nth :: "nat \<Rightarrow> 'a list \<Rightarrow> 'a list" where
  "remove_nth i xs = take i xs @ drop (Suc i) xs"

text \<open>The result, the physical address and offset when a block was found, the collection.\<close>

definition FindCommonBuffer ::
  "bool \<Rightarrow> mem_block list \<Rightarrow> u64 \<Rightarrow> bool \<Rightarrow> bool \<times> (u64 \<times> u64) option \<times> mem_block list" where
  "FindCommonBuffer passive blocks va bRemoval =
     (case find_block blocks va bRemoval of
        None \<Rightarrow> (False, None, blocks)
      | Some i \<Rightarrow>
          let ctx = blocks ! i;
              off = va - pVirtualAddress ctx;
              b = (if bRemoval then off = 0 else True);
              blocks1 = (if bRemoval \<and> b then blocks[i := ctx\<lparr>bToBeDeleted := True\<rparr>] else blocks);
              blocks2 = (if b \<and> bRemoval \<and> passive then remove_nth i blocks1 else blocks1)
          in (b, Some (PhysicalAddress ctx, off), blocks2))"

definition GetPhysicalAddress :: "mem_block list \<Rightarrow> u64 \<Rightarrow> u64" where
  "GetPhysicalAddress blocks va =
     (case FindCommonBuffer True blocks va False of
        (True, Some (pa, off), _) \<Rightarrow> pa + off
      | _ \<Rightarrow> 0)"

definition VirtIOWdfDeviceFreeDmaMemory :: "bool \<Rightarrow> u64 \<Rightarrow> mem_block list \<Rightarrow> mem_block list" where
  "VirtIOWdfDeviceFreeDmaMemory passive va blocks =
     (case FindCommonBuffer passive blocks va True of (_, _, blocks1) \<Rightarrow> blocks1)"

fun find_tag :: "mem_block list \<Rightarrow> u32 \<Rightarrow> nat option" where
  "find_tag [] tag = None"
| "find_tag (b # bs) tag = (if groupTag b = tag then Some 0 else map_option Suc (find_tag bs tag))"

definition FindCommonBufferByTag :: "mem_block list \<Rightarrow> u32 \<Rightarrow> bool \<times> mem_block list" where
  "FindCommonBufferByTag blocks tag =
     (case find_tag blocks tag of
        None \<Rightarrow> (False, blocks)
      | Some i \<Rightarrow> (True, remove_nth i blocks))"

lemma find_block_less: "find_block bs va r = Some i \<Longrightarrow> i < length bs"
  by (induction bs arbitrary: i) (auto split: if_splits)

lemma find_tag_less: "find_tag bs tag = Some i \<Longrightarrow> i < length bs"
  by (induction bs arbitrary: i) (auto split: if_splits)

lemma length_remove_nth: "i < length xs \<Longrightarrow> length (remove_nth i xs) = length xs - 1"
  by (simp add: remove_nth_def)

function free_by_tag_loop :: "u32 \<Rightarrow> mem_block list \<Rightarrow> mem_block list" where
  "free_by_tag_loop tag blocks =
     (case FindCommonBufferByTag blocks tag of
        (True, blocks1) \<Rightarrow> free_by_tag_loop tag blocks1
      | (False, blocks1) \<Rightarrow> blocks1)"
  by pat_completeness auto

termination
  by (relation "measure (length \<circ> snd)")
    (auto simp: FindCommonBufferByTag_def split: option.splits dest!: find_tag_less simp: length_remove_nth)

declare free_by_tag_loop.simps [simp del]

definition VirtIOWdfDeviceFreeDmaMemoryByTag :: "bool \<Rightarrow> u32 \<Rightarrow> mem_block list \<Rightarrow> mem_block list" where
  "VirtIOWdfDeviceFreeDmaMemoryByTag passive tag blocks =
     (if \<not> passive then blocks
      else if tag = 0 then blocks
      else free_by_tag_loop tag blocks)"

subsection \<open>Sliced memory\<close>

record dma_sliced =
  sl_pa :: u64
  sl_va :: u64
  sl_bitmap :: "bool list"
  sl_slice :: u32

text \<open>\<open>RtlFindClearBitsAndSet\<close> for one bit from hint 0: the first clear bit, set.\<close>

fun first_clear :: "bool list \<Rightarrow> nat option" where
  "first_clear [] = None"
| "first_clear (b # bs) = (if b then map_option Suc (first_clear bs) else Some 0)"

text \<open>The virtual and physical address of the slice, \<open>None\<close> for \<open>NULL\<close>.\<close>

definition AllocateSlice :: "dma_sliced \<Rightarrow> (u64 \<times> u64) option \<times> dma_sliced" where
  "AllocateSlice p =
     (case first_clear (sl_bitmap p) of
        None \<Rightarrow> (None, p)
      | Some index \<Rightarrow>
          let offset = sl_slice p * of_nat index
          in (Some (sl_va p + ucast offset, sl_pa p + ucast offset),
              p\<lparr>sl_bitmap := (sl_bitmap p)[index := True]\<rparr>))"

text \<open>Testing a bit beyond the bitmap or dividing by 0 is an error (\<open>None\<close>).\<close>

definition FreeSlice :: "mem_block list \<Rightarrow> dma_sliced \<Rightarrow> u64 \<Rightarrow> dma_sliced option" where
  "FreeSlice blocks p va =
     (case FindCommonBuffer True blocks va False of
        (True, Some (pa, off), _) \<Rightarrow>
          if sl_slice p = 0 then None
          else if off mod ucast (sl_slice p) \<noteq> 0 then Some p
          else let index = unat (ucast (off div ucast (sl_slice p)) :: u32) in do {
            bit \<leftarrow> nth_opt (sl_bitmap p) index;
            if \<not> bit then Some p else Some (p\<lparr>sl_bitmap := (sl_bitmap p)[index := False]\<rparr>)
          }
      | _ \<Rightarrow> Some p)"

text \<open>
  The pool block is uninitialised and only the structure is cleared, whose bitmap array has
  one 32-bit element: the bits from 32 on keep what the pool contained (\<open>garbage\<close>).
\<close>

definition VirtIOWdfDeviceAllocDmaMemorySliced ::
  "bool \<Rightarrow> (u64 \<times> u64) option \<Rightarrow> bool \<Rightarrow> bool \<Rightarrow> (nat \<Rightarrow> bool) \<Rightarrow> u64 \<Rightarrow> u32 \<Rightarrow> mem_block list
     \<Rightarrow> dma_sliced option \<times> mem_block list" where
  "VirtIOWdfDeviceAllocDmaMemorySliced passive created added pool_ok garbage blockSize sliceSize blocks =
     (if \<not> pool_ok then (None, blocks)
      else
        let (va, blocks1) = AllocateCommonBuffer passive created added blockSize 0 blocks;
            pa = GetPhysicalAddress blocks1 va
        in if va = 0 \<or> pa = 0 then (None, blocks1)
           else (Some \<lparr>sl_pa = pa, sl_va = va,
                       sl_bitmap = map (\<lambda>i. if i < 32 then False else garbage i)
                                     [0..<unat ((ucast blockSize :: u32) div sliceSize)],
                       sl_slice = sliceSize\<rparr>, blocks1))"

definition FreeSlicedBlock :: "bool \<Rightarrow> dma_sliced \<Rightarrow> mem_block list \<Rightarrow> mem_block list" where
  "FreeSlicedBlock passive p blocks =
     (case FindCommonBuffer passive blocks (sl_va p) True of (_, _, blocks1) \<Rightarrow> blocks1)"

subsection \<open>DMA transactions\<close>

text \<open>
  A transaction object: its reference count and whether \<open>WdfObjectDelete\<close> has run. Touching
  a deleted object is an error (\<open>None\<close>).
\<close>

record dma_transaction =
  refCount :: int
  deleted :: bool

definition RefTransaction :: "dma_transaction \<Rightarrow> dma_transaction option" where
  "RefTransaction ctx = (if deleted ctx then None else Some (ctx\<lparr>refCount := refCount ctx + 1\<rparr>))"

definition DerefTransaction :: "dma_transaction \<Rightarrow> dma_transaction option" where
  "DerefTransaction ctx =
     (if deleted ctx then None
      else let n = refCount ctx - 1 in Some (ctx\<lparr>refCount := n, deleted := (n = 0)\<rparr>))"

text \<open>The driver's callback may itself complete the transaction; it is an argument.\<close>

definition OnDmaTransactionProgramDma ::
  "(dma_transaction \<Rightarrow> (bool \<times> dma_transaction) option) \<Rightarrow> dma_transaction \<Rightarrow> (bool \<times> dma_transaction) option" where
  "OnDmaTransactionProgramDma callback ctx = do {
     ctx1 \<leftarrow> RefTransaction ctx;
     (_, ctx2) \<leftarrow> callback ctx1;
     ctx3 \<leftarrow> DerefTransaction ctx2;
     Some (True, ctx3)
   }"

text \<open>
  \<open>VirtIOWdfDeviceDmaAsync\<close>: \<open>init\<close> says whether the object was created and initialised from
  the request or from a copy of the buffer, \<open>execute\<close> is what the framework's execution does
  to the object (it calls \<open>OnDmaTransactionProgramDma\<close>, at once or later) and its status.
\<close>

definition new_transaction :: dma_transaction where
  "new_transaction = \<lparr>refCount = 1, deleted = False\<rparr>"

datatype buffer_source = FromRequest ntstatus | FromCopy bool bool ntstatus

definition init_status :: "buffer_source \<Rightarrow> ntstatus" where
  "init_status src =
     (case src of
        FromRequest st \<Rightarrow> st
      | FromCopy buffer_ok mdl_ok st \<Rightarrow>
          if buffer_ok then (if mdl_ok then st else STATUS_INSUFFICIENT_RESOURCES)
          else STATUS_INSUFFICIENT_RESOURCES)"

definition VirtIOWdfDeviceDmaAsync ::
  "ntstatus \<Rightarrow> buffer_source \<Rightarrow> (dma_transaction \<Rightarrow> (ntstatus \<times> dma_transaction) option)
     \<Rightarrow> (bool \<times> dma_transaction option) option" where
  "VirtIOWdfDeviceDmaAsync create src execute =
     (if \<not> NT_SUCCESS create then Some (False, None)
      else if \<not> NT_SUCCESS (init_status src) then Some (False, Some (new_transaction\<lparr>deleted := True\<rparr>))
      else do {
        (st, tr) \<leftarrow> execute new_transaction;
        if \<not> NT_SUCCESS st then
          (if deleted tr then None else Some (False, Some (tr\<lparr>deleted := True\<rparr>)))
        else Some (True, Some tr)
      })"

definition VirtIOWdfDeviceDmaTxComplete :: "dma_transaction \<Rightarrow> dma_transaction option" where
  "VirtIOWdfDeviceDmaTxComplete ctx = DerefTransaction ctx"

text \<open>On receive the bytes that arrived are copied to the caller's buffer first.\<close>

definition VirtIOWdfDeviceDmaRxComplete ::
  "u8 list option \<Rightarrow> u8 list option \<Rightarrow> nat \<Rightarrow> dma_transaction \<Rightarrow> (u8 list option \<times> dma_transaction) option" where
  "VirtIOWdfDeviceDmaRxComplete ctx_buffer user_buffer len ctx =
     (if deleted ctx then None
      else do {
        user1 \<leftarrow> (case (ctx_buffer, user_buffer) of
                    (Some src, Some dst) \<Rightarrow>
                      if len = 0 then Some user_buffer
                      else if len \<le> length src \<and> len \<le> length dst
                      then Some (Some (take len src @ drop len dst)) else None
                  | _ \<Rightarrow> Some user_buffer);
        ctx1 \<leftarrow> DerefTransaction ctx;
        Some (user1, ctx1)
      })"

definition VirtIOWdfDeviceCheckIOMMUActive ::
  "u64 \<Rightarrow> ntstatus \<Rightarrow> u32 \<Rightarrow> ntstatus + (u64 \<times> u64) \<Rightarrow> ntstatus" where
  "VirtIOWdfDeviceCheckIOMMUActive deviceFeatures query_status value common_buffer =
     (let bHasFeature = virtio_is_feature_enabled deviceFeatures 33
      in if \<not> NT_SUCCESS query_status \<or> value \<noteq> 2 \<or> bHasFeature then STATUS_SUCCESS
         else case common_buffer of
           Inl st \<Rightarrow> st
         | Inr (pa, plain) \<Rightarrow> if plain = pa then STATUS_SUCCESS else STATUS_DEVICE_CONFIGURATION_ERROR)"

end
