(* ===== verification/WdfDriver.thy ===== *)
theory WdfDriver
  imports PciCommon WdfDma
begin

text \<open>
  The WDF library that drivers link against: \<^verbatim>\<open>src/VirtIO/WDF/Callbacks.c\<close> (the
  \<open>VirtIOSystemOps\<close> table), \<^verbatim>\<open>MemPortIO.c\<close>, \<^verbatim>\<open>PCI.c\<close> and \<^verbatim>\<open>VirtIOWdf.c\<close>.

  The operating system and the hardware are the record \<open>wdf_os\<close> over an abstract state
  \<open>'d\<close>; the library's own state is \<open>wdf_world\<close> and \<open>wdf_driver\<close>. An interrupt object is a
  number; \<open>NULL\<close> is \<open>None\<close>.
\<close>

subsection \<open>State\<close>

record 'd wdf_os =
  os_read_byte :: "bool \<Rightarrow> u64 \<Rightarrow> ('d, u8) state"
  os_read_word :: "bool \<Rightarrow> u64 \<Rightarrow> ('d, u16) state"
  os_read_dword :: "bool \<Rightarrow> u64 \<Rightarrow> ('d, u32) state"
  os_write_byte :: "bool \<Rightarrow> u64 \<Rightarrow> u8 \<Rightarrow> ('d, unit) state"
  os_write_word :: "bool \<Rightarrow> u64 \<Rightarrow> u16 \<Rightarrow> ('d, unit) state"
  os_write_dword :: "bool \<Rightarrow> u64 \<Rightarrow> u32 \<Rightarrow> ('d, unit) state"
  os_passive :: "('d, bool) state"
  os_can_sleep :: "('d, bool) state"
  os_delay :: "u32 \<Rightarrow> ('d, ntstatus) state"
  os_stall :: "u32 \<Rightarrow> ('d, unit) state"
  os_pool_alloc :: "u64 \<Rightarrow> ('d, u64) state"
  os_pool_free :: "u64 \<Rightarrow> ('d, unit) state"
  os_common_buffer :: "u64 \<Rightarrow> ('d, (u64 \<times> u64) option) state"
  os_collection_add :: "('d, bool) state"
  os_map_io :: "u64 \<Rightarrow> u32 \<Rightarrow> ('d, u64) state"
  os_unmap_io :: "u64 \<Rightarrow> u32 \<Rightarrow> ('d, unit) state"
  os_bus_data :: "int \<Rightarrow> nat \<Rightarrow> ('d, u8 list) state"
  os_context_alloc :: "nat \<Rightarrow> ('d, ntstatus) state"
  os_interrupt_info :: "nat \<Rightarrow> ('d, u32 option) state"

record wdf_bar =
  iBar :: int
  BasePA :: u64
  uLength :: u32
  pBase :: u64
  bPortSpace :: bool
  bar_mem :: u64

text \<open>
  \<open>bar_mem\<close> is the address of the descriptor itself. The context of an interrupt: absent, present without a message number, present with one.
\<close>

record 'd wdf_world =
  hw :: 'd
  PCIBars :: "wdf_bar list"
  MemoryBlocks :: "mem_block list"
  interrupt_ctx :: "nat \<Rightarrow> u16 option option"
  ConfigInterrupt :: "nat option"
  pQueueParams :: "nat option list option"

record 'o wdf_driver =
  VIODevice :: "'o virtio_device"
  uFeatures :: u64
  nInterrupts :: u32
  nMSIInterrupts :: u32

definition on_hw :: "('d, 'a) state \<Rightarrow> ('d wdf_world, 'a) state" where
  "on_hw m = State (\<lambda>w. case run_state m (hw w) of (a, d) \<Rightarrow> (a, w\<lparr>hw := d\<rparr>))"

definition get_world :: "('d wdf_world \<Rightarrow> 'a) \<Rightarrow> ('d wdf_world, 'a) state" where
  "get_world f = State (\<lambda>w. (f w, w))"

definition put_world :: "('d wdf_world \<Rightarrow> 'd wdf_world) \<Rightarrow> ('d wdf_world, unit) state" where
  "put_world f = State (\<lambda>w. ((), f w))"

lemma run_on_hw [simp]:
  "run_state (on_hw m) w = (fst (run_state m (hw w)), w\<lparr>hw := snd (run_state m (hw w))\<rparr>)"
  by (simp add: on_hw_def split: prod.splits)

lemma run_get_world [simp]: "run_state (get_world f) w = (f w, w)"
  by (simp add: get_world_def)

lemma run_put_world [simp]: "run_state (put_world f) w = ((), f w)"
  by (simp add: put_world_def)

subsection \<open>Port and memory access\<close>

definition PORT_MASK :: u64 where "PORT_MASK = 0xffff"

definition is_port :: "u64 \<Rightarrow> bool" where
  "is_port address \<longleftrightarrow> address AND NOT PORT_MASK = 0"

definition ReadVirtIODeviceByte :: "'d wdf_os \<Rightarrow> u64 \<Rightarrow> ('d wdf_world, u8) state" where
  "ReadVirtIODeviceByte os ulRegister = on_hw (os_read_byte os (is_port ulRegister) ulRegister)"

definition WriteVirtIODeviceByte :: "'d wdf_os \<Rightarrow> u64 \<Rightarrow> u8 \<Rightarrow> ('d wdf_world, unit) state" where
  "WriteVirtIODeviceByte os ulRegister v = on_hw (os_write_byte os (is_port ulRegister) ulRegister v)"

definition ReadVirtIODeviceWord :: "'d wdf_os \<Rightarrow> u64 \<Rightarrow> ('d wdf_world, u16) state" where
  "ReadVirtIODeviceWord os ulRegister = on_hw (os_read_word os (is_port ulRegister) ulRegister)"

definition WriteVirtIODeviceWord :: "'d wdf_os \<Rightarrow> u64 \<Rightarrow> u16 \<Rightarrow> ('d wdf_world, unit) state" where
  "WriteVirtIODeviceWord os ulRegister v = on_hw (os_write_word os (is_port ulRegister) ulRegister v)"

definition ReadVirtIODeviceRegister :: "'d wdf_os \<Rightarrow> u64 \<Rightarrow> ('d wdf_world, u32) state" where
  "ReadVirtIODeviceRegister os ulRegister = on_hw (os_read_dword os (is_port ulRegister) ulRegister)"

definition WriteVirtIODeviceRegister :: "'d wdf_os \<Rightarrow> u64 \<Rightarrow> u32 \<Rightarrow> ('d wdf_world, unit) state" where
  "WriteVirtIODeviceRegister os ulRegister v = on_hw (os_write_dword os (is_port ulRegister) ulRegister v)"

subsection \<open>PCI helpers\<close>

definition PCIReadConfig :: "'d wdf_os \<Rightarrow> int \<Rightarrow> nat \<Rightarrow> ('d wdf_world, int \<times> u8 list) state" where
  "PCIReadConfig os addr len = do {
     bytes \<leftarrow> on_hw (os_bus_data os addr len);
     State_Monad.return (if length bytes = len then 0 else -1, bytes)
   }"

definition PCIRegisterInterrupt :: "'d wdf_os \<Rightarrow> nat option \<Rightarrow> ('d wdf_world, ntstatus) state" where
  "PCIRegisterInterrupt os interrupt =
     (case interrupt of
        None \<Rightarrow> State_Monad.return STATUS_SUCCESS
      | Some i \<Rightarrow> do {
          status \<leftarrow> on_hw (os_context_alloc os i);
          (if status = STATUS_SUCCESS
           then put_world (\<lambda>w. w\<lparr>interrupt_ctx := (interrupt_ctx w)(i := Some None)\<rparr>)
           else State_Monad.return ());
          State_Monad.return (if status = STATUS_OBJECT_NAME_EXISTS then STATUS_SUCCESS else status)
        })"

definition PCIGetMSIInterruptVector :: "'d wdf_os \<Rightarrow> nat option \<Rightarrow> ('d wdf_world, u16) state" where
  "PCIGetMSIInterruptVector os interrupt =
     (case interrupt of
        None \<Rightarrow> State_Monad.return VIRTIO_MSI_NO_VECTOR
      | Some i \<Rightarrow> do {
          ctx \<leftarrow> get_world (\<lambda>w. interrupt_ctx w i);
          (case ctx of
             Some (Some n) \<Rightarrow> State_Monad.return n
           | _ \<Rightarrow> do {
               info \<leftarrow> on_hw (os_interrupt_info os i);
               let n = (case info of Some m \<Rightarrow> ucast m | None \<Rightarrow> VIRTIO_MSI_NO_VECTOR);
               (if ctx = None then State_Monad.return ()
                else put_world (\<lambda>w. w\<lparr>interrupt_ctx := (interrupt_ctx w)(i := Some (Some n))\<rparr>));
               State_Monad.return n
             })
        })"

text \<open>Descriptors of the translated resource list.\<close>

datatype resource =
    PortResource u64 u32 bool
  | MemoryResource u64 u32 bool
  | InterruptResource bool
  | OtherResource
  | NullDescriptor

fun free_bars_loop :: "'d wdf_os \<Rightarrow> wdf_bar list \<Rightarrow> ('d, unit) state" where
  "free_bars_loop os [] = State_Monad.return ()"
| "free_bars_loop os (b # bs) = do {
     (if pBase b \<noteq> 0 \<and> \<not> bPortSpace b then os_unmap_io os (pBase b) (uLength b) else State_Monad.return ());
     os_pool_free os (bar_mem b);
     free_bars_loop os bs
   }"

definition PCIFreeBars :: "'d wdf_os \<Rightarrow> ('d wdf_world, unit) state" where
  "PCIFreeBars os = do {
     bars \<leftarrow> get_world PCIBars;
     on_hw (free_bars_loop os bars);
     put_world (\<lambda>w. w\<lparr>PCIBars := []\<rparr>)
   }"

definition sizeof_wdf_bar :: u64 where "sizeof_wdf_bar = 48"

text \<open>
  The loop over the resource list. \<open>hdr\<close> are the base address registers of the PCI header;
  the result is the status and the two interrupt counts. \<open>None\<close> is a read beyond the header.
\<close>

fun alloc_bars_loop ::
  "'d wdf_os \<Rightarrow> u32 list \<Rightarrow> resource list \<Rightarrow> u32 \<Rightarrow> u32 \<Rightarrow> ('d wdf_world, ntstatus \<times> u32 \<times> u32) run" where
  "alloc_bars_loop os hdr [] n m w = Some ((STATUS_SUCCESS, n, m), w)"
| "alloc_bars_loop os hdr (r # rs) n m w =
     (let add_bar = (\<lambda>start len port.
        (let (p, w1) = run_state (on_hw (os_pool_alloc os sizeof_wdf_bar)) w
         in if p = 0 then Some ((STATUS_INSUFFICIENT_RESOURCES, n, m), snd (run_state (PCIFreeBars os) w1))
            else do {
              i \<leftarrow> virtio_get_bar_index hdr start;
              if i < 0 then Some ((STATUS_NOT_FOUND, n, m), snd (run_state (PCIFreeBars os) w1))
              else
                let bar = \<lparr>iBar = i, BasePA = start, uLength = len,
                           pBase = (if port then start else 0), bPortSpace = port, bar_mem = p\<rparr>
                in alloc_bars_loop os hdr rs n m (w1\<lparr>PCIBars := bar # PCIBars w1\<rparr>)
            }))
      in case r of
           PortResource start len port \<Rightarrow> add_bar start len port
         | MemoryResource start len port \<Rightarrow> add_bar start len port
         | InterruptResource msi \<Rightarrow> alloc_bars_loop os hdr rs (n + 1) (if msi then m + 1 else m) w
         | OtherResource \<Rightarrow> alloc_bars_loop os hdr rs n m w
         | NullDescriptor \<Rightarrow> alloc_bars_loop os hdr rs n m w)"

definition PCIAllocBars ::
  "'d wdf_os \<Rightarrow> u32 list option \<Rightarrow> resource list \<Rightarrow> 'o wdf_driver \<Rightarrow> ('d wdf_world, ntstatus \<times> 'o wdf_driver) run" where
  "PCIAllocBars os header resources drv w =
     (case header of
        None \<Rightarrow> Some ((STATUS_DEVICE_CONFIGURATION_ERROR, drv), w)
      | Some hdr \<Rightarrow> do {
          ((status, n, m), w1) \<leftarrow> alloc_bars_loop os hdr resources 0 0 w;
          Some ((status, if status = STATUS_SUCCESS then drv\<lparr>nInterrupts := n, nMSIInterrupts := m\<rparr> else drv), w1)
        })"

subsection \<open>The callbacks\<close>

definition wdf_mem_alloc_contiguous_pages :: "'d wdf_os \<Rightarrow> u64 \<Rightarrow> ('d wdf_world, u64) state" where
  "wdf_mem_alloc_contiguous_pages os sz = do {
     passive \<leftarrow> on_hw (os_passive os);
     created \<leftarrow> (if passive then on_hw (os_common_buffer os sz) else State_Monad.return None);
     added \<leftarrow> (if created = None then State_Monad.return False else on_hw (os_collection_add os));
     blocks \<leftarrow> get_world MemoryBlocks;
     let (va, blocks1) = AllocateCommonBuffer passive created added sz 0 blocks;
     put_world (\<lambda>w. w\<lparr>MemoryBlocks := blocks1\<rparr>);
     State_Monad.return va
   }"

definition wdf_mem_free_contiguous_pages :: "'d wdf_os \<Rightarrow> u64 \<Rightarrow> ('d wdf_world, unit) state" where
  "wdf_mem_free_contiguous_pages os virt = do {
     passive \<leftarrow> on_hw (os_passive os);
     put_world (\<lambda>w. w\<lparr>MemoryBlocks := VirtIOWdfDeviceFreeDmaMemory passive virt (MemoryBlocks w)\<rparr>)
   }"

definition wdf_mem_get_physical_address :: "'d wdf_os \<Rightarrow> u64 \<Rightarrow> ('d wdf_world, u64) state" where
  "wdf_mem_get_physical_address os virt = get_world (\<lambda>w. GetPhysicalAddress (MemoryBlocks w) virt)"

fun find_bar :: "wdf_bar list \<Rightarrow> int \<Rightarrow> nat option" where
  "find_bar [] bar = None"
| "find_bar (b # bs) bar = (if iBar b = bar then Some 0 else map_option Suc (find_bar bs bar))"

definition wdf_pci_get_resource_len :: "int \<Rightarrow> ('d wdf_world, u64) state" where
  "wdf_pci_get_resource_len bar =
     get_world (\<lambda>w. case find_bar (PCIBars w) bar of None \<Rightarrow> 0 | Some i \<Rightarrow> ucast (uLength (PCIBars w ! i)))"

definition wdf_pci_map_address_range ::
  "'d wdf_os \<Rightarrow> int \<Rightarrow> u64 \<Rightarrow> u64 \<Rightarrow> ('d wdf_world, u64) state" where
  "wdf_pci_map_address_range os bar offset maxlen = do {
     bars \<leftarrow> get_world PCIBars;
     (case find_bar bars bar of
        None \<Rightarrow> State_Monad.return 0
      | Some i \<Rightarrow> do {
          let b = bars ! i;
          base \<leftarrow> (if pBase b = 0 then on_hw (os_map_io os (BasePA b) (uLength b))
                  else State_Monad.return (pBase b));
          put_world (\<lambda>w. w\<lparr>PCIBars := (PCIBars w)[i := b\<lparr>pBase := base\<rparr>]\<rparr>);
          State_Monad.return (if base \<noteq> 0 \<and> offset < ucast (uLength b) then base + offset else 0)
        })
   }"

text \<open>
  \<open>pQueueParams\<close> has an element for every queue being set up; the access is unchecked in the
  source, and what lies beyond the array is unspecified here.
\<close>

definition wdf_vdev_get_msix_vector :: "'d wdf_os \<Rightarrow> int \<Rightarrow> ('d wdf_world, u16) state" where
  "wdf_vdev_get_msix_vector os queue =
     (if queue \<ge> 0 then do {
        params \<leftarrow> get_world pQueueParams;
        (case params of
           None \<Rightarrow> State_Monad.return VIRTIO_MSI_NO_VECTOR
         | Some ps \<Rightarrow> PCIGetMSIInterruptVector os (ps ! nat queue))
      }
      else do {
        ci \<leftarrow> get_world ConfigInterrupt;
        PCIGetMSIInterruptVector os ci
      })"

definition wdf_vdev_sleep :: "'d wdf_os \<Rightarrow> u32 \<Rightarrow> ('d wdf_world, unit) state" where
  "wdf_vdev_sleep os msecs = do {
     can \<leftarrow> on_hw (os_can_sleep os);
     status \<leftarrow> (if can then on_hw (os_delay os msecs) else State_Monad.return STATUS_UNSUCCESSFUL);
     (if \<not> NT_SUCCESS status then on_hw (os_stall os (1000 * msecs)) else State_Monad.return ())
   }"

definition VirtIOWdfSystemOps :: "'d wdf_os \<Rightarrow> 'd wdf_world system_ops" where
  "VirtIOWdfSystemOps os =
     \<lparr>vdev_read_byte = ReadVirtIODeviceByte os,
      vdev_read_word = ReadVirtIODeviceWord os,
      vdev_read_dword = ReadVirtIODeviceRegister os,
      vdev_write_byte = WriteVirtIODeviceByte os,
      vdev_write_word = WriteVirtIODeviceWord os,
      vdev_write_dword = WriteVirtIODeviceRegister os,
      mem_alloc_contiguous_pages = wdf_mem_alloc_contiguous_pages os,
      mem_free_contiguous_pages = wdf_mem_free_contiguous_pages os,
      mem_get_physical_address = wdf_mem_get_physical_address os,
      mem_alloc_nonpaged_block = (\<lambda>sz. on_hw (os_pool_alloc os sz)),
      mem_free_nonpaged_block = (\<lambda>a. on_hw (os_pool_free os a)),
      pci_read_config_byte = (\<lambda>a. do { (rc, bs) \<leftarrow> PCIReadConfig os a 1; State_Monad.return (rc, le_of_bytes bs) }),
      pci_read_config_word = (\<lambda>a. do { (rc, bs) \<leftarrow> PCIReadConfig os a 2; State_Monad.return (rc, le_of_bytes bs) }),
      pci_read_config_dword = (\<lambda>a. do { (rc, bs) \<leftarrow> PCIReadConfig os a 4; State_Monad.return (rc, le_of_bytes bs) }),
      pci_get_resource_len = wdf_pci_get_resource_len,
      pci_map_address_range = wdf_pci_map_address_range os,
      vdev_get_msix_vector = wdf_vdev_get_msix_vector os,
      vdev_sleep = wdf_vdev_sleep os\<rparr>"

subsection \<open>Feature negotiation\<close>

definition VIRTIO_F_ANY_LAYOUT :: nat where "VIRTIO_F_ANY_LAYOUT = 27"
definition VIRTIO_F_ACCESS_PLATFORM :: nat where "VIRTIO_F_ACCESS_PLATFORM = 33"
definition VIRTIO_CONFIG_S_FAILED :: u8 where "VIRTIO_CONFIG_S_FAILED = 0x80"

definition VirtIOWdfGetDeviceFeatures :: "'w system_ops \<Rightarrow> 'o wdf_driver \<Rightarrow> ('w, u64) run" where
  "VirtIOWdfGetDeviceFeatures ops drv = virtio_get_features ops (VIODevice drv)"

definition accept_feature :: "u64 \<Rightarrow> nat \<Rightarrow> u64 \<Rightarrow> u64" where
  "accept_feature dev f fs = (if virtio_is_feature_enabled dev f then virtio_feature_enable fs f else fs)"

text \<open>The missing status bits are added; \<open>status\<close> is the value read before.\<close>

definition add_missing_status :: "'w system_ops \<Rightarrow> 'o virtio_device \<Rightarrow> u8 \<Rightarrow> u8 \<Rightarrow> ('w, unit) run" where
  "add_missing_status ops vdev status b w =
     (if status AND b = 0 then virtio_add_status ops vdev b w else Some ((), w))"

definition VirtIOWdfSetDriverFeatures ::
  "'w system_ops \<Rightarrow> 'o wdf_driver \<Rightarrow> u64 \<Rightarrow> u64 \<Rightarrow> ('w, ntstatus \<times> 'o wdf_driver) run" where
  "VirtIOWdfSetDriverFeatures ops drv uPrivateFeaturesOn uFeaturesOff w = do {
     (dev, w1) \<leftarrow> VirtIOWdfGetDeviceFeatures ops drv w;
     let fs0 = accept_feature dev VIRTIO_F_ACCESS_PLATFORM
                 (accept_feature dev VIRTIO_F_ANY_LAYOUT (accept_feature dev VIRTIO_F_VERSION_1 0));
     if dev AND uPrivateFeaturesOn \<noteq> uPrivateFeaturesOn then Some ((STATUS_INVALID_PARAMETER, drv), w1)
     else do {
       let fs = (fs0 OR uPrivateFeaturesOn) AND NOT uFeaturesOff;
       (status, w2) \<leftarrow> virtio_get_status ops (VIODevice drv) w1;
       (_, w3) \<leftarrow> add_missing_status ops (VIODevice drv) status VIRTIO_CONFIG_S_ACKNOWLEDGE w2;
       (_, w4) \<leftarrow> add_missing_status ops (VIODevice drv) status VIRTIO_CONFIG_S_DRIVER w3;
       ((st, vdev), w5) \<leftarrow> virtio_set_features ops (VIODevice drv) fs w4;
       Some ((st, drv\<lparr>uFeatures := fs, VIODevice := vdev\<rparr>), w5)
     }
   }"

definition VirtIOWdfFinalizeFeatures ::
  "'w system_ops \<Rightarrow> 'o wdf_driver \<Rightarrow> ('w, ntstatus \<times> 'o wdf_driver) run" where
  "VirtIOWdfFinalizeFeatures ops drv w = do {
     ((st, drv1), w1) \<leftarrow> (if uFeatures drv = 0 then VirtIOWdfSetDriverFeatures ops drv 0 0 w
                           else Some ((STATUS_SUCCESS, drv), w));
     if \<not> NT_SUCCESS st then Some ((st, drv1), w1)
     else do {
       (status, w2) \<leftarrow> virtio_get_status ops (VIODevice drv1) w1;
       (_, w3) \<leftarrow> add_missing_status ops (VIODevice drv1) status VIRTIO_CONFIG_S_ACKNOWLEDGE w2;
       (_, w4) \<leftarrow> add_missing_status ops (VIODevice drv1) status VIRTIO_CONFIG_S_DRIVER w3;
       if status AND VIRTIO_CONFIG_S_FEATURES_OK = 0 then do {
         ((st2, vdev), w5) \<leftarrow> virtio_set_features ops (VIODevice drv1) (uFeatures drv1) w4;
         Some ((st2, drv1\<lparr>VIODevice := vdev\<rparr>), w5)
       }
       else Some ((st, drv1), w4)
     }
   }"

subsection \<open>Queues\<close>

fun register_loop :: "'d wdf_os \<Rightarrow> nat option list \<Rightarrow> ('d wdf_world, ntstatus) state" where
  "register_loop os [] = State_Monad.return STATUS_SUCCESS"
| "register_loop os (i # is) = do {
     st \<leftarrow> PCIRegisterInterrupt os i;
     if \<not> NT_SUCCESS st then State_Monad.return st else register_loop os is
   }"

definition VirtIOWdfInitQueues ::
  "'d wdf_os \<Rightarrow> ('o, 'd wdf_world) ring_memory \<Rightarrow> 'o wdf_driver \<Rightarrow> u32 \<Rightarrow> nat option list
     \<Rightarrow> ('d wdf_world, (ntstatus + 'o virtqueue_obj list) \<times> 'o wdf_driver) run" where
  "VirtIOWdfInitQueues os mem drv nQueues params w = do {
     let ops = VirtIOWdfSystemOps os;
     ((st, drv1), w1) \<leftarrow> VirtIOWdfFinalizeFeatures ops drv w;
     if \<not> NT_SUCCESS st then Some ((Inl st, drv1), w1)
     else do {
       (st2, w2) \<leftarrow> lift (register_loop os (take (unat nQueues) params)) w1;
       if \<not> NT_SUCCESS st2 then Some ((Inl st2, drv1), w2)
       else do {
         ((r, vdev), w3) \<leftarrow> virtio_find_queues ops mem (VIODevice drv1) nQueues (w2\<lparr>pQueueParams := Some params\<rparr>);
         Some ((r, drv1\<lparr>VIODevice := vdev\<rparr>), w3\<lparr>pQueueParams := None\<rparr>)
       }
     }
   }"

text \<open>
  The callback version. \<open>params i\<close> is what the driver's callback stores for queue \<open>i\<close>; the
  queues passed to the second callback are collected. \<open>k\<close> queues remain, \<open>i\<close> is the
  current one.
\<close>

fun init_queues_cb_loop ::
  "'d wdf_os \<Rightarrow> ('o, 'd wdf_world) ring_memory \<Rightarrow> (u32 \<Rightarrow> nat option) \<Rightarrow> nat \<Rightarrow> u32 \<Rightarrow> 'o virtio_device
     \<Rightarrow> ('d wdf_world, ntstatus \<times> 'o virtqueue_obj list \<times> 'o virtio_device) run" where
  "init_queues_cb_loop os mem params 0 i vdev w = Some ((STATUS_SUCCESS, [], vdev), w)"
| "init_queues_cb_loop os mem params (Suc k) i vdev w = do {
     ((r, vdev1), w1) \<leftarrow> virtio_find_queue (VirtIOWdfSystemOps os) mem vdev i w;
     case r of
       Inl st \<Rightarrow> Some ((st, [], vdev1), w1)
     | Inr vq \<Rightarrow> do {
         (st, w2) \<leftarrow> lift (PCIRegisterInterrupt os (params i)) w1;
         if \<not> NT_SUCCESS st then Some ((st, [], vdev1), w2)
         else do {
           (vec, w3) \<leftarrow> lift (PCIGetMSIInterruptVector os (params i)) w2;
           (ok, w4) \<leftarrow> (if vec \<noteq> VIRTIO_MSI_NO_VECTOR then do {
                          (v, w4) \<leftarrow> virtio_set_queue_vector (VirtIOWdfSystemOps os) vdev1 vq vec w3;
                          Some (v = vec, w4)
                        } else Some (True, w3));
           if \<not> ok then Some ((STATUS_DEVICE_BUSY, [], vdev1), w4)
           else do {
             ((st2, vqs, vdev2), w5) \<leftarrow> init_queues_cb_loop os mem params k (i + 1) vdev1 w4;
             Some ((st2, vq # vqs, vdev2), w5)
           }
         }
       }
   }"

definition VirtIOWdfInitQueuesCB ::
  "'d wdf_os \<Rightarrow> ('o, 'd wdf_world) ring_memory \<Rightarrow> 'o wdf_driver \<Rightarrow> u32 \<Rightarrow> (u32 \<Rightarrow> nat option)
     \<Rightarrow> ('d wdf_world, ntstatus \<times> 'o virtqueue_obj list \<times> 'o wdf_driver) run" where
  "VirtIOWdfInitQueuesCB os mem drv nQueues params w = do {
     let ops = VirtIOWdfSystemOps os;
     ((st, drv1), w1) \<leftarrow> VirtIOWdfFinalizeFeatures ops drv w;
     if \<not> NT_SUCCESS st then Some ((st, [], drv1), w1)
     else do {
       ((st2, vdev2), w2) \<leftarrow> virtio_reserve_queue_memory ops mem (VIODevice drv1) nQueues w1;
       let drv2 = drv1\<lparr>VIODevice := vdev2\<rparr>;
       if \<not> NT_SUCCESS st2 then Some ((st2, [], drv2), w2)
       else do {
         (vec, w3) \<leftarrow> lift (PCIGetMSIInterruptVector os (ConfigInterrupt w2)) w2;
         (ok, w4) \<leftarrow> (if vec \<noteq> VIRTIO_MSI_NO_VECTOR then do {
                        (v, w4) \<leftarrow> virtio_set_config_vector ops vdev2 vec w3;
                        Some (v = vec, w4)
                      } else Some (True, w3));
         if \<not> ok then Some ((STATUS_DEVICE_BUSY, [], drv2), w4)
         else do {
           ((st3, vqs, vdev3), w5) \<leftarrow> init_queues_cb_loop os mem params (unat nQueues) 0 vdev2 w4;
           if \<not> NT_SUCCESS st3 then do {
             (vdev4, w6) \<leftarrow> virtio_delete_queues ops vdev3 w5;
             Some ((st3, vqs, drv2\<lparr>VIODevice := vdev4\<rparr>), w6)
           }
           else Some ((st3, vqs, drv2\<lparr>VIODevice := vdev3\<rparr>), w5)
         }
       }
     }
   }"

subsection \<open>Life cycle\<close>

definition VirtIOWdfSetDriverOK :: "'w system_ops \<Rightarrow> 'o wdf_driver \<Rightarrow> ('w, unit) run" where
  "VirtIOWdfSetDriverOK ops drv = virtio_device_ready ops (VIODevice drv)"

definition VirtIOWdfSetDriverFailed :: "'w system_ops \<Rightarrow> 'o wdf_driver \<Rightarrow> ('w, unit) run" where
  "VirtIOWdfSetDriverFailed ops drv = virtio_add_status ops (VIODevice drv) VIRTIO_CONFIG_S_FAILED"

definition VirtIOWdfShutdown :: "'d wdf_os \<Rightarrow> 'o wdf_driver \<Rightarrow> ('d wdf_world, ntstatus \<times> 'o wdf_driver) state" where
  "VirtIOWdfShutdown os drv = do {
     vdev \<leftarrow> virtio_device_shutdown (VirtIOWdfSystemOps os) (VIODevice drv);
     PCIFreeBars os;
     State_Monad.return (STATUS_SUCCESS, drv\<lparr>VIODevice := vdev\<rparr>)
   }"

definition VirtIOWdfDestroyQueues ::
  "'w system_ops \<Rightarrow> 'o wdf_driver \<Rightarrow> ('w, ntstatus \<times> 'o wdf_driver) run" where
  "VirtIOWdfDestroyQueues ops drv w = do {
     (_, w1) \<leftarrow> virtio_device_reset ops (VIODevice drv) w;
     (vdev, w2) \<leftarrow> virtio_delete_queues ops (VIODevice drv) w1;
     Some ((STATUS_SUCCESS, drv\<lparr>VIODevice := vdev\<rparr>), w2)
   }"

definition VirtIOWdfDeviceGet ::
  "'w system_ops \<Rightarrow> 'o wdf_driver \<Rightarrow> u32 \<Rightarrow> u8 list \<Rightarrow> u32 \<Rightarrow> ('w, u8 list) run" where
  "VirtIOWdfDeviceGet ops drv offset buf len = virtio_get_config ops (VIODevice drv) offset buf len"

definition VirtIOWdfDeviceSet ::
  "'w system_ops \<Rightarrow> 'o wdf_driver \<Rightarrow> u32 \<Rightarrow> u8 list \<Rightarrow> u32 \<Rightarrow> ('w, unit) run" where
  "VirtIOWdfDeviceSet ops drv offset buf len = virtio_set_config ops (VIODevice drv) offset buf len"

definition VirtIOWdfGetISRStatus :: "'w system_ops \<Rightarrow> 'o wdf_driver \<Rightarrow> ('w, u8) state" where
  "VirtIOWdfGetISRStatus ops drv = virtio_read_isr_status ops (VIODevice drv)"

text \<open>
  \<open>VirtIOWdfInitialize\<close>. The statuses of the framework calls that only create objects are
  arguments: the bus interface, the DMA enabler, the collection, the spin lock. So are the
  PCI header, the resources and the outcome of the property query of the IOMMU check.
\<close>

record wdf_init_env =
  query_interface :: ntstatus
  enabler_status :: ntstatus
  collection_status :: ntstatus
  spinlock_status :: ntstatus
  pci_header :: "u32 list option"
  resources :: "resource list"
  iommu_query :: ntstatus
  iommu_value :: u32
  iommu_buffer :: "ntstatus + (u64 \<times> u64)"

definition zero_world :: "'d wdf_world \<Rightarrow> 'd wdf_world" where
  "zero_world w = w\<lparr>PCIBars := [], MemoryBlocks := [], ConfigInterrupt := None, pQueueParams := None\<rparr>"

definition initial_driver :: "'o wdf_driver" where
  "initial_driver = \<lparr>VIODevice = initial_device False, uFeatures = 0, nInterrupts = 0, nMSIInterrupts = 0\<rparr>"

definition VirtIOWdfInitialize ::
  "'d wdf_os \<Rightarrow> wdf_init_env \<Rightarrow> nat option \<Rightarrow> ('d wdf_world, ntstatus \<times> 'o wdf_driver) run" where
  "VirtIOWdfInitialize os env config_interrupt w0 = do {
     let w = zero_world w0;
     let ops = VirtIOWdfSystemOps os;
     let drv = initial_driver;
     if \<not> NT_SUCCESS (query_interface env) then Some ((query_interface env, drv), w)
     else do {
       (st1, w1) \<leftarrow> lift (PCIRegisterInterrupt os config_interrupt) w;
       if \<not> NT_SUCCESS st1 then Some ((st1, drv), w1)
       else do {
         ((st2, drv2), w2) \<leftarrow> PCIAllocBars os (pci_header env) (resources env) drv w1;
         if \<not> NT_SUCCESS st2 then Some ((st2, drv2), w2)
         else do {
           let st3 = (if \<not> NT_SUCCESS (enabler_status env) then enabler_status env
                      else if \<not> NT_SUCCESS (collection_status env) then collection_status env
                      else spinlock_status env);
           if \<not> NT_SUCCESS st3 then Some ((st3, drv2), w2)
           else do {
             ((st4, vdev), w4) \<leftarrow> virtio_device_initialize ops (nMSIInterrupts drv2 > 0) w2;
             let drv4 = drv2\<lparr>VIODevice := vdev\<rparr>;
             (st5, w5) \<leftarrow> (if NT_SUCCESS st4 then do {
                            (fs, w5) \<leftarrow> VirtIOWdfGetDeviceFeatures ops drv4 w4;
                            Some (VirtIOWdfDeviceCheckIOMMUActive fs (iommu_query env) (iommu_value env)
                                    (iommu_buffer env), w5)
                          } else Some (st4, w4));
             let w6 = (if \<not> NT_SUCCESS st5 then snd (run_state (PCIFreeBars os) w5) else w5);
             Some ((st5, drv4), w6\<lparr>ConfigInterrupt := config_interrupt\<rparr>)
           }
         }
       }
     }
   }"

end
