(* ===== verification/WdfDmaProofs.thy ===== *)
theory WdfDmaProofs
  imports WdfDma
begin

text \<open>
  What the collection of common buffers guarantees as long as its blocks do not overlap:
  translation is exact, release removes exactly the named block, release by tag removes
  exactly the tagged ones; slices lie inside their block, never overlap while allocated and
  can be returned; a transaction is deleted exactly once.
\<close>

subsection \<open>The collection\<close>

definition block_fits :: "mem_block \<Rightarrow> bool" where
  "block_fits b \<longleftrightarrow> Length b \<noteq> 0 \<and> unat (pVirtualAddress b) + unat (Length b) < 2 ^ 64"

definition blocks_ok :: "mem_block list \<Rightarrow> bool" where
  "blocks_ok bs \<longleftrightarrow>
     (\<forall>b \<in> set bs. block_fits b) \<and>
     (\<forall>i j va. i < length bs \<longrightarrow> j < length bs \<longrightarrow> block_covers (bs ! i) va \<longrightarrow> block_covers (bs ! j) va \<longrightarrow> i = j)"

lemma block_covers_nat:
  "block_fits b \<Longrightarrow>
   block_covers b va \<longleftrightarrow> unat (pVirtualAddress b) \<le> unat va \<and> unat va < unat (pVirtualAddress b) + unat (Length b)"
  by (auto simp: block_covers_def block_fits_def word_le_nat_alt word_less_nat_alt unat_plus_small)

lemma block_covers_start: "block_fits b \<Longrightarrow> block_covers b (pVirtualAddress b)"
  by (auto simp: block_covers_nat) (auto simp: block_fits_def unat_gt_0)

lemma find_block_Some:
  "find_block bs va rm = Some i \<Longrightarrow> block_covers (bs ! i) va \<and> (rm \<or> \<not> bToBeDeleted (bs ! i))"
  by (induction bs arbitrary: i) (auto split: if_splits)

lemma find_block_None:
  "find_block bs va rm = None \<Longrightarrow> b \<in> set bs \<Longrightarrow> rm \<or> \<not> bToBeDeleted b \<Longrightarrow> \<not> block_covers b va"
  by (induction bs) (auto split: if_splits)

lemma find_block_unique:
  assumes "blocks_ok bs" "i < length bs" "block_covers (bs ! i) va" "rm \<or> \<not> bToBeDeleted (bs ! i)"
  shows "find_block bs va rm = Some i"
proof (cases "find_block bs va rm")
  case None
  then show ?thesis using find_block_None [OF None, of "bs ! i"] assms by simp
next
  case (Some j)
  then have "j = i"
    using find_block_Some [OF Some] find_block_less [OF Some] assms(1-3) unfolding blocks_ok_def by blast
  then show ?thesis using Some by simp
qed

lemma translate_live:
  assumes "blocks_ok bs" "b \<in> set bs" "\<not> bToBeDeleted b" "block_covers b va"
  shows "GetPhysicalAddress bs va = PhysicalAddress b + (va - pVirtualAddress b)"
proof -
  obtain i where i: "i < length bs" "bs ! i = b" using assms(2) by (auto simp: in_set_conv_nth)
  then have "find_block bs va False = Some i" using find_block_unique [OF assms(1) i(1)] assms(3,4) by simp
  then show ?thesis using i by (simp add: GetPhysicalAddress_def FindCommonBuffer_def Let_def)
qed

lemma translate_unknown:
  assumes "\<forall>b \<in> set bs. block_covers b va \<longrightarrow> bToBeDeleted b"
  shows "GetPhysicalAddress bs va = 0"
proof (cases "find_block bs va False")
  case None
  then show ?thesis by (simp add: GetPhysicalAddress_def FindCommonBuffer_def)
next
  case (Some i)
  then have "bs ! i \<in> set bs" using find_block_less by simp
  then show ?thesis using assms find_block_Some [OF Some] by auto
qed

text \<open>Release by address.\<close>

lemma free_exact:
  assumes "blocks_ok (xs @ b # ys)"
  shows "VirtIOWdfDeviceFreeDmaMemory passive (pVirtualAddress b) (xs @ b # ys) =
           (if passive then xs @ ys else xs @ b\<lparr>bToBeDeleted := True\<rparr> # ys)"
proof -
  let ?bs = "xs @ b # ys"
  have "block_fits b" using assms by (simp add: blocks_ok_def)
  then have "find_block ?bs (pVirtualAddress b) True = Some (length xs)"
    by (intro find_block_unique [OF assms]) (simp_all add: block_covers_start)
  then show ?thesis
    by (simp add: VirtIOWdfDeviceFreeDmaMemory_def FindCommonBuffer_def Let_def remove_nth_def)
qed

lemma free_other:
  assumes "\<forall>b \<in> set bs. block_covers b va \<longrightarrow> va \<noteq> pVirtualAddress b"
  shows "VirtIOWdfDeviceFreeDmaMemory passive va bs = bs"
proof (cases "find_block bs va True")
  case None
  then show ?thesis by (simp add: VirtIOWdfDeviceFreeDmaMemory_def FindCommonBuffer_def)
next
  case (Some i)
  then have "bs ! i \<in> set bs" "block_covers (bs ! i) va"
    using find_block_less find_block_Some by (simp, blast)
  then show ?thesis
    using assms Some by (auto simp: VirtIOWdfDeviceFreeDmaMemory_def FindCommonBuffer_def Let_def)
qed

lemma blocks_ok_sublist:
  assumes "blocks_ok (xs @ b # ys)"
  shows "blocks_ok (xs @ ys)"
proof -
  let ?f = "\<lambda>i. if i < length xs then i else Suc i"
  have nth: "(xs @ ys) ! i = (xs @ b # ys) ! ?f i" for i by (auto simp: nth_append nth_Cons' Suc_diff_le)
  have "i = j" if "i < length (xs @ ys)" "j < length (xs @ ys)"
    "block_covers ((xs @ ys) ! i) va" "block_covers ((xs @ ys) ! j) va" for i j va
  proof -
    have "?f i < length (xs @ b # ys)" "?f j < length (xs @ b # ys)" using that(1,2) by auto
    then have "?f i = ?f j" using assms that(3,4) unfolding blocks_ok_def nth by blast
    then show ?thesis by (auto split: if_splits)
  qed
  then show ?thesis using assms unfolding blocks_ok_def by auto
qed

text \<open>Allocation keeps the collection well formed when the framework hands out a fresh range.\<close>

lemma blocks_ok_only:
  assumes ok: "blocks_ok (xs @ b # ys)" and va: "block_covers b va"
  shows "\<forall>d \<in> set (xs @ ys). \<not> block_covers d va"
proof (intro ballI notI)
  fix d assume d: "d \<in> set (xs @ ys)" "block_covers d va"
  let ?bs = "xs @ b # ys"
  have uniq: "i = length xs" if "i < length ?bs" "block_covers (?bs ! i) va" for i
    using ok that va unfolding blocks_ok_def by (elim conjE) (erule allE [of _ i], erule allE [of _ "length xs"], simp)
  consider i where "i < length xs" "xs ! i = d" | i where "i < length ys" "ys ! i = d"
    using d(1) by (auto simp: in_set_conv_nth)
  then show False
  proof cases
    case 1
    then show False using uniq [of i] d(2) by (simp add: nth_append)
  next
    case 2
    then show False using uniq [of "length xs + Suc i"] d(2) by (simp add: nth_append)
  qed
qed

lemma blocks_ok_mark:
  assumes "blocks_ok (xs @ b # ys)"
  shows "blocks_ok (xs @ b\<lparr>bToBeDeleted := True\<rparr> # ys)"
proof -
  have "block_covers ((xs @ b\<lparr>bToBeDeleted := True\<rparr> # ys) ! i) va = block_covers ((xs @ b # ys) ! i) va" for i va
    by (auto simp: nth_append nth_Cons block_covers_def split: nat.splits)
  then show ?thesis using assms unfolding blocks_ok_def by (auto simp: block_fits_def)
qed

definition fresh_range :: "mem_block list \<Rightarrow> mem_block \<Rightarrow> bool" where
  "fresh_range bs b \<longleftrightarrow> block_fits b \<and> (\<forall>c \<in> set bs. \<forall>va. \<not> (block_covers b va \<and> block_covers c va))"

lemma blocks_ok_snoc:
  assumes "blocks_ok bs" "fresh_range bs b"
  shows "blocks_ok (bs @ [b])"
proof -
  have "i = j" if "i < length (bs @ [b])" "j < length (bs @ [b])"
    "block_covers ((bs @ [b]) ! i) va" "block_covers ((bs @ [b]) ! j) va" for i j va
    using that assms unfolding blocks_ok_def fresh_range_def
    by (cases "i < length bs"; cases "j < length bs") (auto simp: nth_append less_Suc_eq)
  then show ?thesis using assms unfolding blocks_ok_def fresh_range_def by auto
qed

text \<open>Release by tag.\<close>

lemma find_tag_split:
  "find_tag bs tag = Some i \<Longrightarrow>
   \<exists>xs b ys. bs = xs @ b # ys \<and> length xs = i \<and> groupTag b = tag \<and> (\<forall>c \<in> set xs. groupTag c \<noteq> tag)"
proof (induction bs arbitrary: i)
  case (Cons b bs)
  show ?case
  proof (cases "groupTag b = tag")
    case True
    then show ?thesis using Cons.prems by (intro exI [of _ "[]"]) auto
  next
    case False
    then obtain j where j: "find_tag bs tag = Some j" "i = Suc j" using Cons.prems by auto
    from Cons.IH [OF j(1)] obtain xs c ys where
      "bs = xs @ c # ys" "length xs = j" "groupTag c = tag" "\<forall>c \<in> set xs. groupTag c \<noteq> tag" by blast
    then show ?thesis using j(2) False by (intro exI [of _ "b # xs"] exI [of _ c] exI [of _ ys]) auto
  qed
qed simp

lemma find_tag_none: "find_tag bs tag = None \<Longrightarrow> filter (\<lambda>b. groupTag b \<noteq> tag) bs = bs"
  by (induction bs) (auto split: if_splits)

lemma free_by_tag_loop_filter: "free_by_tag_loop tag bs = filter (\<lambda>b. groupTag b \<noteq> tag) bs"
proof (induction tag bs rule: free_by_tag_loop.induct)
  case (1 tag bs)
  show ?case
  proof (cases "find_tag bs tag")
    case None
    then have "free_by_tag_loop tag bs = bs"
      by (simp add: free_by_tag_loop.simps [of tag bs] FindCommonBufferByTag_def)
    then show ?thesis using find_tag_none [OF None] by simp
  next
    case (Some i)
    then obtain xs b ys where s: "bs = xs @ b # ys" "length xs = i" "groupTag b = tag"
      "\<forall>c \<in> set xs. groupTag c \<noteq> tag" using find_tag_split by blast
    then have F: "FindCommonBufferByTag bs tag = (True, xs @ ys)"
      using Some by (simp add: FindCommonBufferByTag_def remove_nth_def)
    have "free_by_tag_loop tag bs = free_by_tag_loop tag (xs @ ys)"
      by (subst free_by_tag_loop.simps) (simp add: F)
    then show ?thesis using "1.IH" [OF F [symmetric]] s by simp
  qed
qed

subsection \<open>Slices\<close>

lemma first_clear_Some: "first_clear bs = Some i \<Longrightarrow> i < length bs \<and> \<not> bs ! i \<and> (\<forall>j < i. bs ! j)"
proof (induction bs arbitrary: i)
  case (Cons b bs)
  then show ?case by (cases b) (auto simp: nth_Cons less_Suc_eq_0_disj split: nat.splits)
qed simp

lemma first_clear_None: "first_clear bs = None \<longleftrightarrow> (\<forall>b \<in> set bs. b)"
  by (induction bs) auto

text \<open>
  A sliced block over a common buffer: the slices fit the buffer, sizes below \<open>2 ^ 32\<close>.
\<close>

definition sliced_ok :: "mem_block \<Rightarrow> dma_sliced \<Rightarrow> bool" where
  "sliced_ok b p \<longleftrightarrow>
     sl_va p = pVirtualAddress b \<and> sl_pa p = PhysicalAddress b \<and> sl_slice p \<noteq> 0 \<and> block_fits b \<and>
     unat (sl_slice p) * length (sl_bitmap p) \<le> unat (Length b) \<and> unat (Length b) < 2 ^ 32"

definition slice_va :: "dma_sliced \<Rightarrow> nat \<Rightarrow> u64" where
  "slice_va p i = sl_va p + of_nat (unat (sl_slice p) * i)"

lemma slice_inside:
  assumes ok: "sliced_ok b p" and i: "i < length (sl_bitmap p)"
  shows "unat (sl_slice p) * i < 2 ^ 32"
    and "unat (slice_va p i) = unat (sl_va p) + unat (sl_slice p) * i"
    and "unat (slice_va p i) + unat (sl_slice p) \<le> unat (pVirtualAddress b) + unat (Length b)"
    and "block_covers b (slice_va p i)"
proof -
  have pos: "0 < unat (sl_slice p)" using ok by (simp add: sliced_ok_def unat_gt_0)
  have "unat (sl_slice p) * i + unat (sl_slice p) = unat (sl_slice p) * Suc i" by simp
  also have "\<dots> \<le> unat (sl_slice p) * length (sl_bitmap p)" using i by (intro mult_le_mono2) simp
  finally have le: "unat (sl_slice p) * i + unat (sl_slice p) \<le> unat (Length b)"
    using ok by (simp add: sliced_ok_def)
  then show small: "unat (sl_slice p) * i < 2 ^ 32" using ok pos by (simp add: sliced_ok_def)
  have "unat (of_nat (unat (sl_slice p) * i) :: u64) = unat (sl_slice p) * i"
    using small by (intro unat_of_nat_small) simp
  moreover have "unat (sl_va p) + unat (sl_slice p) * i < 2 ^ 64"
    using le ok pos by (simp add: sliced_ok_def block_fits_def)
  ultimately show va: "unat (slice_va p i) = unat (sl_va p) + unat (sl_slice p) * i"
    unfolding slice_va_def by (subst unat_plus_small) simp_all
  show "unat (slice_va p i) + unat (sl_slice p) \<le> unat (pVirtualAddress b) + unat (Length b)"
    using va le ok by (simp add: sliced_ok_def)
  then show "block_covers b (slice_va p i)"
    using va ok pos by (subst block_covers_nat) (simp_all add: sliced_ok_def)
qed

lemma AllocateSlice_spec:
  assumes ok: "sliced_ok b p"
  shows "AllocateSlice p =
     (case first_clear (sl_bitmap p) of
        None \<Rightarrow> (None, p)
      | Some i \<Rightarrow> (Some (slice_va p i, sl_pa p + (slice_va p i - sl_va p)),
                  p\<lparr>sl_bitmap := (sl_bitmap p)[i := True]\<rparr>))"
proof (cases "first_clear (sl_bitmap p)")
  case (Some i)
  then have "i < length (sl_bitmap p)" using first_clear_Some by blast
  note small = slice_inside(1) [OF ok this]
  have pos: "0 < unat (sl_slice p)" using ok by (simp add: sliced_ok_def unat_gt_0)
  have "i \<le> unat (sl_slice p) * i" using pos by simp
  then have "i < 2 ^ 32" using small by linarith
  then have "unat (of_nat i :: u32) = i" by (intro unat_of_nat_small) simp
  then have "unat (sl_slice p * of_nat i) = unat (sl_slice p) * i"
    using small by (subst unat_mult_lem [THEN iffD1]) simp_all
  then have "ucast (sl_slice p * of_nat i :: u32) = (of_nat (unat (sl_slice p) * i) :: u64)"
    by (metis of_nat_unat ucast_id unat_ucast_32_64 word_unat_eq_iff)
  then show ?thesis using Some by (simp add: AllocateSlice_def Let_def slice_va_def)
qed (simp add: AllocateSlice_def)

text \<open>Returning an allocated slice clears its bit and nothing else.\<close>

lemma FreeSlice_spec:
  assumes ok: "sliced_ok b p" and bs: "blocks_ok bs" "b \<in> set bs" "\<not> bToBeDeleted b"
    and i: "i < length (sl_bitmap p)" "sl_bitmap p ! i"
  shows "FreeSlice bs p (slice_va p i) = Some (p\<lparr>sl_bitmap := (sl_bitmap p)[i := False]\<rparr>)"
proof -
  obtain j where j: "j < length bs" "bs ! j = b" using bs(2) by (auto simp: in_set_conv_nth)
  have find: "find_block bs (slice_va p i) False = Some j"
    using find_block_unique [OF bs(1) j(1)] j(2) bs(3) slice_inside(4) [OF ok i(1)] by simp
  let ?off = "slice_va p i - pVirtualAddress b"
  have off: "unat ?off = unat (sl_slice p) * i"
    using slice_inside(2) [OF ok i(1)] ok
    by (subst unat_minus_le) (simp_all add: word_le_nat_alt sliced_ok_def)
  have pos: "0 < unat (sl_slice p)" using ok by (simp add: sliced_ok_def unat_gt_0)
  have m: "?off mod ucast (sl_slice p) = 0"
  proof -
    have "unat (?off mod ucast (sl_slice p)) = 0" using off by (simp add: unat_mod)
    then show ?thesis by (simp add: unsigned_eq_0_iff)
  qed
  have "unat (?off div ucast (sl_slice p)) = i" using off pos by (simp add: unat_div)
  moreover have "i < 2 ^ 32"
    using slice_inside(1) [OF ok i(1)] pos by (metis le_less_trans mult_le_mono1 nat_mult_1 Suc_leI One_nat_def)
  ultimately have idx: "unat (ucast (?off div ucast (sl_slice p)) :: u32) = i"
    by (simp add: unsigned_ucast_eq take_bit_nat_eq_self_iff)
  have "sl_slice p \<noteq> 0" using ok by (simp add: sliced_ok_def)
  then show ?thesis
    using find j(2) m idx i by (simp add: FreeSlice_def FindCommonBuffer_def Let_def)
qed

lemma slice_roundtrip:
  assumes ok: "sliced_ok b p" and bs: "blocks_ok bs" "b \<in> set bs" "\<not> bToBeDeleted b"
    and alloc: "AllocateSlice p = (Some (va, pa), p1)"
  shows "FreeSlice bs p1 va = Some p \<and> pa = GetPhysicalAddress bs va"
proof -
  obtain i where i: "first_clear (sl_bitmap p) = Some i" "va = slice_va p i"
    "pa = sl_pa p + (slice_va p i - sl_va p)" "p1 = p\<lparr>sl_bitmap := (sl_bitmap p)[i := True]\<rparr>"
    using alloc AllocateSlice_spec [OF ok] by (auto split: option.splits)
  have len: "i < length (sl_bitmap p)" "\<not> sl_bitmap p ! i" using first_clear_Some [OF i(1)] by auto
  have ok1: "sliced_ok b p1" using ok i(4) by (simp add: sliced_ok_def)
  have "slice_va p1 i = va" using i by (simp add: slice_va_def)
  then have "FreeSlice bs p1 va = Some (p1\<lparr>sl_bitmap := (sl_bitmap p1)[i := False]\<rparr>)"
    using FreeSlice_spec [OF ok1 bs, of i] i(4) len by simp
  moreover have "(sl_bitmap p)[i := True, i := False] = sl_bitmap p"
    using len by (simp add: list_update_same_conv)
  ultimately have "FreeSlice bs p1 va = Some p" using i(4) by simp
  moreover have "pa = GetPhysicalAddress bs va"
    using translate_live [OF bs slice_inside(4) [OF ok len(1)]] i(2,3) ok by (simp add: sliced_ok_def)
  ultimately show ?thesis ..
qed

text \<open>Two slices that are allocated at the same time do not overlap.\<close>

lemma slices_disjoint:
  assumes ok: "sliced_ok b p" and "i < length (sl_bitmap p)" "j < length (sl_bitmap p)" "i < j"
  shows "unat (slice_va p i) + unat (sl_slice p) \<le> unat (slice_va p j)"
proof -
  have "unat (sl_slice p) * Suc i \<le> unat (sl_slice p) * j" using assms(4) by (intro mult_le_mono2) simp
  then show ?thesis using slice_inside(2) [OF ok] assms(2,3) by simp
qed

subsection \<open>Transactions\<close>

text \<open>
  The two references of a running transaction are dropped by the end of
  \<open>OnDmaTransactionProgramDma\<close> and by the completion, in either order.
\<close>

definition completes :: "bool \<Rightarrow> dma_transaction \<Rightarrow> (bool \<times> dma_transaction) option" where
  "completes r ctx = do { ctx1 \<leftarrow> VirtIOWdfDeviceDmaTxComplete ctx; Some (r, ctx1) }"

definition defers :: "dma_transaction \<Rightarrow> (bool \<times> dma_transaction) option" where
  "defers ctx = Some (True, ctx)"

lemma program_completes:
  "OnDmaTransactionProgramDma (completes r) new_transaction = Some (True, \<lparr>refCount = 0, deleted = True\<rparr>)"
  by (simp add: OnDmaTransactionProgramDma_def completes_def RefTransaction_def DerefTransaction_def
      VirtIOWdfDeviceDmaTxComplete_def new_transaction_def Let_def)

lemma program_defers:
  "OnDmaTransactionProgramDma defers new_transaction = Some (True, new_transaction)"
  "VirtIOWdfDeviceDmaTxComplete new_transaction = Some \<lparr>refCount = 0, deleted = True\<rparr>"
  by (simp_all add: OnDmaTransactionProgramDma_def defers_def RefTransaction_def DerefTransaction_def
      VirtIOWdfDeviceDmaTxComplete_def new_transaction_def Let_def)

end
