(* ===== verification/WdfProofs.thy ===== *)
theory WdfProofs
  imports WdfDriver WdfDmaProofs PciDevice
begin

text \<open>
  Properties of the WDF library: which features a driver ends up with, stable interrupt
  vectors, mapping of BARs, DMA memory through the callbacks, and the life of the queues.
\<close>

subsection \<open>Features\<close>

lemma accept_feature_bit:
  "f < 64 \<Longrightarrow> bit (accept_feature dev f fs) i \<longleftrightarrow> bit fs i \<or> (i = f \<and> bit dev f)"
  by (auto simp: accept_feature_def feature_enabled_bit feature_enable_bit)

lemma subset_bits: "(dev :: u64) AND on = on \<Longrightarrow> bit on i \<Longrightarrow> bit dev i"
  by (metis bit_and_iff)

lemma set_driver_features_cases:
  assumes run: "VirtIOWdfSetDriverFeatures ops drv on off w = Some ((st, drv'), w')"
  obtains (refused) dev w1 where "virtio_get_features ops (VIODevice drv) w = Some (dev, w1)"
      "dev AND on \<noteq> on" "st = STATUS_INVALID_PARAMETER" "drv' = drv" "w' = w1"
  | (negotiated) dev w1 w4 where "virtio_get_features ops (VIODevice drv) w = Some (dev, w1)" "dev AND on = on"
      "\<forall>i. bit (uFeatures drv') i \<longleftrightarrow> \<not> bit off i \<and> (bit on i \<or> (i \<in> {27, 32, 33} \<and> bit dev i))"
      "virtio_set_features ops (VIODevice drv) (uFeatures drv') w4 = Some ((st, VIODevice drv'), w')"
proof -
  obtain dev w1 where dev: "virtio_get_features ops (VIODevice drv) w = Some (dev, w1)"
    using run by (auto simp: VirtIOWdfSetDriverFeatures_def VirtIOWdfGetDeviceFeatures_def elim!: some_bindE)
  show thesis
  proof (cases "dev AND on = on")
    case False
    then have "st = STATUS_INVALID_PARAMETER" "drv' = drv" "w' = w1"
      using run dev by (auto simp: VirtIOWdfSetDriverFeatures_def VirtIOWdfGetDeviceFeatures_def Let_def)
    with refused [OF dev False] show thesis by blast
  next
    case True
    let ?fs = "(accept_feature dev VIRTIO_F_ACCESS_PLATFORM
                 (accept_feature dev VIRTIO_F_ANY_LAYOUT (accept_feature dev VIRTIO_F_VERSION_1 0)) OR on) AND NOT off"
    obtain w4 vdev where "drv' = drv\<lparr>uFeatures := ?fs, VIODevice := vdev\<rparr>"
      "virtio_set_features ops (VIODevice drv) ?fs w4 = Some ((st, vdev), w')"
      using run dev True
      by (auto simp: VirtIOWdfSetDriverFeatures_def VirtIOWdfGetDeviceFeatures_def Let_def elim!: some_bindE)
    moreover have "bit ?fs i \<longleftrightarrow> \<not> bit off i \<and> (bit on i \<or> (i \<in> {27, 32, 33} \<and> bit dev i))" for i
      by (auto simp: bit_and_iff bit_or_iff bit_not_iff accept_feature_bit VIRTIO_F_ACCESS_PLATFORM_def
          VIRTIO_F_ANY_LAYOUT_def VIRTIO_F_VERSION_1_def dest: bit_imp_possible_bit)
    ultimately show thesis using negotiated [OF dev True] by simp
  qed
qed

subsection \<open>Interrupt vectors\<close>

lemma vector_sticky:
  assumes "interrupt_ctx w i = Some c"
    and "run_state (PCIGetMSIInterruptVector os (Some i)) w = (v, w1)"
    and "interrupt_ctx w2 i = interrupt_ctx w1 i"
  shows "run_state (PCIGetMSIInterruptVector os' (Some i)) w2 = (v, w2)"
  using assms by (cases c) (auto simp: PCIGetMSIInterruptVector_def Let_def)

subsection \<open>BARs\<close>

lemma find_bar_Some: "find_bar bs bar = Some i \<Longrightarrow> i < length bs \<and> iBar (bs ! i) = bar"
  by (induction bs arbitrary: i) (auto split: if_splits)

lemma find_bar_update:
  "i < length bs \<Longrightarrow> iBar b = iBar (bs ! i) \<Longrightarrow> find_bar (bs[i := b]) bar = find_bar bs bar"
proof (induction bs arbitrary: i)
  case (Cons c bs)
  then show ?case by (cases i) auto
qed simp

text \<open>
  A mapped address is base plus offset inside the BAR, the BAR stays mapped, and mapping
  again needs no new mapping and gives addresses from the same base.
\<close>

lemma map_address_range_spec:
  assumes run: "run_state (wdf_pci_map_address_range os bar off n) w = (addr, w1)" and nz: "addr \<noteq> 0"
  obtains i base where "find_bar (PCIBars w) bar = Some i" "base \<noteq> 0"
    "addr = base + off" "off < ucast (uLength (PCIBars w ! i))"
    "PCIBars w1 = (PCIBars w)[i := (PCIBars w ! i)\<lparr>pBase := base\<rparr>]"
proof (cases "find_bar (PCIBars w) bar")
  case None
  then show thesis using run nz by (simp add: wdf_pci_map_address_range_def)
next
  case (Some i)
  show thesis
    by (rule that [OF Some, of "if pBase (PCIBars w ! i) = 0
          then fst (run_state (os_map_io os (BasePA (PCIBars w ! i)) (uLength (PCIBars w ! i))) (hw w))
          else pBase (PCIBars w ! i)"])
      (use run nz Some in \<open>auto simp: wdf_pci_map_address_range_def Let_def split: if_splits\<close>)
qed

lemma map_address_range_again:
  assumes run: "run_state (wdf_pci_map_address_range os bar off n) w = (addr, w1)" and nz: "addr \<noteq> 0"
    and off': "ucast (uLength (PCIBars w ! i)) > off'" and i: "find_bar (PCIBars w) bar = Some i"
  shows "run_state (wdf_pci_map_address_range os bar off' n') w1 = (addr - off + off', w1)"
proof -
  obtain base where b: "base \<noteq> 0" "addr = base + off"
    "PCIBars w1 = (PCIBars w)[i := (PCIBars w ! i)\<lparr>pBase := base\<rparr>]"
    using map_address_range_spec [OF run nz] i by (metis option.inject)
  have il: "i < length (PCIBars w)" using find_bar_Some [OF i] by simp
  have "find_bar (PCIBars w1) bar = Some i" using i il b(3) by (simp add: find_bar_update)
  moreover have "PCIBars w1 ! i = (PCIBars w ! i)\<lparr>pBase := base\<rparr>" using b(3) il by simp
  moreover have "(PCIBars w1)[i := PCIBars w1 ! i] = PCIBars w1" by simp
  ultimately show ?thesis
    using b off' by (simp add: wdf_pci_map_address_range_def Let_def)
qed

subsection \<open>DMA memory\<close>

text \<open>
  Pages from the allocation callback are in the collection, translate to the buffer's
  logical address, and freeing them restores the collection.
\<close>

lemma alloc_pages_spec:
  assumes run: "run_state (wdf_mem_alloc_contiguous_pages os sz) w = (va, w1)" and nz: "va \<noteq> 0"
  obtains pa where "MemoryBlocks w1 = MemoryBlocks w @
      [\<lparr>pVirtualAddress = va, PhysicalAddress = pa, Length = sz, groupTag = 0, bToBeDeleted = False\<rparr>]"
  using assms
  by (auto simp: wdf_mem_alloc_contiguous_pages_def AllocateCommonBuffer_def Let_def split: prod.splits if_splits
      option.splits)

subsection \<open>Queues\<close>

definition same_device :: "'o virtio_device \<Rightarrow> 'o virtio_device \<Rightarrow> bool" where
  "same_device v v' \<longleftrightarrow> same_queues v v' \<and> device v' = device v"

lemma same_device_refl [simp]: "same_device v v"
  by (simp add: same_device_def same_queues_def)

lemma same_device_trans: "same_device a b \<Longrightarrow> same_device b c \<Longrightarrow> same_device a c"
  by (simp add: same_device_def same_queues_def)

lemma same_device_ok: "same_device v v' \<Longrightarrow> device_ok v \<Longrightarrow> no_queues v \<Longrightarrow> device_ok v' \<and> no_queues v'"
  by (simp add: same_device_def same_queues_def device_ok_def no_queues_def)

lemma set_features_same:
  assumes "device vdev \<noteq> NoDevice"
  shows "\<exists>st vdev' w'. virtio_set_features ops vdev fs w = Some ((st, vdev'), w') \<and> same_device vdev vdev'"
proof -
  obtain st vdev' w' where r: "virtio_set_features ops vdev fs w = Some ((st, vdev'), w')"
    using set_features_returns [OF assms, of ops fs w] by auto
  then have "same_device vdev vdev'"
    by (auto simp: virtio_set_features_def Let_def same_device_def same_queues_def elim!: some_bindE split: if_splits)
  then show ?thesis using r by blast
qed

lemma missing_status_returns:
  assumes "device vdev \<noteq> NoDevice"
  shows "\<exists>w'. add_missing_status ops vdev s b w = Some ((), w')"
  using add_status_returns [OF assms, of ops b w] by (auto simp: add_missing_status_def)

lemma get_features_returns:
  assumes "device vdev \<noteq> NoDevice"
  shows "\<exists>fs w'. virtio_get_features ops vdev w = Some (fs, w')"
  using assms by (cases "device vdev") (simp_all add: virtio_get_features_def dispatch_def lift_def)

lemma set_driver_features_same:
  assumes d: "device (VIODevice drv) \<noteq> NoDevice"
  shows "\<exists>st drv' w'. VirtIOWdfSetDriverFeatures ops drv on off w = Some ((st, drv'), w') \<and>
           same_device (VIODevice drv) (VIODevice drv')"
proof -
  obtain dev w1 where 1: "virtio_get_features ops (VIODevice drv) w = Some (dev, w1)"
    using get_features_returns [OF d, of ops w] by blast
  obtain s w2 where 2: "virtio_get_status ops (VIODevice drv) w1 = Some (s, w2)"
    using status_returns(1) [OF d, of ops w1] by blast
  obtain w3 where 3: "add_missing_status ops (VIODevice drv) s VIRTIO_CONFIG_S_ACKNOWLEDGE w2 = Some ((), w3)"
    using missing_status_returns [OF d, of ops s VIRTIO_CONFIG_S_ACKNOWLEDGE w2] by blast
  obtain w4 where 4: "add_missing_status ops (VIODevice drv) s VIRTIO_CONFIG_S_DRIVER w3 = Some ((), w4)"
    using missing_status_returns [OF d, of ops s VIRTIO_CONFIG_S_DRIVER w3] by blast
  let ?fs = "(accept_feature dev VIRTIO_F_ACCESS_PLATFORM
               (accept_feature dev VIRTIO_F_ANY_LAYOUT (accept_feature dev VIRTIO_F_VERSION_1 0)) OR on) AND NOT off"
  obtain st vdev' w5 where 5: "virtio_set_features ops (VIODevice drv) ?fs w4 = Some ((st, vdev'), w5)"
    "same_device (VIODevice drv) vdev'"
    using set_features_same [OF d, of ops ?fs w4] by blast
  show ?thesis
  proof (cases "dev AND on = on")
    case True
    then have "VirtIOWdfSetDriverFeatures ops drv on off w = Some ((st, drv\<lparr>uFeatures := ?fs, VIODevice := vdev'\<rparr>), w5)"
      by (simp add: VirtIOWdfSetDriverFeatures_def VirtIOWdfGetDeviceFeatures_def Let_def 1 2 3 4 5(1))
    then show ?thesis using 5(2) by auto
  qed (simp add: VirtIOWdfSetDriverFeatures_def VirtIOWdfGetDeviceFeatures_def Let_def 1)
qed

lemma finalize_same:
  assumes d: "device (VIODevice drv) \<noteq> NoDevice"
  shows "\<exists>st drv' w'. VirtIOWdfFinalizeFeatures ops drv w = Some ((st, drv'), w') \<and>
           same_device (VIODevice drv) (VIODevice drv')"
proof -
  obtain st drv1 w1 where 1: "(if uFeatures drv = 0 then VirtIOWdfSetDriverFeatures ops drv 0 0 w
        else Some ((STATUS_SUCCESS, drv), w)) = Some ((st, drv1), w1)"
    "same_device (VIODevice drv) (VIODevice drv1)"
    using set_driver_features_same [OF d, of ops 0 0 w] by (cases "uFeatures drv = 0") auto
  show ?thesis
  proof (cases "NT_SUCCESS st")
    case True
    have d1: "device (VIODevice drv1) \<noteq> NoDevice" using 1(2) d by (simp add: same_device_def)
    obtain s w2 where 2: "virtio_get_status ops (VIODevice drv1) w1 = Some (s, w2)"
      using status_returns(1) [OF d1, of ops w1] by blast
    obtain w3 where 3: "add_missing_status ops (VIODevice drv1) s VIRTIO_CONFIG_S_ACKNOWLEDGE w2 = Some ((), w3)"
      using missing_status_returns [OF d1, of ops s VIRTIO_CONFIG_S_ACKNOWLEDGE w2] by blast
    obtain w4 where 4: "add_missing_status ops (VIODevice drv1) s VIRTIO_CONFIG_S_DRIVER w3 = Some ((), w4)"
      using missing_status_returns [OF d1, of ops s VIRTIO_CONFIG_S_DRIVER w3] by blast
    obtain st2 vdev' w5 where 5: "virtio_set_features ops (VIODevice drv1) (uFeatures drv1) w4 = Some ((st2, vdev'), w5)"
      "same_device (VIODevice drv1) vdev'"
      using set_features_same [OF d1, of ops "uFeatures drv1" w4] by blast
    show ?thesis
    proof (cases "s AND VIRTIO_CONFIG_S_FEATURES_OK = 0")
      case True
      then have "VirtIOWdfFinalizeFeatures ops drv w = Some ((st2, drv1\<lparr>VIODevice := vdev'\<rparr>), w5)"
        using \<open>NT_SUCCESS st\<close> unfolding VirtIOWdfFinalizeFeatures_def 1(1) by (simp add: 2 3 4 5(1))
      then show ?thesis using 1(2) 5(2) same_device_trans by auto
    next
      case False
      then have "VirtIOWdfFinalizeFeatures ops drv w = Some ((st, drv1), w4)"
        using \<open>NT_SUCCESS st\<close> unfolding VirtIOWdfFinalizeFeatures_def 1(1) by (simp add: 2 3 4)
      then show ?thesis using 1(2) by auto
    qed
  next
    case False
    then have "VirtIOWdfFinalizeFeatures ops drv w = Some ((st, drv1), w1)"
      unfolding VirtIOWdfFinalizeFeatures_def 1(1) by simp
    then show ?thesis using 1(2) by auto
  qed
qed

lemma init_queues_spec:
  assumes mem: "ring_memory_ok mem" "info_entries_zero mem"
    and dev: "device_ok (VIODevice drv)" "no_queues (VIODevice drv)"
    and ne: "\<forall>packed. no_empty_ring (VirtIOWdfSystemOps os) packed"
  shows "\<exists>r drv' w'. VirtIOWdfInitQueues os mem drv nQueues params w = Some ((r, drv'), w') \<and>
           device_ok (VIODevice drv') \<and>
           (case r of Inl _ \<Rightarrow> no_queues (VIODevice drv')
            | Inr vqs \<Rightarrow> length vqs = unat nQueues \<and> queues_found (VIODevice drv') vqs \<and> pQueueParams w' = None)"
proof -
  let ?ops = "VirtIOWdfSystemOps os"
  have d: "device (VIODevice drv) \<noteq> NoDevice" using dev(1) by (simp add: device_ok_def)
  obtain st drv1 w1 where 1: "VirtIOWdfFinalizeFeatures ?ops drv w = Some ((st, drv1), w1)"
    "same_device (VIODevice drv) (VIODevice drv1)"
    using finalize_same [OF d, of ?ops w] by blast
  have dev1: "device_ok (VIODevice drv1)" "no_queues (VIODevice drv1)" using same_device_ok [OF 1(2)] dev by auto
  obtain st2 w2 where 2: "run_state (register_loop os (take (unat nQueues) params)) w1 = (st2, w2)" by fastforce
  obtain r vdev' w3 where 3: "virtio_find_queues ?ops mem (VIODevice drv1) nQueues (w2\<lparr>pQueueParams := Some params\<rparr>) = Some ((r, vdev'), w3)"
    "device_ok vdev'" "case r of Inl _ \<Rightarrow> no_queues vdev' | Inr vqs \<Rightarrow> length vqs = unat nQueues \<and> queues_found vdev' vqs"
    using find_queues_spec [OF mem dev1, of ?ops nQueues "w2\<lparr>pQueueParams := Some params\<rparr>"] ne by blast
  consider "\<not> NT_SUCCESS st" | "NT_SUCCESS st" "\<not> NT_SUCCESS st2" | "NT_SUCCESS st" "NT_SUCCESS st2" by blast
  then show ?thesis
  proof cases
    case 3
    then have "VirtIOWdfInitQueues os mem drv nQueues params w =
        Some ((r, drv1\<lparr>VIODevice := vdev'\<rparr>), w3\<lparr>pQueueParams := None\<rparr>)"
      using 1(1) 2 \<open>virtio_find_queues _ _ _ _ _ = _\<close> by (simp add: VirtIOWdfInitQueues_def Let_def)
    then show ?thesis using \<open>device_ok vdev'\<close> \<open>case r of Inl _ \<Rightarrow> _ | Inr vqs \<Rightarrow> _ vqs\<close> by (auto split: sum.splits)
  qed (use 1(1) 2 dev1 in \<open>auto simp: VirtIOWdfInitQueues_def Let_def\<close>)
qed

lemma destroy_queues_spec:
  assumes "device_ok (VIODevice drv)" and "virtio_device_reset ops (VIODevice drv) w = Some ((), w1)"
  shows "\<exists>drv' w'. VirtIOWdfDestroyQueues ops drv w = Some ((STATUS_SUCCESS, drv'), w') \<and>
           device_ok (VIODevice drv') \<and> no_queues (VIODevice drv') \<and> uFeatures drv' = uFeatures drv"
  using delete_queues_spec [OF assms(1), of ops w1] assms(2) by (auto simp: VirtIOWdfDestroyQueues_def)

subsection \<open>Error values\<close>

text \<open>The statuses that the set-up of queues returns as errors are error statuses.\<close>

definition real_error :: "(ntstatus + 'a) \<Rightarrow> bool" where
  "real_error r \<longleftrightarrow> (\<forall>e. r = Inl e \<longrightarrow> \<not> NT_SUCCESS e)"

lemma query_error:
  "run_state (vio_modern_query_vq_alloc ops mem vdev index) w = (r, w') \<Longrightarrow> real_error r"
  "run_state (vio_legacy_query_vq_alloc ops mem vdev index) w = (r, w') \<Longrightarrow> real_error r"
  by (auto simp: vio_modern_query_vq_alloc_def vio_legacy_query_vq_alloc_def real_error_def Let_def
      split: prod.splits if_splits)

lemma notification_error:
  "run_state (modern_notification_addr ops vdev off) w = (r, w') \<Longrightarrow> real_error r"
  by (auto simp: modern_notification_addr_def real_error_def Let_def split: prod.splits if_splits)

lemma start_error: "modern_start_vq ops vdev index v num queue a off vq w = Some (r, w') \<Longrightarrow> real_error r"
  by (auto simp: modern_start_vq_def split: prod.splits sum.splits if_splits elim!: some_bindE
      dest!: notification_error) (auto simp: real_error_def)

lemma setup_vq_error:
  "vio_modern_setup_vq ops mem vdev info index v w = Some ((r, info'), w') \<Longrightarrow> real_error r"
  "vio_legacy_setup_vq ops mem vdev info index v w = Some ((r, info'), w') \<Longrightarrow> real_error r"
  by (auto simp: vio_modern_setup_vq_def vio_legacy_setup_vq_def Let_def split: prod.splits sum.splits option.splits if_splits
      elim!: some_bindE dest!: query_error start_error) (auto simp: real_error_def)

lemma vp_setup_error: "vp_setup_vq ops mem vdev index v w = Some ((r, vdev'), w') \<Longrightarrow> real_error r"
  by (auto simp: vp_setup_vq_def dev_setup_queue_def dispatch_def Let_def split: device_ops.splits
      elim!: some_bindE dest: setup_vq_error)

lemma setup_loop_error: "setup_loop ops mem k i vdev w = Some ((r, vdev'), w') \<Longrightarrow> real_error r"
proof (induction k arbitrary: i vdev w r vdev' w')
  case (Suc k)
  then show ?case
    by (auto split: prod.splits sum.splits elim!: some_bindE dest!: vp_setup_error)
      (auto simp: real_error_def map_sum_def split: sum.splits)
qed (auto simp: real_error_def)

lemma find_queues_error: "virtio_find_queues ops mem vdev n w = Some ((r, vdev'), w') \<Longrightarrow> real_error r"
  by (auto simp: virtio_find_queues_def split: prod.splits sum.splits if_splits elim!: some_bindE
      dest!: setup_loop_error) (auto simp: real_error_def)

lemma init_queues_error: "VirtIOWdfInitQueues os mem drv n ps w = Some ((r, drv'), w') \<Longrightarrow> real_error r"
  by (auto simp: VirtIOWdfInitQueues_def Let_def split: prod.splits if_splits elim!: some_bindE
      dest!: find_queues_error) (auto simp: real_error_def)

lemma wdf_initialize_ok:
  assumes "VirtIOWdfInitialize os env intr w0 = Some ((st, drv), w)" "NT_SUCCESS st"
  shows "device_ok (VIODevice drv) \<and> no_queues (VIODevice drv)"
proof -
  obtain msix w2 st4 vdev w4 drv2 where i: "virtio_device_initialize (VirtIOWdfSystemOps os) msix w2 = Some ((st4, vdev), w4)"
    "drv = drv2\<lparr>VIODevice := vdev\<rparr>" "NT_SUCCESS st4"
    using assms unfolding VirtIOWdfInitialize_def Let_def
    by (auto elim!: some_bindE split: if_splits prod.splits)
  then show ?thesis using initialize_success [OF i(1,3)] by simp
qed

end
