(* ===== verification/WdfProperties.thy ===== *)
theory WdfProperties
  imports WdfProofs PciProperties
begin

text \<open>
  The properties of the WDF library: what the drivers negotiate, the bookkeeping of DMA
  memory, and bringing queues up and down on top of the PCI transport. The concrete inputs
  are the simulated device of \<open>PciProperties\<close> behind a small operating system.
\<close>

subsection \<open>A small operating system\<close>

definition demo_os :: "u8 wdf_os" where
  "demo_os = \<lparr>
     os_read_byte = (\<lambda>_ _. State (\<lambda>w. (w, w))),
     os_read_word = (\<lambda>_ _. State (\<lambda>w. (4, w))),
     os_read_dword = (\<lambda>_ _. State (\<lambda>w. (1, w))),
     os_write_byte = (\<lambda>_ _ v. State (\<lambda>_. ((), v))),
     os_write_word = (\<lambda>_ _ _. State (\<lambda>w. ((), w))),
     os_write_dword = (\<lambda>_ _ _. State (\<lambda>w. ((), w))),
     os_passive = State (\<lambda>w. (True, w)),
     os_can_sleep = State (\<lambda>w. (True, w)),
     os_delay = (\<lambda>_. State (\<lambda>w. (STATUS_SUCCESS, w))),
     os_stall = (\<lambda>_. State (\<lambda>w. ((), w))),
     os_pool_alloc = (\<lambda>_. State (\<lambda>w. (0x20000, w))),
     os_pool_free = (\<lambda>_. State (\<lambda>w. ((), w))),
     os_common_buffer = (\<lambda>_. State (\<lambda>w. (Some (0x10000, 0x90000), w))),
     os_collection_add = State (\<lambda>w. (True, w)),
     os_map_io = (\<lambda>_ _. State (\<lambda>w. (0x100000, w))),
     os_unmap_io = (\<lambda>_ _. State (\<lambda>w. ((), w))),
     os_bus_data = (\<lambda>a n. State (\<lambda>w. (map (\<lambda>i. demo_config (a + int i)) [0..<n], w))),
     os_context_alloc = (\<lambda>_. State (\<lambda>w. (STATUS_SUCCESS, w))),
     os_interrupt_info = (\<lambda>_. State (\<lambda>w. (None, w)))\<rparr>"

definition demo_env :: wdf_init_env where
  "demo_env = \<lparr>query_interface = STATUS_SUCCESS, enabler_status = STATUS_SUCCESS,
     collection_status = STATUS_SUCCESS, spinlock_status = STATUS_SUCCESS,
     pci_header = Some [0xfe000000, 0, 0, 0, 0, 0], resources = [MemoryResource 0xfe000000 0x10000 False],
     iommu_query = STATUS_UNSUCCESSFUL, iommu_value = 0, iommu_buffer = Inl STATUS_UNSUCCESSFUL\<rparr>"

definition demo_world :: "u8 wdf_world" where
  "demo_world = \<lparr>hw = 0, PCIBars = [], MemoryBlocks = [], interrupt_ctx = Map.empty, ConfigInterrupt = None,
     pQueueParams = None\<rparr>"

definition demo_driver :: "nat wdf_driver" where
  "demo_driver = snd (fst (the (VirtIOWdfInitialize demo_os demo_env None demo_world)))"

definition demo_world1 :: "u8 wdf_world" where
  "demo_world1 = snd (the (VirtIOWdfInitialize demo_os demo_env None demo_world ::
     ((ntstatus \<times> nat wdf_driver) \<times> u8 wdf_world) option))"

lemma demo_wdf_run:
  "VirtIOWdfInitialize demo_os demo_env None demo_world = Some ((STATUS_SUCCESS, demo_driver), demo_world1)"
proof -
  have "map_option (fst \<circ> fst) (VirtIOWdfInitialize demo_os demo_env None demo_world ::
     ((ntstatus \<times> nat wdf_driver) \<times> u8 wdf_world) option) = Some STATUS_SUCCESS"
    by code_simp
  then show ?thesis by (auto simp: demo_driver_def demo_world1_def)
qed

lemma demo_no_empty_wdf: "no_empty_ring (VirtIOWdfSystemOps demo_os) packed"
proof -
  have "fst (alloc_scaled (VirtIOWdfSystemOps demo_os) packed num w) = (0x10000, num)" for num w
    by (subst alloc_scaled.simps)
      (simp add: VirtIOWdfSystemOps_def wdf_mem_alloc_contiguous_pages_def demo_os_def AllocateCommonBuffer_def)
  then have "n \<noteq> 0" if "num \<noteq> 0" "alloc_scaled (VirtIOWdfSystemOps demo_os) packed num w = ((queue, n), w')"
    for num n w queue w'
    using that by (metis fst_conv snd_conv)
  then show ?thesis unfolding no_empty_ring_def by blast
qed

lemma demo_status_register: "status_register (VirtIOWdfSystemOps demo_os) a hw"
  by (simp add: status_register_def VirtIOWdfSystemOps_def ReadVirtIODeviceByte_def WriteVirtIODeviceByte_def demo_os_def)

subsection \<open>Features\<close>




subsection \<open>DMA memory\<close>

text \<open>
  C26: common buffers. In a collection of blocks that do not overlap, every address inside a
  live block translates to the block's physical address plus the offset. Freeing by the
  start address removes exactly that block at passive level and marks it otherwise; after
  that no address of it translates any more, and every other block translates as before.
\<close>

theorem dma_free_exact:
  assumes ok: "blocks_ok (xs @ b # ys)" and live: "\<not> bToBeDeleted b" and va: "block_covers b va"
    and other: "c \<in> set (xs @ ys)" "\<not> bToBeDeleted c" "block_covers c va'"
  shows "GetPhysicalAddress (xs @ b # ys) va = PhysicalAddress b + (va - pVirtualAddress b) \<and>
    (let bs = VirtIOWdfDeviceFreeDmaMemory passive (pVirtualAddress b) (xs @ b # ys)
     in GetPhysicalAddress bs va = 0 \<and>
        GetPhysicalAddress bs va' = GetPhysicalAddress (xs @ b # ys) va' \<and>
        (bs = xs @ ys \<or> \<not> passive))"
proof -
  let ?b = "b\<lparr>bToBeDeleted := True\<rparr>"
  note free = free_exact [OF ok, of "passive"]
  have dead: "\<forall>d \<in> set (xs @ ys). \<not> block_covers d va" by (rule blocks_ok_only [OF ok va])
  have cov: "block_covers ?b a = block_covers b a" for a by (simp add: block_covers_def)
  have ok': "blocks_ok (xs @ ys)" by (rule blocks_ok_sublist [OF ok])
  have ok'': "blocks_ok (xs @ ?b # ys)" by (rule blocks_ok_mark [OF ok])
  have tr: "GetPhysicalAddress (xs @ b # ys) va' = PhysicalAddress c + (va' - pVirtualAddress c)"
    using other by (intro translate_live [OF ok]) auto
  have "GetPhysicalAddress (xs @ ys) va' = PhysicalAddress c + (va' - pVirtualAddress c)"
    "GetPhysicalAddress (xs @ ?b # ys) va' = PhysicalAddress c + (va' - pVirtualAddress c)"
    using other by (intro translate_live [OF ok'] translate_live [OF ok'']; auto)+
  moreover have "GetPhysicalAddress (xs @ ys) va = 0" "GetPhysicalAddress (xs @ ?b # ys) va = 0"
    using dead by (intro translate_unknown; auto)+
  moreover have "GetPhysicalAddress (xs @ b # ys) va = PhysicalAddress b + (va - pVirtualAddress b)"
    by (rule translate_live [OF ok _ live va]) simp
  ultimately show ?thesis using free tr by (simp add: Let_def)
qed

definition demo_blocks :: "mem_block list" where
  "demo_blocks = [\<lparr>pVirtualAddress = 0x1000, PhysicalAddress = 0x9000, Length = 0x1000, groupTag = 0, bToBeDeleted = False\<rparr>,
     \<lparr>pVirtualAddress = 0x4000, PhysicalAddress = 0xa000, Length = 0x2000, groupTag = 7, bToBeDeleted = False\<rparr>]"

theorem dma_free_exact_witness:
  "GetPhysicalAddress demo_blocks 0x1010 = 0x9010 \<and>
   GetPhysicalAddress (VirtIOWdfDeviceFreeDmaMemory True 0x1000 demo_blocks) 0x1010 = 0 \<and>
   GetPhysicalAddress (VirtIOWdfDeviceFreeDmaMemory True 0x1000 demo_blocks) 0x4020 = 0xa020"
proof -
  have "blocks_ok demo_blocks"
    by (auto simp: blocks_ok_def demo_blocks_def block_fits_def block_covers_def less_Suc_eq
        word_less_nat_alt word_le_nat_alt)
  then have ok: "blocks_ok ([] @ demo_blocks ! 0 # [demo_blocks ! 1])" by (simp add: demo_blocks_def)
  have eq: "[] @ demo_blocks ! 0 # [demo_blocks ! 1] = demo_blocks" "pVirtualAddress (demo_blocks ! 0) = 0x1000"
    "PhysicalAddress (demo_blocks ! 0) = 0x9000" "GetPhysicalAddress demo_blocks 0x4020 = 0xa020"
    "(0x9000 :: u64) + (0x1010 - 0x1000) = 0x9010"
    by (simp add: demo_blocks_def | code_simp)+
  have prems: "\<not> bToBeDeleted (demo_blocks ! 0)" "block_covers (demo_blocks ! 0) 0x1010"
    "demo_blocks ! 1 \<in> set ([] @ [demo_blocks ! 1])" "\<not> bToBeDeleted (demo_blocks ! 1)"
    "block_covers (demo_blocks ! 1) 0x4020"
    by (simp_all add: demo_blocks_def block_covers_def)
  from dma_free_exact [OF ok prems, of True] show ?thesis
    unfolding Let_def eq by (elim conjE) (intro conjI)
qed




end
