(* ===== verification/BalloonDriver.thy ===== *)
theory BalloonDriver
  imports WdfDriver
begin

text \<open>
  The memory balloon driver, \<^verbatim>\<open>src/Balloon/sys/\<close>: \<^verbatim>\<open>balloon.c\<close> (inflate, deflate, telling
  the host), \<^verbatim>\<open>Device.c\<close> (power transitions, interrupt, worker thread) and \<^verbatim>\<open>memstat.c\<close>
  (statistics), as built without \<open>USE_BALLOON_SERVICE\<close>.

  The page allocator, the low-memory event, the thread and the performance counters of the
  operating system are the record \<open>balloon_os\<close>. While the worker waits for the host, the
  device and the interrupt routine run: \<open>wait\<close> is what they do to the driver's state and to
  the world. Locks make the queue operations between acquire and release atomic.
\<close>

subsection \<open>State\<close>

text \<open>A memory descriptor list: \<open>MmGetMdlByteCount\<close> and \<open>MmGetMdlPfnArray\<close>.\<close>

record mdl =
  mdl_byte_count :: u32
  mdl_pfns :: "u64 list"

record balloon_stat =
  stat_tag :: u16
  stat_val :: u64

record perf_info =
  AvailablePages :: u32
  PageReadCount :: u32
  DirtyPagesWriteCount :: u32
  MappedPagesWriteCount :: u32
  CopyOnWriteCount :: u32
  TransitionCount :: u32
  CacheTransitionCount :: u32
  DemandZeroCount :: u32

record cache_info =
  CurrentSize :: u64
  MinimumWorkingSet :: u64
  cache_Flags :: u32

record 'd balloon_os =
  low_memory_signalled :: "('d, bool) state"
  MmAllocatePages :: "u64 \<Rightarrow> ('d, mdl option) state"
  MmFreePages :: "mdl \<Rightarrow> ('d, unit) state"
  lookaside_alloc :: "('d, bool) state"
  create_low_memory_event :: "('d, bool) state"
  create_thread :: "('d, ntstatus) state"
  wait_for_thread :: "('d, ntstatus) state"
  query_basic :: "('d, ntstatus + u32) state"
  query_perf :: "('d, ntstatus + perf_info) state"
  query_cache :: "('d, ntstatus + cache_info) state"

text \<open>
  \<open>DEVICE_CONTEXT\<close>. Pointers to memory are addresses with 0 for \<open>NULL\<close>; \<open>pfns\<close> and
  \<open>stats\<close> are what the pages at \<open>pfns_table\<close> and \<open>MemStats\<close> hold. \<open>Counters\<close> is the static
  array of \<^verbatim>\<open>memstat.c\<close>. The opaque pointer of every buffer is the context itself.
\<close>

record balloon_ctx =
  WdfInterrupt :: "nat option"
  SurpriseRemoval :: bool
  evLowMem :: bool
  VDevice :: "unit wdf_driver"
  InfVirtQueue :: "unit virtqueue_obj option"
  DefVirtQueue :: "unit virtqueue_obj option"
  StatVirtQueue :: "unit virtqueue_obj option"
  HostAckEvent :: bool
  num_pages :: u32
  num_pfns :: u32
  pfns_table :: u64
  pfns :: "u64 list"
  PageListHead :: "mdl list"
  MemStats :: u64
  stats :: "balloon_stat list"
  WakeUpThread :: bool
  Thread :: bool
  bShutDown :: bool
  WorkCount :: u32
  StatWorkItem_queued :: bool
  Counters :: "u64 list"

type_synonym 'd balloon_wait = "balloon_ctx \<Rightarrow> 'd wdf_world \<Rightarrow> balloon_ctx \<times> 'd wdf_world"

definition BALLOON_PAGE_SIZE :: u64 where "BALLOON_PAGE_SIZE = 4096"
definition BALLOON_PAGE_SHIFT :: nat where "BALLOON_PAGE_SHIFT = 12"
definition sizeof_PFN_NUMBER :: u64 where "sizeof_PFN_NUMBER = 8"
definition sizeof_BALLOON_STAT :: u32 where "sizeof_BALLOON_STAT = 10"
definition VIRTIO_BALLOON_S_NR :: u32 where "VIRTIO_BALLOON_S_NR = 10"
definition VIRTIO_BALLOON_F_STATS_VQ :: nat where "VIRTIO_BALLOON_F_STATS_VQ = 1"
definition BALLOON_MGMT_POOL_TAG :: u32 where "BALLOON_MGMT_POOL_TAG = 0x6d746c42"
definition CONFIG_num_pages :: u32 where "CONFIG_num_pages = 0"
definition CONFIG_actual :: u32 where "CONFIG_actual = 4"

text \<open>
  \<open>BalloonDeviceAdd\<close>. The statuses of the framework calls that create objects are arguments,
  in the order of the calls. The framework clears the context; a failure before the fields
  are set leaves it so, one of the last three calls leaves the fields set.
\<close>

definition zero_ctx :: balloon_ctx where
  "zero_ctx = \<lparr>WdfInterrupt = None, SurpriseRemoval = False, evLowMem = False, VDevice = initial_driver,
     InfVirtQueue = None, DefVirtQueue = None, StatVirtQueue = None, HostAckEvent = False,
     num_pages = 0, num_pfns = 0, pfns_table = 0, pfns = [], PageListHead = [], MemStats = 0, stats = [],
     WakeUpThread = False, Thread = False, bShutDown = False, WorkCount = 0, StatWorkItem_queued = False,
     Counters = replicate 7 0\<rparr>"

record balloon_add_env =
  WdfDeviceCreate :: ntstatus
  WdfInterruptCreate :: "ntstatus \<times> nat"
  WdfDeviceCreateDeviceInterface :: ntstatus
  WdfSpinLockCreate_stat :: ntstatus
  WdfSpinLockCreate_infdef :: ntstatus
  WdfWorkItemCreate :: ntstatus

definition BalloonDeviceAdd :: "balloon_add_env \<Rightarrow> ntstatus \<times> balloon_ctx" where
  "BalloonDeviceAdd env =
     (if \<not> NT_SUCCESS (WdfDeviceCreate env) then (WdfDeviceCreate env, zero_ctx)
      else if \<not> NT_SUCCESS (fst (WdfInterruptCreate env)) then (fst (WdfInterruptCreate env), zero_ctx)
      else
        let ctx = zero_ctx\<lparr>WdfInterrupt := Some (snd (WdfInterruptCreate env))\<rparr>
        in if \<not> NT_SUCCESS (WdfDeviceCreateDeviceInterface env) then (WdfDeviceCreateDeviceInterface env, ctx)
           else
             let ctx1 = ctx\<lparr>SurpriseRemoval := False, bShutDown := False, num_pages := 0, PageListHead := [],
                            pfns_table := 0, MemStats := 0, HostAckEvent := False\<rparr>
             in if \<not> NT_SUCCESS (WdfSpinLockCreate_stat env) then (WdfSpinLockCreate_stat env, ctx1)
                else if \<not> NT_SUCCESS (WdfSpinLockCreate_infdef env) then (WdfSpinLockCreate_infdef env, ctx1)
                else
                  let ctx2 = ctx1\<lparr>Counters := replicate 7 0\<rparr>
                  in if \<not> NT_SUCCESS (WdfWorkItemCreate env) then (WdfWorkItemCreate env, ctx2)
                     else (WdfWorkItemCreate env, ctx2\<lparr>WakeUpThread := False\<rparr>))"

text \<open>The queue a function is called with: the one for inflating or the one for deflating.\<close>

datatype balloon_queue = Inflate | Deflate

fun get_queue :: "balloon_queue \<Rightarrow> balloon_ctx \<Rightarrow> unit virtqueue_obj option" where
  "get_queue Inflate ctx = InfVirtQueue ctx"
| "get_queue Deflate ctx = DefVirtQueue ctx"

fun set_queue :: "balloon_queue \<Rightarrow> unit virtqueue_obj \<Rightarrow> balloon_ctx \<Rightarrow> balloon_ctx" where
  "set_queue Inflate vq ctx = ctx\<lparr>InfVirtQueue := Some vq\<rparr>"
| "set_queue Deflate vq ctx = ctx\<lparr>DefVirtQueue := Some vq\<rparr>"

definition ctx_ev :: "balloon_ctx \<Rightarrow> bool" where
  "ctx_ev ctx = event_suppression_enabled (VIODevice (VDevice ctx))"

subsection \<open>Telling the host\<close>

text \<open>
  One read-only segment is added to the queue and the device notified. The wait for the
  acknowledgement ends at once when the event is already signalled; a synchronization event
  is reset by a successful wait.
\<close>

definition wait_host_ack :: "'d balloon_wait \<Rightarrow> balloon_ctx \<Rightarrow> ('d wdf_world, ntstatus \<times> balloon_ctx) run" where
  "wait_host_ack wait ctx w =
     (case (if HostAckEvent ctx then (ctx, w) else wait ctx w) of
        (ctx1, w1) \<Rightarrow>
          Some (if HostAckEvent ctx1 then (STATUS_SUCCESS, ctx1\<lparr>HostAckEvent := False\<rparr>)
                else (STATUS_TIMEOUT, ctx1), w1))"

definition BalloonTellHost ::
  "'d wdf_os \<Rightarrow> 'd balloon_wait \<Rightarrow> balloon_queue \<Rightarrow> balloon_ctx
     \<Rightarrow> ('d wdf_world, ntstatus \<times> balloon_ctx) run" where
  "BalloonTellHost os wait sel ctx w =
     (if SurpriseRemoval ctx then Some ((STATUS_NO_SUCH_DEVICE, ctx), w)
      else do {
        vq \<leftarrow> get_queue sel ctx;
        let sg = \<lparr>physAddr = GetPhysicalAddress (MemoryBlocks w) (pfns_table ctx),
                  sg_length = ucast sizeof_PFN_NUMBER * num_pfns ctx\<rparr>;
        (r, ring, _) \<leftarrow> virtqueue_add_buf (vqo_ring vq) [sg] 1 0 (Some ()) None 0;
        if r < 0 then Some ((STATUS_NO_MORE_ENTRIES, set_queue sel (vq\<lparr>vqo_ring := ring\<rparr>) ctx), w)
        else do {
          let (do_notify, ring1) = virtqueue_kick_prepare (ctx_ev ctx) ring;
          let vq1 = vq\<lparr>vqo_ring := ring1\<rparr>;
          let ctx1 = set_queue sel vq1 ctx;
          (_, w1) \<leftarrow> (if do_notify then lift (virtqueue_notify (VirtIOWdfSystemOps os) vq1) w else Some ((), w));
          wait_host_ack wait ctx1 w1
        }
      })"

subsection \<open>Inflating and deflating\<close>

definition IsLowMemory :: "'d balloon_os \<Rightarrow> balloon_ctx \<Rightarrow> ('d wdf_world, bool) state" where
  "IsLowMemory bos ctx =
     (if evLowMem ctx then on_hw (low_memory_signalled bos) else State_Monad.return False)"

text \<open>
  \<open>RtlCopyMemory\<close> of \<open>n\<close> page frame numbers into the table: an error when the table or the
  array has fewer.
\<close>

definition copy_pfns :: "u64 list \<Rightarrow> nat \<Rightarrow> u64 list \<Rightarrow> u64 list option" where
  "copy_pfns table n src =
     (if n \<le> length table \<and> n \<le> length src then Some (take n src @ drop n table) else None)"

definition BalloonFill ::
  "'d wdf_os \<Rightarrow> 'd balloon_os \<Rightarrow> 'd balloon_wait \<Rightarrow> u64 \<Rightarrow> balloon_ctx
     \<Rightarrow> ('d wdf_world, ntstatus \<times> balloon_ctx) run" where
  "BalloonFill os bos wait num0 ctx0 w = do {
     let ctx = ctx0\<lparr>num_pfns := 0\<rparr>;
     (low, w1) \<leftarrow> lift (IsLowMemory bos ctx) w;
     if low then Some ((STATUS_INSUFFICIENT_RESOURCES, ctx), w1)
     else do {
       let num = min num0 (BALLOON_PAGE_SIZE div sizeof_PFN_NUMBER);
       (r, w2) \<leftarrow> lift (on_hw (MmAllocatePages bos (num * BALLOON_PAGE_SIZE))) w1;
       case r of
         None \<Rightarrow> Some ((STATUS_INSUFFICIENT_RESOURCES, ctx), w2)
       | Some pPageMdl \<Rightarrow>
           if ucast (mdl_byte_count pPageMdl) \<noteq> num * BALLOON_PAGE_SIZE then do {
             (_, w3) \<leftarrow> lift (on_hw (MmFreePages bos pPageMdl)) w2;
             Some ((STATUS_INSUFFICIENT_RESOURCES, ctx), w3)
           }
           else do {
             (entry, w3) \<leftarrow> lift (on_hw (lookaside_alloc bos)) w2;
             if \<not> entry then do {
               (_, w4) \<leftarrow> lift (on_hw (MmFreePages bos pPageMdl)) w3;
               Some ((STATUS_INSUFFICIENT_RESOURCES, ctx), w4)
             }
             else do {
               let ctx1 = ctx\<lparr>PageListHead := pPageMdl # PageListHead ctx, num_pfns := ucast num\<rparr>;
               let ctx2 = ctx1\<lparr>num_pages := num_pages ctx1 + num_pfns ctx1\<rparr>;
               table \<leftarrow> copy_pfns (pfns ctx2) (unat (num_pfns ctx2)) (mdl_pfns pPageMdl);
               BalloonTellHost os wait Inflate (ctx2\<lparr>pfns := table\<rparr>) w3
             }
           }
     }
   }"

text \<open>
  The argument \<open>num\<close> of the source is overwritten: the whole descriptor list at the head is
  released.
\<close>

definition BalloonLeak ::
  "'d wdf_os \<Rightarrow> 'd balloon_os \<Rightarrow> 'd balloon_wait \<Rightarrow> u64 \<Rightarrow> balloon_ctx
     \<Rightarrow> ('d wdf_world, ntstatus \<times> balloon_ctx) run" where
  "BalloonLeak os bos wait num0 ctx w =
     (case PageListHead ctx of
        [] \<Rightarrow> Some ((STATUS_NOT_FOUND, ctx), w)
      | pPageMdl # rest \<Rightarrow> do {
          let num = ucast (mdl_byte_count pPageMdl) div BALLOON_PAGE_SIZE;
          let ctx1 = ctx\<lparr>PageListHead := rest, num_pfns := ucast num\<rparr>;
          let ctx2 = ctx1\<lparr>num_pages := num_pages ctx1 - num_pfns ctx1\<rparr>;
          table \<leftarrow> copy_pfns (pfns ctx2) (unat (num_pfns ctx2)) (mdl_pfns pPageMdl);
          (_, w1) \<leftarrow> lift (on_hw (MmFreePages bos pPageMdl)) w;
          BalloonTellHost os wait Deflate (ctx2\<lparr>pfns := table\<rparr>) w1
        })"

subsection \<open>The balloon size\<close>

definition BalloonSetSize ::
  "'d wdf_os \<Rightarrow> u64 \<Rightarrow> balloon_ctx \<Rightarrow> ('d wdf_world, unit) run" where
  "BalloonSetSize os num ctx =
     VirtIOWdfDeviceSet (VirtIOWdfSystemOps os) (VDevice ctx) CONFIG_actual (bytes_of_u32 (ucast num)) 4"

text \<open>
  \<open>v\<close> is not initialised in the source: \<open>garbage\<close> is what the stack holds, and it is used
  when the configuration access does not write.
\<close>

definition BalloonGetSize ::
  "'d wdf_os \<Rightarrow> u8 list \<Rightarrow> balloon_ctx \<Rightarrow> ('d wdf_world, int) run" where
  "BalloonGetSize os garbage ctx w = do {
     (v, w1) \<leftarrow> VirtIOWdfDeviceGet (VirtIOWdfSystemOps os) (VDevice ctx) CONFIG_num_pages garbage 4 w;
     Some (uint (le_of_bytes v :: u32) - uint (num_pages ctx), w1)
   }"

text \<open>
  The body of the worker's loop after it has been woken; \<open>True\<close> is the exit of the thread.
  \<open>status\<close> is that of the wait, \<open>STATUS_WAIT_0\<close>, when neither branch runs.
\<close>

definition BalloonRoutine_body ::
  "'d wdf_os \<Rightarrow> 'd balloon_os \<Rightarrow> 'd balloon_wait \<Rightarrow> u8 list \<Rightarrow> balloon_ctx
     \<Rightarrow> ('d wdf_world, bool \<times> balloon_ctx) run" where
  "BalloonRoutine_body os bos wait garbage ctx w =
     (if bShutDown ctx then Some ((True, ctx), w)
      else do {
        (diff, w1) \<leftarrow> BalloonGetSize os garbage ctx w;
        ((status, ctx1), w2) \<leftarrow>
          (if diff > 0 then BalloonFill os bos wait (word_of_int diff) ctx w1
           else if diff < 0 then BalloonLeak os bos wait (word_of_int (- diff)) ctx w1
           else Some ((STATUS_SUCCESS, ctx), w1));
        let ctx2 = (if (status = STATUS_TIMEOUT \<or> status = STATUS_NO_MORE_ENTRIES) \<and> diff \<noteq> 0
                    then ctx1\<lparr>WakeUpThread := True\<rparr> else ctx1);
        (_, w3) \<leftarrow> BalloonSetSize os (ucast (num_pages ctx2)) ctx2 w2;
        Some ((False, ctx2), w3)
      })"

text \<open>
  The loop for at most \<open>k\<close> wake-ups. The wait for the wake-up event has no timeout: \<open>idle\<close>
  is what happens while the thread sleeps, and if the event is not signalled after that the
  thread is still asleep. A successful wait resets the event.
\<close>

fun BalloonRoutine ::
  "'d wdf_os \<Rightarrow> 'd balloon_os \<Rightarrow> 'd balloon_wait \<Rightarrow> 'd balloon_wait \<Rightarrow> u8 list \<Rightarrow> nat \<Rightarrow> balloon_ctx
     \<Rightarrow> ('d wdf_world, bool \<times> balloon_ctx) run" where
  "BalloonRoutine os bos wait idle garbage 0 ctx w = Some ((False, ctx), w)"
| "BalloonRoutine os bos wait idle garbage (Suc k) ctx w =
     (case (if WakeUpThread ctx then (ctx, w) else idle ctx w) of
        (ctx1, w1) \<Rightarrow>
          if \<not> WakeUpThread ctx1 then Some ((False, ctx1), w1)
          else do {
            ((stop, ctx2), w2) \<leftarrow> BalloonRoutine_body os bos wait garbage (ctx1\<lparr>WakeUpThread := False\<rparr>) w1;
            if stop then Some ((True, ctx2), w2) else BalloonRoutine os bos wait idle garbage k ctx2 w2
          })"

subsection \<open>Bringing the device up and down\<close>

definition stat_sg :: "balloon_ctx \<Rightarrow> 'd wdf_world \<Rightarrow> scatterlist" where
  "stat_sg ctx w = \<lparr>physAddr = GetPhysicalAddress (MemoryBlocks w) (MemStats ctx),
                    sg_length = sizeof_BALLOON_STAT * VIRTIO_BALLOON_S_NR\<rparr>"

text \<open>
  The branch of \<open>BalloonInit\<close> for three queues: the statistics queue, and whether the first
  buffer could be added to it.
\<close>

definition init_stat_queue ::
  "unit virtqueue_obj \<Rightarrow> balloon_ctx \<Rightarrow> 'd wdf_world \<Rightarrow> (bool \<times> balloon_ctx) option" where
  "init_stat_queue vq ctx w = do {
     (r, ring, _) \<leftarrow> virtqueue_add_buf (vqo_ring vq) [stat_sg ctx w] 1 0 (Some ()) None 0;
     Some (r \<ge> 0, ctx\<lparr>StatVirtQueue := Some (vq\<lparr>vqo_ring := ring\<rparr>)\<rparr>)
   }"

text \<open>The branch for created queues, with the notification at the end of the function.\<close>

definition init_queues_done ::
  "'d wdf_os \<Rightarrow> u32 \<Rightarrow> unit virtqueue_obj list \<Rightarrow> balloon_ctx \<Rightarrow> ('d wdf_world, ntstatus \<times> balloon_ctx) run" where
  "init_queues_done os nvqs vqs ctx w = do {
     let ops = VirtIOWdfSystemOps os;
     inf \<leftarrow> nth_opt vqs 0;
     def \<leftarrow> nth_opt vqs 1;
     let ctx1 = ctx\<lparr>InfVirtQueue := Some inf, DefVirtQueue := Some def\<rparr>;
     (notify_stat_queue, ctx2) \<leftarrow>
       (if nvqs = 3 then do { st \<leftarrow> nth_opt vqs 2; init_stat_queue st ctx1 w } else Some (False, ctx1));
     (_, w1) \<leftarrow> VirtIOWdfSetDriverOK ops (VDevice ctx2) w;
     if notify_stat_queue then do {
       st \<leftarrow> StatVirtQueue ctx2;
       (st1, w2) \<leftarrow> lift (virtqueue_kick ops (VIODevice (VDevice ctx2)) st) w1;
       Some ((STATUS_SUCCESS, ctx2\<lparr>StatVirtQueue := Some st1\<rparr>), w2)
     }
     else Some ((STATUS_SUCCESS, ctx2), w1)
   }"

definition BalloonInit ::
  "'d wdf_os \<Rightarrow> (unit, 'd wdf_world) ring_memory \<Rightarrow> balloon_ctx \<Rightarrow> ('d wdf_world, ntstatus \<times> balloon_ctx) run" where
  "BalloonInit os mem ctx w = do {
     let ops = VirtIOWdfSystemOps os;
     let params = [WdfInterrupt ctx, WdfInterrupt ctx, WdfInterrupt ctx];
     (u64HostFeatures, w1) \<leftarrow> VirtIOWdfGetDeviceFeatures ops (VDevice ctx) w;
     let stats_vq = virtio_is_feature_enabled u64HostFeatures VIRTIO_BALLOON_F_STATS_VQ;
     let u64GuestFeatures = (if stats_vq then virtio_feature_enable 0 VIRTIO_BALLOON_F_STATS_VQ else 0);
     let nvqs = (if stats_vq then 3 else 2 :: u32);
     ((status, drv), w2) \<leftarrow> VirtIOWdfSetDriverFeatures ops (VDevice ctx) u64GuestFeatures 0 w1;
     let ctx1 = ctx\<lparr>VDevice := drv\<rparr>;
     if \<not> NT_SUCCESS status then do {
       (_, w3) \<leftarrow> VirtIOWdfSetDriverFailed ops drv w2;
       Some ((status, ctx1), w3)
     }
     else do {
       ((r, drv1), w3) \<leftarrow> VirtIOWdfInitQueues os mem drv nvqs params w2;
       let ctx2 = ctx1\<lparr>VDevice := drv1\<rparr>;
       case r of
         Inl e \<Rightarrow> do {
           (_, w4) \<leftarrow> VirtIOWdfSetDriverFailed ops drv1 w3;
           Some ((e, ctx2), w4)
         }
       | Inr vqs \<Rightarrow> init_queues_done os nvqs vqs ctx2 w3
     }
   }"

text \<open>
  The device's table and the driver hold pointers to the same queue structures. The driver's
  copy is the live one; it is stored back before the library walks the table.
\<close>

definition store_queue :: "unit virtqueue_obj option \<Rightarrow> unit virtio_device \<Rightarrow> unit virtio_device" where
  "store_queue q vdev =
     (case q of
        None \<Rightarrow> vdev
      | Some vq \<Rightarrow> vdev\<lparr>dev_info := map (\<lambda>info. case info_vq info of
            None \<Rightarrow> info
          | Some vq0 \<Rightarrow> if vqo_index vq0 = vqo_index vq then info\<lparr>info_vq := Some vq\<rparr> else info) (dev_info vdev)\<rparr>)"

definition store_queues :: "balloon_ctx \<Rightarrow> unit wdf_driver" where
  "store_queues ctx =
     (VDevice ctx)\<lparr>VIODevice := store_queue (StatVirtQueue ctx) (store_queue (DefVirtQueue ctx)
        (store_queue (InfVirtQueue ctx) (VIODevice (VDevice ctx))))\<rparr>"

definition BalloonTerm :: "'d wdf_os \<Rightarrow> balloon_ctx \<Rightarrow> ('d wdf_world, balloon_ctx) run" where
  "BalloonTerm os ctx w = do {
     ((_, drv), w1) \<leftarrow> VirtIOWdfDestroyQueues (VirtIOWdfSystemOps os) (store_queues ctx) w;
     Some (ctx\<lparr>VDevice := drv, StatVirtQueue := None\<rparr>, w1)
   }"

definition fill_stats_minus_one :: "balloon_ctx \<Rightarrow> balloon_ctx" where
  "fill_stats_minus_one ctx =
     ctx\<lparr>stats := replicate (unat VIRTIO_BALLOON_S_NR) \<lparr>stat_tag = - 1, stat_val = - 1\<rparr>\<rparr>"

text \<open>\<open>VirtIOWdfDeviceAllocDmaMemory\<close> of a page with the driver's tag.\<close>

definition alloc_dma_page :: "'d wdf_os \<Rightarrow> ('d wdf_world, u64) state" where
  "alloc_dma_page os = do {
     passive \<leftarrow> on_hw (os_passive os);
     created \<leftarrow> (if passive then on_hw (os_common_buffer os BALLOON_PAGE_SIZE) else State_Monad.return None);
     added \<leftarrow> (if created = None then State_Monad.return False else on_hw (os_collection_add os));
     blocks \<leftarrow> get_world MemoryBlocks;
     let (va, blocks1) = AllocateCommonBuffer passive created added BALLOON_PAGE_SIZE BALLOON_MGMT_POOL_TAG blocks;
     put_world (\<lambda>w. w\<lparr>MemoryBlocks := blocks1\<rparr>);
     State_Monad.return va
   }"

text \<open>The page at \<open>pfns_table\<close> holds \<open>page\<close>, 512 page frame numbers, when it is new.\<close>

definition BalloonEvtDevicePrepareHardware ::
  "'d wdf_os \<Rightarrow> wdf_init_env \<Rightarrow> u64 list \<Rightarrow> balloon_ctx \<Rightarrow> ('d wdf_world, ntstatus \<times> balloon_ctx) run" where
  "BalloonEvtDevicePrepareHardware os env page ctx w = do {
     ((status, drv), w1) \<leftarrow> VirtIOWdfInitialize os env None w;
     let ctx1 = ctx\<lparr>VDevice := drv\<rparr>;
     if \<not> NT_SUCCESS status then Some ((status, ctx1), w1)
     else do {
       (ms, w2) \<leftarrow> lift (alloc_dma_page os) w1;
       let ctx2 = ctx1\<lparr>MemStats := ms\<rparr>;
       let (status2, ctx3) = (if ms \<noteq> 0 then (status, fill_stats_minus_one ctx2)
                              else (STATUS_INSUFFICIENT_RESOURCES, ctx2));
       (ctx4, w3) \<leftarrow> (if NT_SUCCESS status2 then do {
                        (pt, w3) \<leftarrow> lift (alloc_dma_page os) w2;
                        Some (ctx3\<lparr>pfns_table := pt, pfns := page\<rparr>, w3)
                      } else Some (ctx3, w2));
       Some ((if pfns_table ctx4 = 0 then STATUS_INSUFFICIENT_RESOURCES else status2, ctx4), w3)
     }
   }"

definition BalloonEvtDeviceReleaseHardware ::
  "'d wdf_os \<Rightarrow> balloon_ctx \<Rightarrow> ('d wdf_world, ntstatus \<times> balloon_ctx) state" where
  "BalloonEvtDeviceReleaseHardware os ctx = do {
     passive \<leftarrow> on_hw (os_passive os);
     put_world (\<lambda>w. w\<lparr>MemoryBlocks :=
       VirtIOWdfDeviceFreeDmaMemoryByTag passive BALLOON_MGMT_POOL_TAG (MemoryBlocks w)\<rparr>);
     (_, drv) \<leftarrow> VirtIOWdfShutdown os (VDevice ctx);
     State_Monad.return (STATUS_SUCCESS, ctx\<lparr>MemStats := 0, pfns_table := 0, VDevice := drv\<rparr>)
   }"

definition BalloonCreateWorkerThread ::
  "'d balloon_os \<Rightarrow> balloon_ctx \<Rightarrow> ('d wdf_world, ntstatus \<times> balloon_ctx) state" where
  "BalloonCreateWorkerThread bos ctx0 =
     (let ctx = ctx0\<lparr>bShutDown := False\<rparr> in
      if \<not> Thread ctx then do {
        status \<leftarrow> on_hw (create_thread bos);
        State_Monad.return (status, if NT_SUCCESS status then ctx\<lparr>Thread := True, WakeUpThread := True\<rparr> else ctx)
      }
      else State_Monad.return (STATUS_SUCCESS, ctx\<lparr>WakeUpThread := True\<rparr>))"

definition BalloonCloseWorkerThread ::
  "'d balloon_os \<Rightarrow> balloon_ctx \<Rightarrow> ('d wdf_world, ntstatus \<times> balloon_ctx) state" where
  "BalloonCloseWorkerThread bos ctx =
     (if Thread ctx then do {
        status \<leftarrow> on_hw (wait_for_thread bos);
        State_Monad.return (status, ctx\<lparr>bShutDown := True, WakeUpThread := True, Thread := False\<rparr>)
      }
      else State_Monad.return (STATUS_SUCCESS, ctx))"

definition BalloonEvtDeviceD0Entry ::
  "'d wdf_os \<Rightarrow> 'd balloon_os \<Rightarrow> (unit, 'd wdf_world) ring_memory \<Rightarrow> balloon_ctx
     \<Rightarrow> ('d wdf_world, ntstatus \<times> balloon_ctx) run" where
  "BalloonEvtDeviceD0Entry os bos mem ctx w = do {
     ((status, ctx1), w1) \<leftarrow> BalloonInit os mem ctx w;
     if \<not> NT_SUCCESS status then do {
       (ctx2, w2) \<leftarrow> BalloonTerm os ctx1 w1;
       Some ((status, ctx2), w2)
     }
     else do {
       ((status2, ctx2), w2) \<leftarrow> lift (BalloonCreateWorkerThread bos ctx1) w1;
       (ev, w3) \<leftarrow> lift (on_hw (create_low_memory_event bos)) w2;
       Some ((status2, ctx2\<lparr>evLowMem := ev\<rparr>), w3)
     }
   }"

text \<open>The loop that empties the balloon before the device is removed.\<close>

partial_function (option) leak_all ::
  "'d wdf_os \<Rightarrow> 'd balloon_os \<Rightarrow> 'd balloon_wait \<Rightarrow> balloon_ctx \<Rightarrow> 'd wdf_world
     \<Rightarrow> (balloon_ctx \<times> 'd wdf_world) option" where
  "leak_all os bos wait ctx w =
     (if num_pages ctx = 0 then Some (ctx, w)
      else do {
        ((_, ctx1), w1) \<leftarrow> BalloonLeak os bos wait (ucast (num_pages ctx)) ctx w;
        leak_all os bos wait ctx1 w1
      })"

definition BalloonEvtDeviceD0ExitPreInterruptsDisabled ::
  "'d wdf_os \<Rightarrow> 'd balloon_os \<Rightarrow> 'd balloon_wait \<Rightarrow> bool \<Rightarrow> balloon_ctx
     \<Rightarrow> ('d wdf_world, ntstatus \<times> balloon_ctx) run" where
  "BalloonEvtDeviceD0ExitPreInterruptsDisabled os bos wait d3_final ctx w = do {
     ((_, ctx1), w1) \<leftarrow> lift (BalloonCloseWorkerThread bos ctx) w;
     if d3_final then do {
       (ctx2, w2) \<leftarrow> leak_all os bos wait ctx1 w1;
       (_, w3) \<leftarrow> BalloonSetSize os (ucast (num_pages ctx2)) ctx2 w2;
       Some ((STATUS_SUCCESS, ctx2), w3)
     }
     else Some ((STATUS_SUCCESS, ctx1), w1)
   }"

definition BalloonEvtDeviceSurpriseRemoval :: "balloon_ctx \<Rightarrow> balloon_ctx" where
  "BalloonEvtDeviceSurpriseRemoval ctx = ctx\<lparr>SurpriseRemoval := True, HostAckEvent := True\<rparr>"

subsection \<open>Interrupts\<close>

definition is_buffer :: "(unit option \<times> u32) option \<Rightarrow> bool" where
  "is_buffer r = (case r of Some (Some _, _) \<Rightarrow> True | _ \<Rightarrow> False)"

text \<open>The first statement of the routine that touches a queue fetches one buffer from it.\<close>

definition fetch_one :: "balloon_ctx \<Rightarrow> unit virtqueue_obj option \<Rightarrow> (bool \<times> unit virtqueue_obj) option" where
  "fetch_one ctx q = do {
     vq \<leftarrow> q;
     (r, ring) \<leftarrow> virtqueue_get_buf (ctx_ev ctx) (vqo_ring vq);
     Some (is_buffer r, vq\<lparr>vqo_ring := ring\<rparr>)
   }"

definition BalloonInterruptDpc :: "balloon_ctx \<Rightarrow> balloon_ctx option" where
  "BalloonInterruptDpc ctx = do {
     (a1, inf) \<leftarrow> fetch_one ctx (InfVirtQueue ctx);
     (a2, def) \<leftarrow> fetch_one ctx (DefVirtQueue ctx);
     let ctx1 = ctx\<lparr>InfVirtQueue := Some inf, DefVirtQueue := Some def,
                    HostAckEvent := (HostAckEvent ctx \<or> a1 \<or> a2)\<rparr>;
     ctx2 \<leftarrow> (case StatVirtQueue ctx1 of
                None \<Rightarrow> Some ctx1
              | Some _ \<Rightarrow> do {
                  (buffer, st) \<leftarrow> fetch_one ctx1 (StatVirtQueue ctx1);
                  let ctx2 = ctx1\<lparr>StatVirtQueue := Some st\<rparr>;
                  Some (if buffer then
                          let ctx3 = ctx2\<lparr>WorkCount := WorkCount ctx2 + 1\<rparr>
                          in if WorkCount ctx3 = 1 then ctx3\<lparr>StatWorkItem_queued := True\<rparr> else ctx3
                        else ctx2)
                });
     Some (if Thread ctx2 then ctx2\<lparr>WakeUpThread := True\<rparr> else ctx2)
   }"

text \<open>The result also says whether the deferred routine has been queued.\<close>

definition BalloonInterruptIsr :: "'d wdf_os \<Rightarrow> balloon_ctx \<Rightarrow> ('d wdf_world, bool) state" where
  "BalloonInterruptIsr os ctx = do {
     isr \<leftarrow> VirtIOWdfGetISRStatus (VirtIOWdfSystemOps os) (VDevice ctx);
     State_Monad.return (isr > 0)
   }"

definition enable_queue ::
  "'d wdf_os \<Rightarrow> balloon_ctx \<Rightarrow> unit virtqueue_obj option \<Rightarrow> ('d wdf_world, unit virtqueue_obj) run" where
  "enable_queue os ctx q w = do {
     vq \<leftarrow> q;
     (_, ring) \<leftarrow> virtqueue_enable_cb (ctx_ev ctx) (vqo_ring vq);
     lift (virtqueue_kick (VirtIOWdfSystemOps os) (VIODevice (VDevice ctx)) (vq\<lparr>vqo_ring := ring\<rparr>)) w
   }"

definition EnableInterrupt :: "'d wdf_os \<Rightarrow> balloon_ctx \<Rightarrow> ('d wdf_world, balloon_ctx) run" where
  "EnableInterrupt os ctx w = do {
     (inf, w1) \<leftarrow> enable_queue os ctx (InfVirtQueue ctx) w;
     (def, w2) \<leftarrow> enable_queue os ctx (DefVirtQueue ctx) w1;
     let ctx1 = ctx\<lparr>InfVirtQueue := Some inf, DefVirtQueue := Some def\<rparr>;
     case StatVirtQueue ctx1 of
       None \<Rightarrow> Some (ctx1, w2)
     | Some _ \<Rightarrow> do {
         (st, w3) \<leftarrow> enable_queue os ctx1 (StatVirtQueue ctx1) w2;
         Some (ctx1\<lparr>StatVirtQueue := Some st\<rparr>, w3)
       }
   }"

definition disable_queue :: "balloon_ctx \<Rightarrow> unit virtqueue_obj option \<Rightarrow> unit virtqueue_obj option" where
  "disable_queue ctx q = map_option (\<lambda>vq. vq\<lparr>vqo_ring := virtqueue_disable_cb (ctx_ev ctx) (vqo_ring vq)\<rparr>) q"

definition DisableInterrupt :: "balloon_ctx \<Rightarrow> balloon_ctx option" where
  "DisableInterrupt ctx = do {
     inf \<leftarrow> disable_queue ctx (InfVirtQueue ctx);
     def \<leftarrow> disable_queue ctx (DefVirtQueue ctx);
     Some (ctx\<lparr>InfVirtQueue := Some inf, DefVirtQueue := Some def,
               StatVirtQueue := disable_queue ctx (StatVirtQueue ctx)\<rparr>)
   }"

definition BalloonInterruptEnable ::
  "'d wdf_os \<Rightarrow> balloon_ctx \<Rightarrow> ('d wdf_world, bool \<times> ntstatus \<times> balloon_ctx) run" where
  "BalloonInterruptEnable os ctx w = do {
     (ctx1, w1) \<leftarrow> EnableInterrupt os ctx w;
     (queued, w2) \<leftarrow> lift (BalloonInterruptIsr os ctx1) w1;
     Some ((queued, STATUS_SUCCESS, ctx1), w2)
   }"

definition BalloonInterruptDisable :: "balloon_ctx \<Rightarrow> (ntstatus \<times> balloon_ctx) option" where
  "BalloonInterruptDisable ctx = map_option (Pair STATUS_SUCCESS) (DisableInterrupt ctx)"

subsection \<open>Statistics\<close>

text \<open>A counter: \<open>LowPart\<close> and \<open>HighPart\<close> of a \<open>ULARGE_INTEGER\<close>.\<close>

definition UpdateOverflowFreeCounter :: "u64 \<Rightarrow> u32 \<Rightarrow> u64" where
  "UpdateOverflowFreeCounter ofc v =
     (let LowPart = ucast ofc :: u32;
          HighPart = ucast (drop_bit 32 ofc) :: u32;
          HighPart' = (if v < LowPart then HighPart + 1 else HighPart)
      in push_bit 32 (ucast HighPart') OR ucast v)"

definition update_counter :: "nat \<Rightarrow> u32 \<Rightarrow> u64 list \<Rightarrow> u64 \<times> u64 list" where
  "update_counter i v cs = (let c = UpdateOverflowFreeCounter (cs ! i) v in (c, cs[i := c]))"

definition QUOTA_LIMITS_HARDWS_MIN_ENABLE :: u32 where "QUOTA_LIMITS_HARDWS_MIN_ENABLE = 1"

definition cache_size :: "cache_info \<Rightarrow> u64" where
  "cache_size ci =
     (let minws = push_bit BALLOON_PAGE_SHIFT (MinimumWorkingSet ci)
      in if cache_Flags ci AND QUOTA_LIMITS_HARDWS_MIN_ENABLE \<noteq> 0 \<and> CurrentSize ci > minws
         then CurrentSize ci - minws else CurrentSize ci)"

text \<open>The values of the ten statistics in order, with the counters after the updates.\<close>

definition kernel_stats :: "u32 \<Rightarrow> perf_info \<Rightarrow> cache_info \<Rightarrow> u64 list \<Rightarrow> balloon_stat list \<times> u64 list" where
  "kernel_stats physical p ci cs0 =
     (let (swap_in, cs1) = update_counter 0 (PageReadCount p) cs0;
          (dirty, cs2) = update_counter 1 (DirtyPagesWriteCount p) cs1;
          (mapped, cs3) = update_counter 2 (MappedPagesWriteCount p) cs2;
          (cow, cs4) = update_counter 3 (CopyOnWriteCount p) cs3;
          (trans, cs5) = update_counter 4 (TransitionCount p) cs4;
          (ctrans, cs6) = update_counter 5 (CacheTransitionCount p) cs5;
          (dz, cs7) = update_counter 6 (DemandZeroCount p) cs6;
          (majflt, cs8) = update_counter 0 (PageReadCount p) cs7;
          SoftFaults = cow + trans + ctrans + dz;
          AvailBytes = push_bit BALLOON_PAGE_SHIFT (ucast (AvailablePages p));
          size = cache_size ci;
          vals = [push_bit BALLOON_PAGE_SHIFT swap_in, push_bit BALLOON_PAGE_SHIFT (dirty + mapped), majflt,
                  SoftFaults, AvailBytes, push_bit BALLOON_PAGE_SHIFT (ucast physical),
                  AvailBytes + size div 2, size, 0, 0]
      in (map (\<lambda>i. \<lparr>stat_tag = of_nat i, stat_val = vals ! i\<rparr>) [0..<10], cs8))"

definition GatherKernelStats ::
  "'d balloon_os \<Rightarrow> balloon_ctx \<Rightarrow> ('d wdf_world, ntstatus \<times> balloon_ctx) state" where
  "GatherKernelStats bos ctx = do {
     basic \<leftarrow> on_hw (query_basic bos);
     case basic of
       Inl e \<Rightarrow> State_Monad.return (e, ctx)
     | Inr physical \<Rightarrow> do {
         perf \<leftarrow> on_hw (query_perf bos);
         case perf of
           Inl e \<Rightarrow> State_Monad.return (e, ctx)
         | Inr p \<Rightarrow> do {
             cache \<leftarrow> on_hw (query_cache bos);
             case cache of
               Inl e \<Rightarrow> State_Monad.return (e, ctx)
             | Inr ci \<Rightarrow>
                 (case kernel_stats physical p ci (Counters ctx) of
                    (st, cs) \<Rightarrow> State_Monad.return (STATUS_SUCCESS, ctx\<lparr>stats := st, Counters := cs\<rparr>))
           }
       }
   }"

definition BalloonMemStats :: "'d wdf_os \<Rightarrow> balloon_ctx \<Rightarrow> ('d wdf_world, balloon_ctx) run" where
  "BalloonMemStats os ctx w = do {
     vq \<leftarrow> StatVirtQueue ctx;
     (r, ring, _) \<leftarrow> virtqueue_add_buf (vqo_ring vq) [stat_sg ctx w] 1 0 (Some ()) None 0;
     let (do_notify, ring1) = virtqueue_kick_prepare (ctx_ev ctx) ring;
     let vq1 = vq\<lparr>vqo_ring := ring1\<rparr>;
     (_, w1) \<leftarrow> (if do_notify then lift (virtqueue_notify (VirtIOWdfSystemOps os) vq1) w else Some ((), w));
     Some (ctx\<lparr>StatVirtQueue := Some vq1\<rparr>, w1)
   }"

text \<open>
  The work item: the statistics are pushed until the count of interrupts, decremented after
  each push, is 0.
\<close>

partial_function (option) StatWorkItemWorker ::
  "'d wdf_os \<Rightarrow> 'd balloon_os \<Rightarrow> balloon_ctx \<Rightarrow> 'd wdf_world \<Rightarrow> (balloon_ctx \<times> 'd wdf_world) option" where
  "StatWorkItemWorker os bos ctx w = do {
     ((status, ctx1), w1) \<leftarrow> lift (GatherKernelStats bos ctx) w;
     let ctx2 = (if NT_SUCCESS status then ctx1 else fill_stats_minus_one ctx1);
     (ctx3, w2) \<leftarrow> BalloonMemStats os ctx2 w1;
     let ctx4 = ctx3\<lparr>WorkCount := WorkCount ctx3 - 1\<rparr>;
     if WorkCount ctx4 \<noteq> 0 then StatWorkItemWorker os bos ctx4 w2 else Some (ctx4, w2)
   }"

text \<open>\<open>WdfWorkItemFlush\<close> runs the work item if it is queued.\<close>

definition BalloonEvtDeviceD0Exit ::
  "'d wdf_os \<Rightarrow> 'd balloon_os \<Rightarrow> balloon_ctx \<Rightarrow> ('d wdf_world, ntstatus \<times> balloon_ctx) run" where
  "BalloonEvtDeviceD0Exit os bos ctx0 w = do {
     let ctx = ctx0\<lparr>evLowMem := False\<rparr>;
     (ctx1, w1) \<leftarrow> (if StatWorkItem_queued ctx then StatWorkItemWorker os bos (ctx\<lparr>StatWorkItem_queued := False\<rparr>) w
                    else Some (ctx, w));
     (ctx2, w2) \<leftarrow> BalloonTerm os ctx1 w1;
     Some ((STATUS_SUCCESS, ctx2), w2)
   }"

end
