(* ===== verification/BalloonProofs.thy ===== *)
theory BalloonProofs
  imports BalloonDriver WdfProofs
begin

text \<open>
  Lemmas on the balloon driver: what may happen while the worker waits, the accounting of
  pages over inflating and deflating, the loop that empties the balloon, the way of the
  worker to the size the host asks for, and the statistics counters.
\<close>

subsection \<open>Queues and waiting\<close>

definition q_ok :: "unit virtqueue_obj option \<Rightarrow> bool" where
  "q_ok q \<longleftrightarrow> (\<exists>vq a. q = Some vq \<and> vq_rel (vqo_ring vq) a)"

definition queues_ok :: "balloon_ctx \<Rightarrow> bool" where
  "queues_ok ctx \<longleftrightarrow> q_ok (InfVirtQueue ctx) \<and> q_ok (DefVirtQueue ctx) \<and>
     (StatVirtQueue ctx = None \<or> q_ok (StatVirtQueue ctx))"

definition pages_same :: "balloon_ctx \<Rightarrow> balloon_ctx \<Rightarrow> bool" where
  "pages_same ctx ctx' \<longleftrightarrow>
     PageListHead ctx' = PageListHead ctx \<and> num_pages ctx' = num_pages ctx \<and> num_pfns ctx' = num_pfns ctx \<and>
     pfns_table ctx' = pfns_table ctx \<and> pfns ctx' = pfns ctx \<and> VDevice ctx' = VDevice ctx \<and>
     bShutDown ctx' = bShutDown ctx \<and> Thread ctx' = Thread ctx \<and> evLowMem ctx' = evLowMem ctx"

text \<open>
  What runs while the worker waits: the interrupt routine, a conforming device that returns a
  buffer it holds, and the notification of a surprise removal.
\<close>

inductive activity :: "balloon_ctx \<Rightarrow> balloon_ctx \<Rightarrow> bool" where
  none: "activity ctx ctx"
| dpc: "activity ctx ctx1 \<Longrightarrow> BalloonInterruptDpc ctx1 = Some ctx2 \<Longrightarrow> activity ctx ctx2"
| device_inf:
  "activity ctx ctx1 \<Longrightarrow> InfVirtQueue ctx1 = Some vq \<Longrightarrow> vq_rel (vqo_ring vq) a \<Longrightarrow> a_held a bid \<Longrightarrow>
   activity ctx (ctx1\<lparr>InfVirtQueue := Some (vq\<lparr>vqo_ring := vq_device_use a bid len (vqo_ring vq)\<rparr>)\<rparr>)"
| device_def:
  "activity ctx ctx1 \<Longrightarrow> DefVirtQueue ctx1 = Some vq \<Longrightarrow> vq_rel (vqo_ring vq) a \<Longrightarrow> a_held a bid \<Longrightarrow>
   activity ctx (ctx1\<lparr>DefVirtQueue := Some (vq\<lparr>vqo_ring := vq_device_use a bid len (vqo_ring vq)\<rparr>)\<rparr>)"
| device_stat:
  "activity ctx ctx1 \<Longrightarrow> StatVirtQueue ctx1 = Some vq \<Longrightarrow> vq_rel (vqo_ring vq) a \<Longrightarrow> a_held a bid \<Longrightarrow>
   activity ctx (ctx1\<lparr>StatVirtQueue := Some (vq\<lparr>vqo_ring := vq_device_use a bid len (vqo_ring vq)\<rparr>)\<rparr>)"
| removal: "activity ctx ctx1 \<Longrightarrow> activity ctx (BalloonEvtDeviceSurpriseRemoval ctx1)"

definition wait_ok :: "'d balloon_wait \<Rightarrow> bool" where
  "wait_ok wait \<longleftrightarrow> (\<forall>ctx w. queues_ok ctx \<longrightarrow> activity ctx (fst (wait ctx w)))"

lemma pages_same_refl [simp]: "pages_same ctx ctx"
  by (simp add: pages_same_def)

lemma pages_same_trans: "pages_same a b \<Longrightarrow> pages_same b c \<Longrightarrow> pages_same a c"
  by (simp add: pages_same_def)

lemma fetch_one_ok:
  assumes "q_ok q"
  shows "\<exists>b vq. fetch_one ctx q = Some (b, vq) \<and> q_ok (Some vq)"
proof -
  obtain vq a where q: "q = Some vq" "vq_rel (vqo_ring vq) a" using assms by (auto simp: q_ok_def)
  obtain r ring where "virtqueue_get_buf (ctx_ev ctx) (vqo_ring vq) = Some (r, ring)"
    "vq_rel ring (if r = None then a else a_fetch a)"
    using vq.get_returns [OF q(2), of "ctx_ev ctx"] by auto
  then show ?thesis using q(1) by (auto simp: fetch_one_def q_ok_def)
qed

lemma dpc_ok:
  assumes "queues_ok ctx"
  shows "\<exists>ctx'. BalloonInterruptDpc ctx = Some ctx' \<and> queues_ok ctx' \<and> pages_same ctx ctx'"
proof -
  obtain a1 inf where i: "fetch_one ctx (InfVirtQueue ctx) = Some (a1, inf)" "q_ok (Some inf)"
    using fetch_one_ok [of "InfVirtQueue ctx" ctx] assms by (auto simp: queues_ok_def)
  obtain a2 def where d: "fetch_one ctx (DefVirtQueue ctx) = Some (a2, def)" "q_ok (Some def)"
    using fetch_one_ok [of "DefVirtQueue ctx" ctx] assms by (auto simp: queues_ok_def)
  let ?ctx = "ctx\<lparr>InfVirtQueue := Some inf, DefVirtQueue := Some def, HostAckEvent := (HostAckEvent ctx \<or> a1 \<or> a2)\<rparr>"
  show ?thesis
  proof (cases "StatVirtQueue ctx")
    case None
    then show ?thesis using i d by (simp add: BalloonInterruptDpc_def queues_ok_def pages_same_def Let_def)
  next
    case (Some s)
    then obtain b st where "fetch_one ?ctx (StatVirtQueue ?ctx) = Some (b, st)" "q_ok (Some st)"
      using fetch_one_ok [of "StatVirtQueue ?ctx" ?ctx] assms by (auto simp: queues_ok_def)
    then show ?thesis using i d Some by (simp add: BalloonInterruptDpc_def queues_ok_def pages_same_def Let_def)
  qed
qed

lemma q_ok_use: "vq_rel (vqo_ring vq) a \<Longrightarrow> a_held a bid \<Longrightarrow>
    q_ok (Some (vq\<lparr>vqo_ring := vq_device_use a bid len (vqo_ring vq)\<rparr>))"
  using vq.use_rel [of "vqo_ring vq" a bid len] by (auto simp: q_ok_def)

lemma activity_ok:
  "activity ctx ctx' \<Longrightarrow> queues_ok ctx \<Longrightarrow> queues_ok ctx' \<and> pages_same ctx ctx'"
proof (induction rule: activity.induct)
  case (dpc ctx ctx1 ctx2)
  then show ?case using dpc_ok [of ctx1] pages_same_trans by auto
qed (auto simp: queues_ok_def q_ok_use pages_same_def BalloonEvtDeviceSurpriseRemoval_def)

lemma wait_ack_ok:
  assumes "queues_ok ctx" "wait_ok wait"
  shows "\<exists>st ctx' w'. wait_host_ack wait ctx w = Some ((st, ctx'), w') \<and> queues_ok ctx' \<and> pages_same ctx ctx'"
proof -
  have "queues_ok (fst (wait ctx w)) \<and> pages_same ctx (fst (wait ctx w))"
    using assms activity_ok [of ctx "fst (wait ctx w)"] by (simp add: wait_ok_def)
  then show ?thesis using assms(1)
    by (cases "wait ctx w") (auto simp: wait_host_ack_def queues_ok_def pages_same_def)
qed

lemma set_queue_ok:
  "queues_ok ctx \<Longrightarrow> vq_rel (vqo_ring vq) a \<Longrightarrow> queues_ok (set_queue sel vq ctx)"
  "pages_same ctx (set_queue sel vq ctx)"
  by (cases sel; auto simp: queues_ok_def q_ok_def pages_same_def)+

lemma get_queue_ok: "queues_ok ctx \<Longrightarrow> \<exists>vq a. get_queue sel ctx = Some vq \<and> vq_rel (vqo_ring vq) a"
  by (cases sel) (auto simp: queues_ok_def q_ok_def)

text \<open>One segment is always a valid request: the queue takes it or is full.\<close>

lemma add_one:
  assumes "vq_rel q a"
  shows "\<exists>r q' t a'. virtqueue_add_buf q [sg] 1 0 (Some ()) None 0 = Some (r, q', t) \<and> vq_rel q' a' \<and>
           (r = 0 \<or> r = - ENOSPC)"
  using vq.add_returns [OF assms, of 1 0 "[sg]" None "()" 0] by auto

lemma tell_host_ok:
  assumes q: "queues_ok ctx" and wait: "wait_ok wait"
  shows "\<exists>st ctx' w'. BalloonTellHost os wait sel ctx w = Some ((st, ctx'), w') \<and>
           queues_ok ctx' \<and> pages_same ctx ctx'"
proof (cases "SurpriseRemoval ctx")
  case True
  then show ?thesis using q by (simp add: BalloonTellHost_def)
next
  case False
  obtain vq a where vq: "get_queue sel ctx = Some vq" "vq_rel (vqo_ring vq) a" using get_queue_ok [OF q] by blast
  let ?sg = "\<lparr>physAddr = GetPhysicalAddress (MemoryBlocks w) (pfns_table ctx),
                  sg_length = ucast sizeof_PFN_NUMBER * num_pfns ctx\<rparr>"
  obtain r ring t a' where r: "virtqueue_add_buf (vqo_ring vq) [?sg] 1 0 (Some ()) None 0 = Some (r, ring, t)"
    "vq_rel ring a'" using add_one [OF vq(2)] by blast
  obtain b ring1 where k: "virtqueue_kick_prepare (ctx_ev ctx) ring = (b, ring1)" by fastforce
  have k': "vq_rel ring1 a'" using vq_cb.kick_rel [OF r(2), of "ctx_ev ctx"] k by simp
  show ?thesis
  proof (cases "r < 0")
    case True
    then show ?thesis using False vq r set_queue_ok(1) [OF q, of "vq\<lparr>vqo_ring := ring\<rparr>" a' sel]
      by (simp add: BalloonTellHost_def Let_def set_queue_ok(2))
  next
    case nneg: False
    let ?ctx = "set_queue sel (vq\<lparr>vqo_ring := ring1\<rparr>) ctx"
    let ?w = "if b then snd (run_state (virtqueue_notify (VirtIOWdfSystemOps os) (vq\<lparr>vqo_ring := ring1\<rparr>)) w) else w"
    have q': "queues_ok ?ctx" using set_queue_ok(1) [OF q, of "vq\<lparr>vqo_ring := ring1\<rparr>" a' sel] k' by simp
    have "BalloonTellHost os wait sel ctx w = wait_host_ack wait ?ctx ?w"
      using False nneg vq r k by (simp add: BalloonTellHost_def Let_def split: prod.splits)
    then show ?thesis using wait_ack_ok [OF q' wait, of ?w] pages_same_trans [OF set_queue_ok(2)] by fastforce
  qed
qed


subsection \<open>Accounting of pages\<close>

definition mdl_pages :: "mdl \<Rightarrow> nat" where
  "mdl_pages m = unat (mdl_byte_count m) div 4096"

definition mdl_ok :: "mdl \<Rightarrow> bool" where
  "mdl_ok m \<longleftrightarrow> unat (mdl_byte_count m) = 4096 * mdl_pages m \<and> 1 \<le> mdl_pages m \<and> mdl_pages m \<le> 512 \<and>
     mdl_pages m \<le> length (mdl_pfns m)"

definition balloon_pages_ok :: "balloon_ctx \<Rightarrow> bool" where
  "balloon_pages_ok ctx \<longleftrightarrow> list_all mdl_ok (PageListHead ctx) \<and>
     unat (num_pages ctx) = sum_list (map mdl_pages (PageListHead ctx)) \<and> length (pfns ctx) = 512"

text \<open>The page frame array of a descriptor list covers its bytes.\<close>

definition alloc_contract :: "'d balloon_os \<Rightarrow> bool" where
  "alloc_contract bos \<longleftrightarrow>
     (\<forall>n d m d'. run_state (MmAllocatePages bos n) d = (Some m, d') \<longrightarrow>
        unat (mdl_byte_count m) \<le> 4096 * length (mdl_pfns m))"

text \<open>Memory is plentiful: no low-memory event, and every request for up to 2 MB is served in full.\<close>

definition plentiful :: "'d balloon_os \<Rightarrow> bool" where
  "plentiful bos \<longleftrightarrow>
     (\<forall>d. \<not> fst (run_state (low_memory_signalled bos) d) \<and> fst (run_state (lookaside_alloc bos) d)) \<and>
     (\<forall>n d. unat n \<le> 2 ^ 21 \<longrightarrow>
        (\<exists>m d'. run_state (MmAllocatePages bos n) d = (Some m, d') \<and> ucast (mdl_byte_count m) = n))"

text \<open>What inflating and deflating leave alone.\<close>

definition ctx_frame :: "balloon_ctx \<Rightarrow> balloon_ctx \<Rightarrow> bool" where
  "ctx_frame ctx ctx' \<longleftrightarrow> VDevice ctx' = VDevice ctx \<and> pfns_table ctx' = pfns_table ctx \<and>
     bShutDown ctx' = bShutDown ctx \<and> Thread ctx' = Thread ctx \<and> evLowMem ctx' = evLowMem ctx"

lemma ctx_frame_refl [simp]: "ctx_frame ctx ctx"
  by (simp add: ctx_frame_def)

lemma ctx_frame_trans: "ctx_frame a b \<Longrightarrow> ctx_frame b c \<Longrightarrow> ctx_frame a c"
  by (simp add: ctx_frame_def)

lemma balloon_pages_ok_same: "pages_same ctx ctx' \<Longrightarrow> balloon_pages_ok ctx \<Longrightarrow> balloon_pages_ok ctx'"
  by (simp add: pages_same_def balloon_pages_ok_def)

text \<open>Telling the host from a context with changed page data.\<close>

lemma tell_host_pages:
  assumes "queues_ok ctx" "wait_ok wait" "queues_ok ctx1 = queues_ok ctx" "balloon_pages_ok ctx1" "ctx_frame ctx ctx1"
  shows "\<exists>st ctx' w'. BalloonTellHost os wait sel ctx1 w = Some ((st, ctx'), w') \<and>
           queues_ok ctx' \<and> balloon_pages_ok ctx' \<and> ctx_frame ctx ctx' \<and>
           PageListHead ctx' = PageListHead ctx1 \<and> num_pages ctx' = num_pages ctx1"
proof -
  obtain st ctx' w' where "BalloonTellHost os wait sel ctx1 w = Some ((st, ctx'), w')" "queues_ok ctx'"
    "pages_same ctx1 ctx'"
    using tell_host_ok [OF _ assms(2), of ctx1 os sel w] assms(1,3) by auto
  then show ?thesis using balloon_pages_ok_same [of ctx1 ctx'] assms(4,5) by (auto simp: pages_same_def ctx_frame_def)
qed

lemma copy_pfns_length: "copy_pfns t n s = Some t' \<Longrightarrow> length t' = length t"
  by (auto simp: copy_pfns_def split: if_splits)

text \<open>The request is at most the 512 page frames the table has room for.\<close>

lemma min_request:
  fixes num :: u64
  shows "unat (min num (BALLOON_PAGE_SIZE div sizeof_PFN_NUMBER)) = min (unat num) 512"
    "unat (min num (BALLOON_PAGE_SIZE div sizeof_PFN_NUMBER) * BALLOON_PAGE_SIZE) = min (unat num) 512 * 4096"
proof -
  show m: "unat (min num (BALLOON_PAGE_SIZE div sizeof_PFN_NUMBER)) = min (unat num) 512"
    by (simp add: BALLOON_PAGE_SIZE_def sizeof_PFN_NUMBER_def min_def word_le_nat_alt)
  have "min (unat num) 512 * 4096 < 2 ^ 64" by (simp add: min_def)
  then show "unat (min num (BALLOON_PAGE_SIZE div sizeof_PFN_NUMBER) * BALLOON_PAGE_SIZE) = min (unat num) 512 * 4096"
    unfolding unat_word_ariths m by (simp add: BALLOON_PAGE_SIZE_def)
qed

lemma fill_push:
  assumes ok: "balloon_pages_ok ctx" and num: "0 < unat num0" "unat (num_pages ctx) + unat num0 < 2 ^ 32"
    and bytes: "ucast (mdl_byte_count m) = min num0 (BALLOON_PAGE_SIZE div sizeof_PFN_NUMBER) * BALLOON_PAGE_SIZE"
    and len: "unat (mdl_byte_count m) \<le> 4096 * length (mdl_pfns m)"
    and n: "n = ucast (min num0 (BALLOON_PAGE_SIZE div sizeof_PFN_NUMBER))"
  shows "\<exists>t. copy_pfns (pfns ctx) (unat n) (mdl_pfns m) = Some t \<and>
     balloon_pages_ok (ctx\<lparr>PageListHead := m # PageListHead ctx, num_pfns := x, num_pages := num_pages ctx + n, pfns := t\<rparr>) \<and>
     unat (num_pages ctx + n) = unat (num_pages ctx) + min (unat num0) 512"
proof -
  let ?k = "min (unat num0) 512"
  have "unat (ucast (mdl_byte_count m) :: u64) = ?k * 4096" unfolding bytes by (rule min_request(2))
  then have b: "unat (mdl_byte_count m) = 4096 * ?k" by simp
  then have p: "mdl_pages m = ?k" by (simp add: mdl_pages_def)
  have "unat n = unat (min num0 (BALLOON_PAGE_SIZE div sizeof_PFN_NUMBER)) mod 2 ^ 32"
    unfolding n by (simp add: unsigned_ucast_eq take_bit_eq_mod)
  then have un: "unat n = ?k" unfolding min_request by (simp add: min_def)
  then have sum: "unat (num_pages ctx + n) = unat (num_pages ctx) + ?k"
    using num by (subst unat_plus_small) auto
  have m: "mdl_ok m" using b p num len by (simp add: mdl_ok_def)
  have "copy_pfns (pfns ctx) (unat n) (mdl_pfns m) = Some (take ?k (mdl_pfns m) @ drop ?k (pfns ctx))"
    using ok m p un by (simp add: copy_pfns_def balloon_pages_ok_def mdl_ok_def)
  moreover have "length (take ?k (mdl_pfns m) @ drop ?k (pfns ctx)) = 512"
    using ok m p by (auto simp: balloon_pages_ok_def mdl_ok_def)
  ultimately show ?thesis using ok m p sum by (simp add: balloon_pages_ok_def)
qed

lemma fill_ok:
  assumes q: "queues_ok ctx" and ok: "balloon_pages_ok ctx" and wait: "wait_ok wait" and alloc: "alloc_contract bos"
    and num: "0 < unat num0" "unat (num_pages ctx) + unat num0 < 2 ^ 32"
  shows "\<exists>st ctx' w'. BalloonFill os bos wait num0 ctx w = Some ((st, ctx'), w') \<and>
     queues_ok ctx' \<and> balloon_pages_ok ctx' \<and> ctx_frame ctx ctx' \<and>
     (\<not> plentiful bos \<and> PageListHead ctx' = PageListHead ctx \<and> num_pages ctx' = num_pages ctx \<or>
      tl (PageListHead ctx') = PageListHead ctx \<and> PageListHead ctx' \<noteq> [] \<and>
      unat (num_pages ctx') = unat (num_pages ctx) + min (unat num0) 512)"
proof -
  let ?ctx = "ctx\<lparr>num_pfns := 0\<rparr>"
  let ?n = "min num0 (BALLOON_PAGE_SIZE div sizeof_PFN_NUMBER)"
  have same: "queues_ok ?ctx" "balloon_pages_ok ?ctx" "ctx_frame ctx ?ctx"
    using q ok by (auto simp: queues_ok_def balloon_pages_ok_def ctx_frame_def)
  obtain low w1 where 1: "run_state (IsLowMemory bos ?ctx) w = (low, w1)" by fastforce
  obtain r w2 where 2: "run_state (on_hw (MmAllocatePages bos (?n * BALLOON_PAGE_SIZE))) w1 = (r, w2)" by fastforce
  obtain entry w3 where 3: "run_state (on_hw (lookaside_alloc bos)) w2 = (entry, w3)" by fastforce
  show ?thesis
  proof (cases "low \<or> r = None \<or> (\<exists>m. r = Some m \<and> (ucast (mdl_byte_count m) \<noteq> ?n * BALLOON_PAGE_SIZE \<or> \<not> entry))")
    case True
    have "unat (?n * BALLOON_PAGE_SIZE) \<le> 2 ^ 21" unfolding min_request by (simp add: min_def)
    then have "\<exists>m d'. run_state (MmAllocatePages bos (?n * BALLOON_PAGE_SIZE)) (hw w1) = (Some m, d') \<and>
        ucast (mdl_byte_count m) = ?n * BALLOON_PAGE_SIZE" if "plentiful bos"
      using that unfolding plentiful_def by blast
    moreover have "\<not> low" "entry" if "plentiful bos"
      using that 1 3 by (auto simp: plentiful_def IsLowMemory_def split: if_splits)
    ultimately have "\<not> plentiful bos" using True 2 by auto
    then show ?thesis using True 1 2 3 same by (auto simp: BalloonFill_def Let_def split: option.splits)
  next
    case False
    then obtain m where m: "\<not> low" "r = Some m" "ucast (mdl_byte_count m) = ?n * BALLOON_PAGE_SIZE" entry by auto
    have "unat (mdl_byte_count m) \<le> 4096 * length (mdl_pfns m)"
      using 2 m(2) alloc by (cases "run_state (MmAllocatePages bos (?n * BALLOON_PAGE_SIZE)) (hw w1)")
        (auto simp: alloc_contract_def)
    from fill_push [OF ok num m(3) this refl, of "ucast ?n"]
    obtain t where t: "copy_pfns (pfns ctx) (unat (ucast ?n :: u32)) (mdl_pfns m) = Some t"
      "balloon_pages_ok (ctx\<lparr>PageListHead := m # PageListHead ctx, num_pfns := ucast ?n,
         num_pages := num_pages ctx + ucast ?n, pfns := t\<rparr>)"
      "unat (num_pages ctx + ucast ?n) = unat (num_pages ctx) + min (unat num0) 512" by blast
    let ?ctx1 = "ctx\<lparr>PageListHead := m # PageListHead ctx, num_pfns := ucast ?n,
         num_pages := num_pages ctx + ucast ?n, pfns := t\<rparr>"
    have "BalloonFill os bos wait num0 ctx w = BalloonTellHost os wait Inflate ?ctx1 w3"
      using 1 2 3 m t(1) by (simp add: BalloonFill_def Let_def del: run_on_hw)
    moreover have "queues_ok ?ctx1 = queues_ok ctx" "ctx_frame ctx ?ctx1" by (simp_all add: queues_ok_def ctx_frame_def)
    ultimately show ?thesis using tell_host_pages [OF q wait _ t(2), of os Inflate w3] t(3) by fastforce
  qed
qed

lemma leak_ok:
  assumes q: "queues_ok ctx" and ok: "balloon_pages_ok ctx" and wait: "wait_ok wait"
  shows "\<exists>st ctx' w'. BalloonLeak os bos wait num0 ctx w = Some ((st, ctx'), w') \<and>
     queues_ok ctx' \<and> balloon_pages_ok ctx' \<and> ctx_frame ctx ctx' \<and> PageListHead ctx' = tl (PageListHead ctx) \<and>
     unat (num_pages ctx') = unat (num_pages ctx) - (case PageListHead ctx of [] \<Rightarrow> 0 | m # _ \<Rightarrow> mdl_pages m)"
proof (cases "PageListHead ctx")
  case Nil
  then show ?thesis using q ok by (simp add: BalloonLeak_def)
next
  case (Cons m ms)
  define n where "n = (ucast (ucast (mdl_byte_count m) div BALLOON_PAGE_SIZE :: u64) :: u32)"
  have m: "mdl_ok m" using ok Cons by (simp add: balloon_pages_ok_def)
  have un: "unat n = mdl_pages m"
    using m by (simp add: n_def mdl_ok_def mdl_pages_def unsigned_ucast_eq take_bit_eq_mod unat_div BALLOON_PAGE_SIZE_def)
  have sum: "unat (num_pages ctx) = mdl_pages m + sum_list (map mdl_pages ms)"
    using ok Cons by (simp add: balloon_pages_ok_def)
  then have sub: "unat (num_pages ctx - n) = unat (num_pages ctx) - mdl_pages m"
    using un by (subst unat_minus_le) (auto simp: word_le_nat_alt)
  obtain t where t: "copy_pfns (pfns ctx) (unat n) (mdl_pfns m) = Some t"
    using ok m un by (simp add: copy_pfns_def balloon_pages_ok_def mdl_ok_def)
  let ?ctx1 = "ctx\<lparr>PageListHead := ms, num_pfns := n, num_pages := num_pages ctx - n, pfns := t\<rparr>"
  have "balloon_pages_ok ?ctx1" using ok Cons sum sub copy_pfns_length [OF t] by (simp add: balloon_pages_ok_def)
  moreover have "queues_ok ?ctx1 = queues_ok ctx" "ctx_frame ctx ?ctx1" by (simp_all add: queues_ok_def ctx_frame_def)
  moreover have "BalloonLeak os bos wait num0 ctx w =
      BalloonTellHost os wait Deflate ?ctx1 (snd (run_state (on_hw (MmFreePages bos m)) w))"
    using Cons t by (simp add: BalloonLeak_def Let_def n_def split: prod.splits)
  ultimately show ?thesis
    using tell_host_pages [OF q wait, of ?ctx1 os Deflate "snd (run_state (on_hw (MmFreePages bos m)) w)"] Cons sub
    by fastforce
qed

subsection \<open>Emptying the balloon\<close>

lemma leak_all_ok:
  assumes "queues_ok ctx" "balloon_pages_ok ctx" "wait_ok wait"
  shows "\<exists>ctx' w'. leak_all os bos wait ctx w = Some (ctx', w') \<and> queues_ok ctx' \<and> balloon_pages_ok ctx' \<and>
     ctx_frame ctx ctx' \<and> PageListHead ctx' = [] \<and> num_pages ctx' = 0"
  using assms
proof (induction "length (PageListHead ctx)" arbitrary: ctx w)
  case 0
  then have "num_pages ctx = 0" by (simp add: balloon_pages_ok_def unat_eq_0)
  then show ?case using 0 by (subst leak_all.simps) simp
next
  case (Suc k)
  then obtain m ms where l: "PageListHead ctx = m # ms" by (cases "PageListHead ctx") auto
  have "num_pages ctx \<noteq> 0" using Suc.prems(2) l by (auto simp: balloon_pages_ok_def mdl_ok_def)
  moreover obtain st ctx1 w1 where 1: "BalloonLeak os bos wait (ucast (num_pages ctx)) ctx w = Some ((st, ctx1), w1)"
    "queues_ok ctx1" "balloon_pages_ok ctx1" "ctx_frame ctx ctx1" "PageListHead ctx1 = ms"
    using leak_ok [OF Suc.prems, of os bos "ucast (num_pages ctx)" w] l by auto
  moreover have "k = length (PageListHead ctx1)" using Suc.hyps(2) 1(5) l by simp
  ultimately show ?case using Suc.hyps(1) [OF _ 1(2,3) Suc.prems(3), of w1] ctx_frame_trans [OF 1(4)]
    by (subst leak_all.simps) auto
qed

subsection \<open>The worker\<close>

lemma legacy_read_length: "length (fst (run_state (legacy_read_bytes ops k a) w)) = k"
  by (induction k arbitrary: a w) (simp_all add: split_beta)

lemma get_size_returns:
  assumes "device (VIODevice (VDevice ctx)) \<noteq> NoDevice" "length garbage = 4"
  shows "\<exists>v w1. BalloonGetSize os garbage ctx w = Some (uint (v :: u32) - uint (num_pages ctx), w1)"
proof -
  let ?ops = "VirtIOWdfSystemOps os" and ?dev = "VIODevice (VDevice ctx)"
  obtain r w1 where r: "dev_get_config ?ops ?dev CONFIG_num_pages 4 w = Some (r, w1)"
    "r = None \<or> (\<exists>bs. r = Some bs \<and> length bs = 4)"
  proof (cases "device ?dev")
    case ModernDevice
    then show ?thesis
      by (intro that [of "fst (run_state (vio_modern_get_config ?ops ?dev CONFIG_num_pages 4) w)"
            "snd (run_state (vio_modern_get_config ?ops ?dev CONFIG_num_pages 4) w)"])
        (auto simp: dev_get_config_def dispatch_def lift_def vio_modern_get_config_def bytes_of_u32_def split: prod.splits)
  next
    case LegacyDevice
    then show ?thesis
      by (intro that [of "fst (run_state (vio_legacy_get_config ?ops ?dev CONFIG_num_pages 4) w)"
            "snd (run_state (vio_legacy_get_config ?ops ?dev CONFIG_num_pages 4) w)"])
        (auto simp: dev_get_config_def dispatch_def lift_def vio_legacy_get_config_def split: prod.splits
          dest: arg_cong [where f = "length \<circ> fst"] simp: legacy_read_length)
  qed (use assms in simp)
  then obtain bs where "buf_write garbage 0 r = Some bs" using assms(2) by (auto simp: buf_write_def)
  then show ?thesis using r(1)
    by (auto simp: BalloonGetSize_def VirtIOWdfDeviceGet_def virtio_get_config_def)
qed

lemma set_size_returns:
  assumes "device (VIODevice (VDevice ctx)) \<noteq> NoDevice"
  shows "\<exists>w1. BalloonSetSize os num ctx w = Some ((), w1)"
  using assms by (cases "device (VIODevice (VDevice ctx))")
    (auto simp: BalloonSetSize_def VirtIOWdfDeviceSet_def virtio_set_config_def dev_set_config_def dispatch_def lift_def)

lemma uint_less_unat: "uint a < uint b \<longleftrightarrow> unat a < unat b" for a b :: u32
  by (simp only: unat_eq_nat_uint nat_less_eq_zless unsigned_greater_eq)

lemma word_of_diff:
  fixes v n :: u32
  assumes "uint v > uint n"
  shows "unat (word_of_int (uint v - uint n) :: u64) = unat v - unat n"
proof -
  have "uint v < 4294967296" "0 \<le> uint n" using uint_bounded [of v] by simp_all
  then have "uint v - uint n < 18446744073709551616" by linarith
  then have "uint (word_of_int (uint v - uint n) :: u64) = uint v - uint n"
    using assms by (subst uint_word_of_int) (simp add: mod_pos_pos_trivial)
  then show ?thesis using assms by (simp only: unat_eq_nat_uint nat_diff_distrib unsigned_greater_eq less_imp_le)
qed

text \<open>One wake-up, for the size \<open>v\<close> the host asks for at that moment.\<close>

lemma body_ok:
  fixes v :: u32
  assumes q: "queues_ok ctx" and ok: "balloon_pages_ok ctx" and wait: "wait_ok wait" and alloc: "alloc_contract bos"
    and dev: "device (VIODevice (VDevice ctx)) \<noteq> NoDevice" and run: "\<not> bShutDown ctx"
    and size: "BalloonGetSize os garbage ctx w = Some (uint v - uint (num_pages ctx), w1)"
  shows "\<exists>ctx' w'. BalloonRoutine_body os bos wait garbage ctx w = Some ((False, ctx'), w') \<and>
     queues_ok ctx' \<and> balloon_pages_ok ctx' \<and> ctx_frame ctx ctx' \<and>
     unat (num_pages ctx') \<le> max (unat v) (unat (num_pages ctx)) \<and>
     (unat v < unat (num_pages ctx) \<longrightarrow> PageListHead ctx' = tl (PageListHead ctx)) \<and>
     (unat v = unat (num_pages ctx) \<longrightarrow> num_pages ctx' = num_pages ctx) \<and>
     (unat (num_pages ctx) < unat v \<longrightarrow> plentiful bos \<longrightarrow>
        unat (num_pages ctx') = unat (num_pages ctx) + min (unat v - unat (num_pages ctx)) 512)"
proof -
  let ?diff = "uint v - uint (num_pages ctx)"
  have cmp: "?diff > 0 \<longleftrightarrow> unat (num_pages ctx) < unat v" "?diff < 0 \<longleftrightarrow> unat v < unat (num_pages ctx)"
    by (simp_all add: uint_less_unat)
  let ?step = "if ?diff > 0 then BalloonFill os bos wait (word_of_int ?diff) ctx w1
           else if ?diff < 0 then BalloonLeak os bos wait (word_of_int (- ?diff)) ctx w1
           else Some ((STATUS_SUCCESS, ctx), w1)"
  have "\<exists>st ctx1 w2. ?step = Some ((st, ctx1), w2) \<and> queues_ok ctx1 \<and> balloon_pages_ok ctx1 \<and> ctx_frame ctx ctx1 \<and>
     unat (num_pages ctx1) \<le> max (unat v) (unat (num_pages ctx)) \<and>
     (unat v < unat (num_pages ctx) \<longrightarrow> PageListHead ctx1 = tl (PageListHead ctx)) \<and>
     (unat v = unat (num_pages ctx) \<longrightarrow> num_pages ctx1 = num_pages ctx) \<and>
     (unat (num_pages ctx) < unat v \<longrightarrow> plentiful bos \<longrightarrow>
        unat (num_pages ctx1) = unat (num_pages ctx) + min (unat v - unat (num_pages ctx)) 512)"
  proof (cases "?diff > 0")
    case True
    then have n: "unat (word_of_int ?diff :: u64) = unat v - unat (num_pages ctx)" by (intro word_of_diff) simp
    have "unat v < 2 ^ 32" by (rule unat_lt_32)
    then show ?thesis using True cmp fill_ok [OF q ok wait alloc, of "word_of_int ?diff" os w1] n by fastforce
  next
    case False
    then show ?thesis using cmp leak_ok [OF q ok wait, of os bos "word_of_int (- ?diff)" w1] q ok
      by (cases "?diff < 0") (force, simp)
  qed
  then obtain st ctx1 w2 where s: "?step = Some ((st, ctx1), w2)" and
    f: "queues_ok ctx1" "balloon_pages_ok ctx1" "ctx_frame ctx ctx1"
     "unat (num_pages ctx1) \<le> max (unat v) (unat (num_pages ctx))"
     "unat v < unat (num_pages ctx) \<longrightarrow> PageListHead ctx1 = tl (PageListHead ctx)"
     "unat v = unat (num_pages ctx) \<longrightarrow> num_pages ctx1 = num_pages ctx"
     "unat (num_pages ctx) < unat v \<longrightarrow> plentiful bos \<longrightarrow>
        unat (num_pages ctx1) = unat (num_pages ctx) + min (unat v - unat (num_pages ctx)) 512"
    by (elim exE conjE)
  define ctx2 where "ctx2 = (if (st = STATUS_TIMEOUT \<or> st = STATUS_NO_MORE_ENTRIES) \<and> ?diff \<noteq> 0
                    then ctx1\<lparr>WakeUpThread := True\<rparr> else ctx1)"
  have same: "queues_ok ctx2 = queues_ok ctx1" "balloon_pages_ok ctx2 = balloon_pages_ok ctx1" "ctx_frame ctx ctx2 = ctx_frame ctx ctx1"
    "PageListHead ctx2 = PageListHead ctx1" "num_pages ctx2 = num_pages ctx1" "VDevice ctx2 = VDevice ctx1"
    by (simp_all add: queues_ok_def balloon_pages_ok_def ctx_frame_def ctx2_def)
  then have "device (VIODevice (VDevice ctx2)) \<noteq> NoDevice" using dev f(3) by (simp add: ctx_frame_def)
  then obtain w3 where w3: "BalloonSetSize os (ucast (num_pages ctx2)) ctx2 w2 = Some ((), w3)"
    using set_size_returns by blast
  have "BalloonRoutine_body os bos wait garbage ctx w = Some ((False, ctx2), w3)"
    unfolding BalloonRoutine_body_def
    by (simp only: run size s w3 bind.simps prod.case Let_def if_False option.case ctx2_def [symmetric])
  then show ?thesis using f same by (intro exI [of _ ctx2] exI [of _ w3]) simp
qed

text \<open>How many wake-ups the worker needs at most for the size \<open>v\<close>.\<close>

definition balloon_distance :: "nat \<Rightarrow> balloon_ctx \<Rightarrow> nat" where
  "balloon_distance v ctx =
     (if unat (num_pages ctx) > v then length (PageListHead ctx) + v div 512 + 1
      else (v - unat (num_pages ctx) + 511) div 512)"

lemma balloon_distance_0: "balloon_distance v ctx = 0 \<longleftrightarrow> unat (num_pages ctx) = v"
  by (auto simp: balloon_distance_def)

lemma balloon_distance_le: "balloon_distance v ctx \<le> length (PageListHead ctx) + v div 512 + 1"
proof -
  have "(v - unat (num_pages ctx) + 511) div 512 \<le> (v + 511) div 512" by (intro div_le_mono) simp
  moreover have "(v + 511) div 512 \<le> v div 512 + 1" by simp
  ultimately show ?thesis unfolding balloon_distance_def
    by (split if_split, intro conjI impI; linarith)
qed

lemma balloon_distance_step:
  assumes ok: "balloon_pages_ok ctx" "balloon_pages_ok ctx'" and ne: "unat (num_pages ctx) \<noteq> v"
    and leak: "v < unat (num_pages ctx) \<longrightarrow> PageListHead ctx' = tl (PageListHead ctx)"
    and fill: "unat (num_pages ctx) < v \<longrightarrow>
        unat (num_pages ctx') = unat (num_pages ctx) + min (v - unat (num_pages ctx)) 512"
  shows "balloon_distance v ctx' < balloon_distance v ctx"
proof (cases "v < unat (num_pages ctx)")
  case True
  then have "PageListHead ctx \<noteq> []" using ok(1) by (auto simp: balloon_pages_ok_def)
  then have l: "length (PageListHead ctx') < length (PageListHead ctx)" using leak True by simp
  have "(v - unat (num_pages ctx') + 511) div 512 \<le> (v + 511) div 512" by (intro div_le_mono) simp
  then show ?thesis using True l by (auto simp: balloon_distance_def)
next
  case False
  then show ?thesis using ne fill by (auto simp: balloon_distance_def min_def)
qed

text \<open>Every wait for the next wake-up ends: an interrupt arrives.\<close>

definition wakes :: "'d balloon_wait \<Rightarrow> bool" where
  "wakes idle \<longleftrightarrow> wait_ok idle \<and>
     (\<forall>ctx w. queues_ok ctx \<and> Thread ctx \<longrightarrow> WakeUpThread (fst (idle ctx w)))"

definition reads_size :: "'d wdf_os \<Rightarrow> u8 list \<Rightarrow> unit wdf_driver \<Rightarrow> u32 \<Rightarrow> bool" where
  "reads_size os garbage drv v \<longleftrightarrow>
     (\<forall>w. \<exists>w1. VirtIOWdfDeviceGet (VirtIOWdfSystemOps os) drv CONFIG_num_pages garbage 4 w = Some (bytes_of_u32 v, w1))"

lemma idle_ok:
  assumes "queues_ok ctx" "wakes idle" "Thread ctx"
  shows "\<exists>ctx1 w1. (if WakeUpThread ctx then (ctx, w) else idle ctx w) = (ctx1, w1) \<and>
    WakeUpThread ctx1 \<and> queues_ok ctx1 \<and> pages_same ctx ctx1"
proof -
  have "activity ctx (fst (idle ctx w))" "WakeUpThread (fst (idle ctx w))"
    using assms by (auto simp: wakes_def wait_ok_def)
  then show ?thesis using activity_ok [of ctx "fst (idle ctx w)"] assms(1) by (cases "idle ctx w") auto
qed

text \<open>The state the worker runs in.\<close>

definition worker_ok :: "balloon_ctx \<Rightarrow> bool" where
  "worker_ok ctx \<longleftrightarrow> queues_ok ctx \<and> balloon_pages_ok ctx \<and> Thread ctx \<and> \<not> bShutDown ctx \<and>
     device (VIODevice (VDevice ctx)) \<noteq> NoDevice"

lemma worker_wake:
  assumes ok: "worker_ok ctx" and wait: "wait_ok wait" "wakes idle" and alloc: "alloc_contract bos"
    and garbage: "length garbage = 4"
  shows "\<exists>v ctx' w'.
    (\<forall>k. BalloonRoutine os bos wait idle garbage (Suc k) ctx w = BalloonRoutine os bos wait idle garbage k ctx' w') \<and>
    worker_ok ctx' \<and> VDevice ctx' = VDevice ctx \<and> unat (num_pages ctx') \<le> max (unat v) (unat (num_pages ctx)) \<and>
    (\<forall>u. reads_size os garbage (VDevice ctx) u \<longrightarrow> v = u) \<and>
    (plentiful bos \<longrightarrow> unat (num_pages ctx) \<noteq> unat v \<longrightarrow>
       balloon_distance (unat v) ctx' < balloon_distance (unat v) ctx) \<and>
    (unat (num_pages ctx) = unat v \<longrightarrow> num_pages ctx' = num_pages ctx)"
proof -
  have 0: "queues_ok ctx" "balloon_pages_ok ctx" "Thread ctx" "\<not> bShutDown ctx" "device (VIODevice (VDevice ctx)) \<noteq> NoDevice"
    using ok by (simp_all add: worker_ok_def)
  obtain ctx1 w1 where i: "(if WakeUpThread ctx then (ctx, w) else idle ctx w) = (ctx1, w1)" "WakeUpThread ctx1"
    "queues_ok ctx1" "pages_same ctx ctx1"
    using idle_ok [OF 0(1) wait(2) 0(3), of w] by blast
  define c where "c = ctx1\<lparr>WakeUpThread := False\<rparr>"
  have c: "queues_ok c" "balloon_pages_ok c" "Thread c" "\<not> bShutDown c" "VDevice c = VDevice ctx"
    "num_pages c = num_pages ctx" "PageListHead c = PageListHead ctx"
    using i(3,4) 0 balloon_pages_ok_same [OF i(4) 0(2)] by (auto simp: c_def queues_ok_def balloon_pages_ok_def pages_same_def)
  have dev: "device (VIODevice (VDevice c)) \<noteq> NoDevice" using 0(5) c(5) by simp
  obtain v w2 where v: "BalloonGetSize os garbage c w1 = Some (uint (v :: u32) - uint (num_pages c), w2)"
    using get_size_returns [OF dev garbage] by blast
  obtain ctx' w' where b: "BalloonRoutine_body os bos wait garbage c w1 = Some ((False, ctx'), w')"
    "queues_ok ctx'" "balloon_pages_ok ctx'" "ctx_frame c ctx'"
    "unat (num_pages ctx') \<le> max (unat v) (unat (num_pages c))"
    "unat v < unat (num_pages c) \<longrightarrow> PageListHead ctx' = tl (PageListHead c)"
    "unat v = unat (num_pages c) \<longrightarrow> num_pages ctx' = num_pages c"
    "unat (num_pages c) < unat v \<longrightarrow> plentiful bos \<longrightarrow>
        unat (num_pages ctx') = unat (num_pages c) + min (unat v - unat (num_pages c)) 512"
    using body_ok [OF c(1,2) wait(1) alloc dev c(4) v] by (elim exE conjE)
  have "BalloonRoutine os bos wait idle garbage (Suc k) ctx w = BalloonRoutine os bos wait idle garbage k ctx' w'" for k
    using i(1,2) b(1) by (simp add: c_def)
  moreover have "worker_ok ctx'" "VDevice ctx' = VDevice ctx" using b c dev by (auto simp: worker_ok_def ctx_frame_def)
  moreover have "v = u" if "reads_size os garbage (VDevice ctx) u" for u
  proof -
    obtain w3 where "VirtIOWdfDeviceGet (VirtIOWdfSystemOps os) (VDevice ctx) CONFIG_num_pages garbage 4 w1 =
        Some (bytes_of_u32 u, w3)" using \<open>reads_size os garbage (VDevice ctx) u\<close> unfolding reads_size_def by blast
    then show ?thesis using v c(5) by (intro word_uint_eqI) (simp add: BalloonGetSize_def le_u32_roundtrip)
  qed
  moreover have "balloon_distance (unat v) ctx' < balloon_distance (unat v) ctx"
    if "plentiful bos" "unat (num_pages ctx) \<noteq> unat v"
    by (rule balloon_distance_step [OF 0(2) b(3)]) (use that b(6,8) c(6,7) in auto)
  ultimately show ?thesis using b(5,7) c(6) by (intro exI [of _ v] exI [of _ ctx'] exI [of _ w']) simp
qed

lemma routine_ok:
  assumes "worker_ok ctx" "wait_ok wait" "wakes idle" "alloc_contract bos" "length garbage = 4"
  shows "\<exists>ctx' w'. BalloonRoutine os bos wait idle garbage k ctx w = Some ((False, ctx'), w') \<and>
     worker_ok ctx' \<and> VDevice ctx' = VDevice ctx"
  using assms(1)
proof (induction k arbitrary: ctx w)
  case (Suc k)
  obtain v ctx1 w1 where "\<forall>k. BalloonRoutine os bos wait idle garbage (Suc k) ctx w = BalloonRoutine os bos wait idle garbage k ctx1 w1"
    "worker_ok ctx1" "VDevice ctx1 = VDevice ctx"
    using worker_wake [OF Suc.prems assms(2-5), of os w] by (elim exE conjE)
  then show ?case using Suc.IH [of ctx1 w1] by simp
qed simp

lemma routine_reaches:
  assumes "worker_ok ctx" "wait_ok wait" "wakes idle" "alloc_contract bos" "length garbage = 4"
    and "plentiful bos" "reads_size os garbage (VDevice ctx) v" "balloon_distance (unat v) ctx \<le> k"
  shows "\<exists>ctx' w'. BalloonRoutine os bos wait idle garbage k ctx w = Some ((False, ctx'), w') \<and>
     worker_ok ctx' \<and> num_pages ctx' = v"
  using assms(1,7,8)
proof (induction k arbitrary: ctx w)
  case 0
  then show ?case by (simp add: balloon_distance_0 word_eq_iff_unsigned [where ?'a = nat])
next
  case (Suc k)
  obtain u ctx1 w1 where 1:
    "\<forall>k. BalloonRoutine os bos wait idle garbage (Suc k) ctx w = BalloonRoutine os bos wait idle garbage k ctx1 w1"
    "worker_ok ctx1" "VDevice ctx1 = VDevice ctx"
    "\<forall>x. reads_size os garbage (VDevice ctx) x \<longrightarrow> u = x"
    "plentiful bos \<longrightarrow> unat (num_pages ctx) \<noteq> unat u \<longrightarrow>
       balloon_distance (unat u) ctx1 < balloon_distance (unat u) ctx"
    "unat (num_pages ctx) = unat u \<longrightarrow> num_pages ctx1 = num_pages ctx"
    using worker_wake [OF Suc.prems(1) assms(2-5), of os w] by (elim exE conjE)
  have u: "u = v" using 1(4) Suc.prems(2) by blast
  have "balloon_distance (unat v) ctx1 \<le> k"
  proof (cases "unat (num_pages ctx) = unat v")
    case True
    then show ?thesis using 1(6) u balloon_distance_0 [of "unat v" ctx1] by simp
  next
    case False
    then show ?thesis using 1(5) assms(6) u Suc.prems(3) by simp
  qed
  then show ?case using Suc.IH [OF 1(2), of w1] Suc.prems(2) 1(1,3) by simp
qed

subsection \<open>Statistics\<close>

lemma counter_parts:
  fixes h l :: u32
  shows "unat (push_bit 32 (ucast h) OR ucast l :: u64) = unat h * 2 ^ 32 + unat l"
proof -
  have p: "unat (push_bit 32 (ucast h) :: u64) = unat h * 2 ^ 32"
    using unat_lt_32 [of h]
    by (simp only: unsigned_push_bit_eq unat_ucast_32_64) (simp add: take_bit_eq_mod push_bit_eq_mult)
  have "push_bit 32 (ucast h) OR ucast l = push_bit 32 (ucast h) + (ucast l :: u64)"
    by (rule disjunctive_add [symmetric]) (auto simp: bit_push_bit_iff bit_ucast_iff dest: bit_imp_le_length)
  also have "unat (push_bit 32 (ucast h) + (ucast l :: u64)) = unat (push_bit 32 (ucast h) :: u64) + unat (ucast l :: u64)"
    using unat_lt_32 [of h] unat_lt_32 [of l] by (intro unat_plus_small) (simp only: p, simp)
  finally show ?thesis unfolding p by simp
qed

lemma wrap_cases:
  fixes t t' :: nat
  assumes "t \<le> t'" "t' < t + 4294967296"
  shows "t' mod 4294967296 < t mod 4294967296 \<Longrightarrow> t' div 4294967296 = t div 4294967296 + 1"
    "\<not> t' mod 4294967296 < t mod 4294967296 \<Longrightarrow> t' div 4294967296 = t div 4294967296"
proof -
  let ?M = "4294967296 :: nat"
  have e: "t = ?M * (t div ?M) + t mod ?M" "t' = ?M * (t' div ?M) + t' mod ?M" by simp_all
  have b: "t mod ?M < ?M" "t' mod ?M < ?M" by simp_all
  have "t div ?M \<le> t' div ?M" using assms(1) by (rule div_le_mono)
  moreover have "t' div ?M \<le> t div ?M + 1"
    using div_le_mono [of t' "t + ?M" ?M] assms(2) by simp
  ultimately have c: "t' div ?M = t div ?M \<or> t' div ?M = t div ?M + 1" by linarith
  show "t' div ?M = t div ?M + 1" if "t' mod ?M < t mod ?M" using c that e assms(1) by force
  show "t' div ?M = t div ?M" if "\<not> t' mod ?M < t mod ?M" using c that e assms(2) by force
qed

text \<open>The counter follows a value of which it sees only the low 32 bits, if it is sampled in time.\<close>

lemma counter_step:
  assumes t: "t \<le> t'" "t' < t + 2 ^ 32" "t' < 2 ^ 64"
  shows "UpdateOverflowFreeCounter (of_nat t) (of_nat t') = of_nat t'"
proof -
  let ?M = "4294967296 :: nat"
  have low: "unat (ucast (of_nat t :: u64) :: u32) = t mod ?M" "unat (of_nat t' :: u32) = t' mod ?M"
    using t by (simp_all add: unsigned_ucast_eq take_bit_eq_mod unat_of_nat)
  have "unat (drop_bit 32 (of_nat t :: u64)) = t div ?M"
    using t by (simp only: unsigned_drop_bit_eq) (simp add: drop_bit_eq_div take_bit_eq_mod unat_of_nat)
  moreover have "t div ?M < ?M" using t by (simp add: div_less_iff_less_mult)
  ultimately have high: "unat (ucast (drop_bit 32 (of_nat t :: u64)) :: u32) = t div ?M"
    by (simp only: unsigned_ucast_eq) (simp add: take_bit_eq_mod)
  have "t' div ?M < ?M" using t(3) by (simp add: div_less_iff_less_mult)
  then have inc: "unat (ucast (drop_bit 32 (of_nat t :: u64)) + 1 :: u32) = t div ?M + 1"
    if "t' mod ?M < t mod ?M" using that wrap_cases(1) [of t t'] t(1,2) high by (subst unat_plus_small) auto
  have "unat (UpdateOverflowFreeCounter (of_nat t) (of_nat t')) = t'"
  proof (cases "t' mod ?M < t mod ?M")
    case True
    then show ?thesis using inc low wrap_cases(1) [of t t'] t(1,2) div_mult_mod_eq [of t' ?M]
      by (simp add: UpdateOverflowFreeCounter_def Let_def counter_parts word_less_nat_alt)
  next
    case False
    then show ?thesis using high low wrap_cases(2) [of t t'] t(1,2) div_mult_mod_eq [of t' ?M]
      by (simp add: UpdateOverflowFreeCounter_def Let_def counter_parts word_less_nat_alt)
  qed
  then show ?thesis using t(3) by (simp add: word_eq_iff_unsigned [where ?'a = nat] unat_of_nat)
qed


lemma mem_stats_ok:
  assumes "q_ok (StatVirtQueue ctx)"
  shows "\<exists>vq w1. BalloonMemStats os ctx w = Some (ctx\<lparr>StatVirtQueue := Some vq\<rparr>, w1) \<and> q_ok (Some vq)"
proof -
  obtain vq a where vq: "StatVirtQueue ctx = Some vq" "vq_rel (vqo_ring vq) a" using assms by (auto simp: q_ok_def)
  obtain r ring t a' where r: "virtqueue_add_buf (vqo_ring vq) [stat_sg ctx w] 1 0 (Some ()) None 0 = Some (r, ring, t)"
    "vq_rel ring a'" using add_one [OF vq(2)] by blast
  obtain b ring1 where k: "virtqueue_kick_prepare (ctx_ev ctx) ring = (b, ring1)" by fastforce
  then have "vq_rel ring1 a'" using vq_cb.kick_rel [OF r(2), of "ctx_ev ctx"] by simp
  then have "q_ok (Some (vq\<lparr>vqo_ring := ring1\<rparr>))" by (auto simp: q_ok_def)
  moreover have "BalloonMemStats os ctx w = Some (ctx\<lparr>StatVirtQueue := Some (vq\<lparr>vqo_ring := ring1\<rparr>)\<rparr>,
      if b then snd (run_state (virtqueue_notify (VirtIOWdfSystemOps os) (vq\<lparr>vqo_ring := ring1\<rparr>)) w) else w)"
    using vq r k by (simp add: BalloonMemStats_def Let_def split: prod.splits)
  ultimately show ?thesis by blast
qed

lemma gather_stats_frame:
  "run_state (GatherKernelStats bos ctx) w = ((st, ctx1), w1) \<Longrightarrow>
   StatVirtQueue ctx1 = StatVirtQueue ctx \<and> WorkCount ctx1 = WorkCount ctx \<and>
   PageListHead ctx1 = PageListHead ctx \<and> num_pages ctx1 = num_pages ctx"
  by (auto simp: GatherKernelStats_def split: sum.splits prod.splits)

text \<open>The work item runs once per counted interrupt and returns.\<close>

lemma stat_worker_ok:
  assumes "q_ok (StatVirtQueue ctx)" "WorkCount ctx \<noteq> 0"
  shows "\<exists>ctx' w'. StatWorkItemWorker os bos ctx w = Some (ctx', w') \<and> WorkCount ctx' = 0 \<and>
    q_ok (StatVirtQueue ctx') \<and> PageListHead ctx' = PageListHead ctx \<and> num_pages ctx' = num_pages ctx"
  using assms
proof (induction "unat (WorkCount ctx)" arbitrary: ctx w rule: less_induct)
  case less
  obtain st ctx1 w1 where g: "run_state (GatherKernelStats bos ctx) w = ((st, ctx1), w1)" by (metis prod.exhaust)
  define ctx2 where "ctx2 = (if NT_SUCCESS st then ctx1 else fill_stats_minus_one ctx1)"
  have c2: "StatVirtQueue ctx2 = StatVirtQueue ctx" "WorkCount ctx2 = WorkCount ctx"
    "PageListHead ctx2 = PageListHead ctx" "num_pages ctx2 = num_pages ctx"
    using gather_stats_frame [OF g] by (simp_all add: ctx2_def fill_stats_minus_one_def)
  obtain vq w2 where m: "BalloonMemStats os ctx2 w1 = Some (ctx2\<lparr>StatVirtQueue := Some vq\<rparr>, w2)" "q_ok (Some vq)"
    using mem_stats_ok [of ctx2 os w1] less.prems(1) c2 by auto
  define ctx4 where "ctx4 = ctx2\<lparr>StatVirtQueue := Some vq, WorkCount := WorkCount ctx - 1\<rparr>"
  have run: "StatWorkItemWorker os bos ctx w =
      (if WorkCount ctx4 \<noteq> 0 then StatWorkItemWorker os bos ctx4 w2 else Some (ctx4, w2))"
    using g m(1) c2(2) by (subst StatWorkItemWorker.simps) (simp add: Let_def ctx2_def [symmetric] ctx4_def)
  have dec: "unat (WorkCount ctx4) < unat (WorkCount ctx)"
    using less.prems(2) unat_pred [of "WorkCount ctx"] by (simp add: ctx4_def unat_gt_0)
  have q4: "q_ok (StatVirtQueue ctx4)" "PageListHead ctx4 = PageListHead ctx" "num_pages ctx4 = num_pages ctx"
    using m(2) c2 by (simp_all add: ctx4_def)
  show ?case using less.hyps [OF dec q4(1), of w2] run q4 by (cases "WorkCount ctx4 = 0") auto
qed

subsection \<open>Power up\<close>

text \<open>The page data and the thread flags, as the bring-up leaves them.\<close>

definition pages_frame :: "balloon_ctx \<Rightarrow> balloon_ctx \<Rightarrow> bool" where
  "pages_frame ctx ctx' \<longleftrightarrow> PageListHead ctx' = PageListHead ctx \<and> num_pages ctx' = num_pages ctx \<and> pfns ctx' = pfns ctx \<and>
     bShutDown ctx' = bShutDown ctx \<and> Thread ctx' = Thread ctx"

lemma pages_frame_ok: "pages_frame ctx ctx' \<Longrightarrow> balloon_pages_ok ctx \<Longrightarrow> balloon_pages_ok ctx'"
  by (simp add: pages_frame_def balloon_pages_ok_def)

lemma prepare_success:
  assumes "BalloonEvtDevicePrepareHardware os env page ctx w = Some ((st, ctx'), w')" "NT_SUCCESS st"
    "pfns_table ctx = 0"
  shows "device_ok (VIODevice (VDevice ctx')) \<and> no_queues (VIODevice (VDevice ctx')) \<and>
    pages_frame (ctx\<lparr>pfns := page\<rparr>) ctx' \<and> StatVirtQueue ctx' = StatVirtQueue ctx"
proof -
  obtain st1 drv w1 where i: "VirtIOWdfInitialize os env None w = Some ((st1, drv), w1)" "NT_SUCCESS st1"
    and f: "VDevice ctx' = drv" "pages_frame (ctx\<lparr>pfns := page\<rparr>) ctx'" "StatVirtQueue ctx' = StatVirtQueue ctx"
    using assms unfolding BalloonEvtDevicePrepareHardware_def Let_def fill_stats_minus_one_def pages_frame_def
    by (auto elim!: some_bindE split: if_splits prod.splits)
  then show ?thesis using wdf_initialize_ok [OF i] by simp
qed

lemma found_rel: "queues_found vdev vqs \<Longrightarrow> j < length vqs \<Longrightarrow> q_ok (Some (vqs ! j))"
  by (auto simp: queues_found_def queue_ready_def q_ok_def)

lemma init_stat_ok:
  assumes "q_ok (Some vq)" "queues_ok (ctx\<lparr>StatVirtQueue := None\<rparr>)"
  shows "\<exists>b ctx1. init_stat_queue vq ctx w = Some (b, ctx1) \<and> queues_ok ctx1 \<and> pages_frame ctx ctx1 \<and>
    VDevice ctx1 = VDevice ctx \<and> q_ok (StatVirtQueue ctx1)"
proof -
  obtain a where "vq_rel (vqo_ring vq) a" using assms(1) by (auto simp: q_ok_def)
  from add_one [OF this, of "stat_sg ctx w"] obtain r q' t a'
    where "virtqueue_add_buf (vqo_ring vq) [stat_sg ctx w] 1 0 (Some ()) None 0 = Some (r, q', t)" "vq_rel q' a'"
    by blast
  then show ?thesis using assms(2) by (auto simp: init_stat_queue_def q_ok_def queues_ok_def pages_frame_def)
qed

lemma kick_ok:
  assumes "run_state (virtqueue_kick ops vdev vq) w = (vq', w')"
  shows "q_ok (Some vq) \<longrightarrow> q_ok (Some vq')"
proof
  assume q: "q_ok (Some vq)"
  obtain a where a: "vq_rel (vqo_ring vq) a" using q by (auto simp: q_ok_def)
  have "vqo_ring vq' = snd (virtqueue_kick_prepare (event_suppression_enabled vdev) (vqo_ring vq))"
    using assms by (auto simp: virtqueue_kick_def split: prod.splits)
  then show "q_ok (Some vq')" using vq_cb.kick_rel [OF a] by (auto simp: q_ok_def)
qed

lemma failed_returns:
  assumes "device (VIODevice drv) \<noteq> NoDevice"
  shows "\<exists>w'. VirtIOWdfSetDriverFailed ops drv w = Some ((), w')" "\<exists>w'. VirtIOWdfSetDriverOK ops drv w = Some ((), w')"
  using add_status_returns [OF assms, of ops] 
  by (simp_all add: VirtIOWdfSetDriverFailed_def VirtIOWdfSetDriverOK_def virtio_device_ready_def virtio_add_status_def)

text \<open>The part of the initialisation that follows the creation of the queues.\<close>

lemma init_queues_stored:
  assumes l: "length vqs = unat n" "n = 3 \<or> n = 2" "queues_found vdev vqs"
    and d1: "device (VIODevice (VDevice ctx)) \<noteq> NoDevice" and st: "StatVirtQueue ctx = None"
  shows "\<exists>ctx' w'. init_queues_done os n vqs ctx w = Some ((STATUS_SUCCESS, ctx'), w') \<and>
    queues_ok ctx' \<and> VDevice ctx' = VDevice ctx \<and> pages_frame ctx ctx'"
proof -
  let ?ops = "VirtIOWdfSystemOps os"
  have q: "q_ok (Some (vqs ! 0))" "q_ok (Some (vqs ! 1))" using found_rel [OF l(3)] l(1,2) by auto
  have nth: "nth_opt vqs 0 = Some (vqs ! 0)" "nth_opt vqs 1 = Some (vqs ! 1)" using l(1,2) by (auto simp: nth_opt_def)
  obtain w1 where ok: "VirtIOWdfSetDriverOK ?ops (VDevice ctx) w = Some ((), w1)"
    using failed_returns(2) [OF d1, of ?ops w] by blast
  let ?ctx1 = "ctx\<lparr>InfVirtQueue := Some (vqs ! 0), DefVirtQueue := Some (vqs ! 1)\<rparr>"
  show ?thesis
  proof (cases "n = 3")
    case False
    then show ?thesis using nth ok q st by (simp add: init_queues_done_def Let_def queues_ok_def pages_frame_def)
  next
    case True
    have l3: "length vqs = 3" using l(1) True by simp
    have q2: "q_ok (Some (vqs ! 2))" using found_rel [OF l(3)] l3 by simp
    obtain b ctx2 where i: "init_stat_queue (vqs ! 2) ?ctx1 w = Some (b, ctx2)" "queues_ok ctx2"
      "pages_frame ?ctx1 ctx2" "VDevice ctx2 = VDevice ?ctx1" "q_ok (StatVirtQueue ctx2)"
      using init_stat_ok [OF q2, of ?ctx1 w] q by (auto simp: queues_ok_def)
    then obtain vq where vq: "StatVirtQueue ctx2 = Some vq" by (auto simp: q_ok_def)
    obtain vq' w2 where k: "run_state (virtqueue_kick ?ops (VIODevice (VDevice ctx)) vq) w1 = (vq', w2)" by fastforce
    then have "q_ok (Some vq')" using kick_ok [OF k] i(5) vq by simp
    then show ?thesis using True nth l3 i vq k ok by (auto simp: init_queues_done_def Let_def queues_ok_def pages_frame_def)
  qed
qed

lemma init_returns:
  assumes dev: "device_ok (VIODevice (VDevice ctx))" "no_queues (VIODevice (VDevice ctx))"
    and mem: "ring_memory_ok mem" "info_entries_zero mem"
    and ne: "\<And>packed. no_empty_ring (VirtIOWdfSystemOps os) packed"
    and st: "StatVirtQueue ctx = None"
  shows "\<exists>status ctx' w'. BalloonInit os mem ctx w = Some ((status, ctx'), w') \<and> pages_frame ctx ctx' \<and>
     device (VIODevice (VDevice ctx')) \<noteq> NoDevice \<and>
     (if NT_SUCCESS status then queues_ok ctx'
      else device_ok (VIODevice (VDevice ctx')) \<and> no_queues (VIODevice (VDevice ctx')) \<and> StatVirtQueue ctx' = None)"
proof -
  let ?ops = "VirtIOWdfSystemOps os"
  have d: "device (VIODevice (VDevice ctx)) \<noteq> NoDevice" using dev(1) by (simp add: device_ok_def)
  obtain fs w1 where 1: "VirtIOWdfGetDeviceFeatures ?ops (VDevice ctx) w = Some (fs, w1)"
    using get_features_returns [OF d, of ?ops w] by (auto simp: VirtIOWdfGetDeviceFeatures_def)
  define s where "s = virtio_is_feature_enabled fs VIRTIO_BALLOON_F_STATS_VQ"
  let ?on = "if s then virtio_feature_enable 0 VIRTIO_BALLOON_F_STATS_VQ else 0"
  let ?n = "if s then 3 else 2 :: u32"
  let ?ps = "[WdfInterrupt ctx, WdfInterrupt ctx, WdfInterrupt ctx]"
  obtain s2 drv w2 where 2: "VirtIOWdfSetDriverFeatures ?ops (VDevice ctx) ?on 0 w1 = Some ((s2, drv), w2)"
    "same_device (VIODevice (VDevice ctx)) (VIODevice drv)"
    using set_driver_features_same [OF d, of ?ops ?on 0 w1] by blast
  have dev2: "device_ok (VIODevice drv)" "no_queues (VIODevice drv)" using same_device_ok [OF 2(2) dev] by auto
  have d2: "device (VIODevice drv) \<noteq> NoDevice" using dev2(1) by (simp add: device_ok_def)
  obtain r drv1 w3 where 3: "VirtIOWdfInitQueues os mem drv ?n ?ps w2 = Some ((r, drv1), w3)"
    "device_ok (VIODevice drv1)"
    "case r of Inl _ \<Rightarrow> no_queues (VIODevice drv1)
       | Inr vqs \<Rightarrow> length vqs = unat ?n \<and> queues_found (VIODevice drv1) vqs \<and> pQueueParams w3 = None"
    using init_queues_spec [OF mem dev2, of os ?n ?ps w2] ne by blast
  have d3: "device (VIODevice drv1) \<noteq> NoDevice" using 3(2) by (simp add: device_ok_def)
  consider (features) "\<not> NT_SUCCESS s2" | (queues) e where "NT_SUCCESS s2" "r = Inl e"
    | (created) vqs where "NT_SUCCESS s2" "r = Inr vqs" by (cases r) auto
  then show ?thesis
  proof cases
    case features
    obtain w4 where "VirtIOWdfSetDriverFailed ?ops drv w2 = Some ((), w4)" using failed_returns(1) [OF d2, of ?ops w2] by blast
    then have "BalloonInit os mem ctx w = Some ((s2, ctx\<lparr>VDevice := drv\<rparr>), w4)"
      using features 2(1) by (simp add: BalloonInit_def Let_def 1 s_def)
    then show ?thesis using features dev2 d2 st by (simp add: pages_frame_def)
  next
    case queues
    have "\<not> NT_SUCCESS e" using init_queues_error [OF 3(1)] queues(2) by (simp add: real_error_def)
    moreover obtain w4 where "VirtIOWdfSetDriverFailed ?ops drv1 w3 = Some ((), w4)" using failed_returns(1) [OF d3, of ?ops w3] by blast
    then have "BalloonInit os mem ctx w = Some ((e, ctx\<lparr>VDevice := drv1\<rparr>), w4)"
      using queues 2(1) 3(1) by (simp add: BalloonInit_def Let_def 1 s_def)
    ultimately show ?thesis using queues 3(2,3) d3 st by (simp add: pages_frame_def)
  next
    case created
    let ?ctx2 = "ctx\<lparr>VDevice := drv1\<rparr>"
    have "?n = 3 \<or> ?n = 2" by simp
    then obtain ctx' w' where f: "init_queues_done os ?n vqs ?ctx2 w3 = Some ((STATUS_SUCCESS, ctx'), w')" "queues_ok ctx'"
      "VDevice ctx' = drv1" "pages_frame ?ctx2 ctx'"
      using init_queues_stored [of vqs ?n "VIODevice drv1" ?ctx2 os w3] created 3(3) d3 st by (auto simp del: if_split)
    moreover have "BalloonInit os mem ctx w = Some ((STATUS_SUCCESS, ctx'), w')"
      using created 2(1) 3(1) f(1) by (simp add: BalloonInit_def Let_def 1 s_def)
    ultimately show ?thesis using d3 by (auto simp: pages_frame_def)
  qed
qed

text \<open>Storing the driver's copies back changes nothing when no queue is registered.\<close>

lemma store_queue_none: "no_queues vdev \<Longrightarrow> store_queue q vdev = vdev"
proof -
  assume "no_queues vdev"
  then have "map (\<lambda>info. case info_vq info of None \<Rightarrow> info
      | Some vq0 \<Rightarrow> if vqo_index vq0 = vqo_index vq then info\<lparr>info_vq := Some vq\<rparr> else info) (dev_info vdev) = dev_info vdev"
    for vq :: "unit virtqueue_obj" by (auto simp: no_queues_def intro: map_idI)
  then show ?thesis by (simp add: store_queue_def split: option.splits)
qed

text \<open>The device answers a reset.\<close>

definition resets :: "'w system_ops \<Rightarrow> bool" where
  "resets ops \<longleftrightarrow> (\<forall>(vdev :: unit virtio_device) w. device vdev \<noteq> NoDevice \<longrightarrow>
     (\<exists>w1. virtio_device_reset ops vdev w = Some ((), w1)))"

lemma d0_entry_returns:
  assumes dev: "device_ok (VIODevice (VDevice ctx))" "no_queues (VIODevice (VDevice ctx))"
    and mem: "ring_memory_ok mem" "info_entries_zero mem"
    and ne: "\<And>packed. no_empty_ring (VirtIOWdfSystemOps os) packed"
    and st: "StatVirtQueue ctx = None" and ok: "balloon_pages_ok ctx"
    and reset: "resets (VirtIOWdfSystemOps os)"
  shows "\<exists>status ctx' w'. BalloonEvtDeviceD0Entry os bos mem ctx w = Some ((status, ctx'), w') \<and>
     balloon_pages_ok ctx' \<and> (NT_SUCCESS status \<longrightarrow> worker_ok ctx')"
proof -
  obtain s1 ctx1 w1 where 1: "BalloonInit os mem ctx w = Some ((s1, ctx1), w1)" "pages_frame ctx ctx1"
    "device (VIODevice (VDevice ctx1)) \<noteq> NoDevice"
    "if NT_SUCCESS s1 then queues_ok ctx1
      else device_ok (VIODevice (VDevice ctx1)) \<and> no_queues (VIODevice (VDevice ctx1)) \<and> StatVirtQueue ctx1 = None"
    using init_returns [OF dev mem ne st, of w] by (elim exE conjE)
  have ok1: "balloon_pages_ok ctx1" using pages_frame_ok [OF 1(2) ok] .
  show ?thesis
  proof (cases "NT_SUCCESS s1")
    case True
    then show ?thesis using 1 ok1
      by (auto simp: BalloonEvtDeviceD0Entry_def BalloonCreateWorkerThread_def Let_def worker_ok_def queues_ok_def
          balloon_pages_ok_def split: prod.splits)
  next
    case False
    then have s: "store_queues ctx1 = VDevice ctx1" using 1(4) by (simp add: store_queues_def store_queue_none)
    obtain w2 where "virtio_device_reset (VirtIOWdfSystemOps os) (VIODevice (VDevice ctx1)) w1 = Some ((), w2)"
      using reset 1(3) unfolding resets_def by blast
    from destroy_queues_spec [OF _ this] obtain drv w3 where
      "VirtIOWdfDestroyQueues (VirtIOWdfSystemOps os) (store_queues ctx1) w1 = Some ((STATUS_SUCCESS, drv), w3)"
      using 1(4) False s by auto
    then show ?thesis using False 1(1) ok1
      by (simp add: BalloonEvtDeviceD0Entry_def BalloonTerm_def balloon_pages_ok_def)
  qed
qed

end
