(* ===== verification/BalloonProperties.thy ===== *)
theory BalloonProperties
  imports BalloonProofs WdfProperties
begin

text \<open>
  The properties of the balloon driver: the accounting of pages from the addition of the
  device to its removal, the way to the size the host asks for, and the statistics counters.
  The concrete inputs run the driver on the simulated device of \<open>WdfProperties\<close>.
\<close>

subsection \<open>A small system\<close>

definition demo_balloon_os :: "u8 balloon_os" where
  "demo_balloon_os = \<lparr>low_memory_signalled = State (\<lambda>d. (False, d)),
     MmAllocatePages = (\<lambda>n. State (\<lambda>d. (Some \<lparr>mdl_byte_count = ucast n, mdl_pfns = replicate ((unat n + 4095) div 4096) 7\<rparr>, d))),
     MmFreePages = (\<lambda>_. State (\<lambda>d. ((), d))), lookaside_alloc = State (\<lambda>d. (True, d)),
     create_low_memory_event = State (\<lambda>d. (True, d)), create_thread = State (\<lambda>d. (STATUS_SUCCESS, d)),
     wait_for_thread = State (\<lambda>d. (STATUS_SUCCESS, d)), query_basic = State (\<lambda>d. (Inl STATUS_UNSUCCESSFUL, d)),
     query_perf = State (\<lambda>d. (Inl STATUS_UNSUCCESSFUL, d)), query_cache = State (\<lambda>d. (Inl STATUS_UNSUCCESSFUL, d))\<rparr>"

text \<open>While the worker waits, an interrupt arrives.\<close>

definition demo_wait :: "u8 balloon_wait" where
  "demo_wait ctx w = (case BalloonInterruptDpc ctx of Some ctx1 \<Rightarrow> (ctx1, w) | None \<Rightarrow> (ctx, w))"

lemma demo_alloc: "alloc_contract demo_balloon_os" "plentiful demo_balloon_os"
proof -
  have "unat (ucast n :: u32) \<le> 4096 * ((unat n + 4095) div 4096)" for n :: u64
  proof -
    have "unat (ucast n :: u32) \<le> unat n" by (simp add: unsigned_ucast_eq take_bit_eq_mod)
    also have "unat n \<le> 4096 * ((unat n + 4095) div 4096)"
      using div_mult_mod_eq [of "unat n + 4095" 4096] mod_less_divisor [of 4096 "unat n + 4095"] by linarith
    finally show ?thesis .
  qed
  then show "alloc_contract demo_balloon_os" by (simp add: alloc_contract_def demo_balloon_os_def)
  have "ucast (ucast n :: u32) = n" if "unat n \<le> 2 ^ 21" for n :: u64
  proof -
    have "unat (ucast n :: u32) = unat n" using that by (simp add: unsigned_ucast_eq take_bit_eq_mod)
    then show ?thesis by (metis unat_ucast_32_64 unsigned_word_eqI)
  qed
  then show "plentiful demo_balloon_os" by (simp add: plentiful_def demo_balloon_os_def)
qed

lemma dpc_wakes: "BalloonInterruptDpc ctx = Some ctx' \<Longrightarrow> Thread ctx' \<Longrightarrow> WakeUpThread ctx'"
  by (auto simp: BalloonInterruptDpc_def Let_def elim!: some_bindE split: if_splits option.splits)

lemma demo_wait_ok: "wait_ok demo_wait" "wakes demo_wait"
proof -
  have a: "activity ctx (fst (demo_wait ctx w))" for ctx w
    by (auto simp: demo_wait_def split: option.splits intro: activity.intros)
  have "WakeUpThread (fst (demo_wait ctx w))" if "queues_ok ctx" "Thread ctx" for ctx w
    using dpc_ok [OF that(1)] dpc_wakes that(2) by (auto simp: demo_wait_def pages_same_def)
  then show "wait_ok demo_wait" "wakes demo_wait" using a by (auto simp: wait_ok_def wakes_def)
qed

definition demo_vq :: "u32 \<Rightarrow> unit virtqueue_obj" where
  "demo_vq i = \<lparr>vqo_index = i, vqo_ring = SplitVq (the (the (vring_new_virtqueue_split i 4 (zero_pages 4)))),
     notification_addr = 0x101000, avail_va = 0, used_va = 0, vqo_mem = 0\<rparr>"

definition demo_balloon_device :: "unit virtio_device" where
  "demo_balloon_device = (initial_device False)\<lparr>device := ModernDevice, config := 0x103000, config_len := 0x1000\<rparr>"

text \<open>A running driver with one list of three pages in the balloon.\<close>

definition demo_ctx :: balloon_ctx where
  "demo_ctx = zero_ctx\<lparr>VDevice := initial_driver\<lparr>VIODevice := demo_balloon_device\<rparr>, InfVirtQueue := Some (demo_vq 0),
     DefVirtQueue := Some (demo_vq 1), num_pages := 3, pfns_table := 0x31000, pfns := replicate 512 0,
     PageListHead := [\<lparr>mdl_byte_count = 0x3000, mdl_pfns = [5, 6, 7]\<rparr>], Thread := True\<rparr>"

lemma demo_vq_rel: "q_ok (Some (demo_vq i))"
proof -
  have "pages_ok 4 (zero_pages 4)" by (simp add: pages_ok_def zero_pages_def)
  from vring_new_virtqueue_split_rel [of 4 2, OF _ _ this, where ?'a = unit and index = i]
  show ?thesis by (auto simp: q_ok_def demo_vq_def vq_rel_def)
qed

lemma demo_ctx_ok: "worker_ok demo_ctx"
  by (simp add: worker_ok_def queues_ok_def demo_ctx_def demo_vq_rel zero_ctx_def balloon_pages_ok_def mdl_ok_def
      mdl_pages_def demo_balloon_device_def)

subsection \<open>From addition to removal\<close>







text \<open>
  C16: the balloon reaches the size the host asks for. Let the worker be running with its
  invariant, the host ask for \<open>v\<close> pages, memory be plentiful and every wait of the worker for
  work end by an interrupt. Then after at most one wake-up for every page list in the balloon
  and one for every 512 pages asked for, plus one, the balloon has exactly \<open>v\<close> pages,
  and it stays so for every larger number of wake-ups; also when it has to be deflated first,
  which releases whole page lists and may overshoot, and also when the host never answers.
\<close>

theorem balloon_reaches_size:
  assumes ok: "worker_ok ctx" and wait: "wait_ok wait" "wakes idle"
    and alloc: "alloc_contract bos" "plentiful bos" and garbage: "length garbage = 4"
    and size: "reads_size os garbage (VDevice ctx) v"
    and k: "length (PageListHead ctx) + unat v div 512 + 1 \<le> k"
  shows "\<exists>ctx' w'. BalloonRoutine os bos wait idle garbage k ctx w = Some ((False, ctx'), w') \<and>
    num_pages ctx' = v \<and> sum_list (map mdl_pages (PageListHead ctx')) = unat v"
proof -
  have "balloon_distance (unat v) ctx \<le> k" using balloon_distance_le [of "unat v" ctx] k by linarith
  from routine_reaches [OF ok wait alloc(1) garbage alloc(2) size this, of w]
  show ?thesis by (auto simp: worker_ok_def balloon_pages_ok_def)
qed

theorem balloon_reaches_size_witness:
  "\<exists>ctx' w'. BalloonRoutine demo_os demo_balloon_os demo_wait demo_wait [0, 0, 0, 0] 2 demo_ctx demo_world =
     Some ((False, ctx'), w') \<and> num_pages ctx' = 1"
proof -
  have "reads_size demo_os [0, 0, 0, 0] (VDevice demo_ctx) 1"
    by (auto simp: reads_size_def VirtIOWdfDeviceGet_def virtio_get_config_def dev_get_config_def dispatch_def lift_def
        vio_modern_get_config_def demo_ctx_def demo_balloon_device_def CONFIG_num_pages_def VirtIOWdfSystemOps_def
        ReadVirtIODeviceRegister_def demo_os_def buf_write_def bytes_of_u32_def)
  from balloon_reaches_size [OF demo_ctx_ok demo_wait_ok demo_alloc _ this, of 2 demo_world]
  show ?thesis by (auto simp: demo_ctx_def)
qed

subsection \<open>Statistics\<close>

lemma update_counter_exact:
  assumes "i < length cs" "cs ! i = of_nat t" "t \<le> t'" "t' < t + 2 ^ 32" "t' < 2 ^ 64"
  shows "update_counter i (of_nat t') cs = (of_nat t', cs[i := of_nat t'])"
  using counter_step [OF assms(3-5)] assms(1,2) by (simp add: update_counter_def Let_def)

text \<open>
  C28: the statistics. The system counts in 32 bits. If the true number of each event has
  grown by less than \<open>2 ^ 32\<close> since the last report, the 64-bit counters of the driver are
  again the true numbers, across any wrap-around of the system's counters, and the reported
  statistics are computed from them; the counter that is updated twice in a report keeps its
  value.
\<close>

theorem kernel_stats_exact:
  assumes cs: "cs = map (\<lambda>i. of_nat (t i)) [0..<7]"
    and grow: "\<forall>i < 7. t i \<le> t' i \<and> t' i < t i + 2 ^ 32 \<and> t' i < 2 ^ 64"
    and p: "p = \<lparr>AvailablePages = avail, PageReadCount = of_nat (t' 0), DirtyPagesWriteCount = of_nat (t' 1),
       MappedPagesWriteCount = of_nat (t' 2), CopyOnWriteCount = of_nat (t' 3), TransitionCount = of_nat (t' 4),
       CacheTransitionCount = of_nat (t' 5), DemandZeroCount = of_nat (t' 6)\<rparr>"
  shows "kernel_stats physical p ci cs =
    (map (\<lambda>i. \<lparr>stat_tag = of_nat i, stat_val =
        [of_nat (t' 0) * 4096, of_nat (t' 1 + t' 2) * 4096, of_nat (t' 0), of_nat (t' 3 + t' 4 + t' 5 + t' 6),
         ucast avail * 4096, ucast physical * 4096, ucast avail * 4096 + cache_size ci div 2, cache_size ci, 0, 0] ! i\<rparr>) [0..<10],
     map (\<lambda>i. of_nat (t' i)) [0..<7])"
proof -
  have g: "t i \<le> t' i" "t' i < t i + 2 ^ 32" "t' i < 2 ^ 64" if "i < 7" for i using grow that by auto
  have l: "cs = [of_nat (t 0), of_nat (t 1), of_nat (t 2), of_nat (t 3), of_nat (t 4), of_nat (t 5), of_nat (t 6)]"
    "map (\<lambda>i. of_nat (t' i)) [0..<7] =
       [of_nat (t' 0), of_nat (t' 1), of_nat (t' 2), of_nat (t' 3), of_nat (t' 4), of_nat (t' 5), of_nat (t' 6)]"
    unfolding cs by (simp_all add: numeral_eq_Suc)
  note u = update_counter_exact [OF _ _ g]
  have r: "t' 0 \<le> t' 0" "t' 0 < t' 0 + 2 ^ 32" by simp_all
  show ?thesis unfolding kernel_stats_def p l
    by (simp add: u update_counter_exact [OF _ _ r g(3)] push_bit_eq_mult BALLOON_PAGE_SHIFT_def Let_def ring_distribs)
qed

theorem kernel_stats_exact_witness:
  "fst (kernel_stats 0 \<lparr>AvailablePages = 0, PageReadCount = of_nat (2 ^ 32 + 5), DirtyPagesWriteCount = 1,
     MappedPagesWriteCount = 1, CopyOnWriteCount = 1, TransitionCount = 1, CacheTransitionCount = 1, DemandZeroCount = 1\<rparr>
     \<lparr>CurrentSize = 0, MinimumWorkingSet = 0, cache_Flags = 0\<rparr> (map (\<lambda>i. of_nat (if i = 0 then 2 ^ 32 - 1 else 0)) [0..<7])) ! 2 =
   \<lparr>stat_tag = 2, stat_val = 2 ^ 32 + 5\<rparr>"
proof -
  have "\<forall>i < 7. (if i = 0 then 2 ^ 32 - 1 else 0 :: nat) \<le> (if i = 0 then 2 ^ 32 + 5 else 1) \<and>
      (if i = 0 then 2 ^ 32 + 5 else 1) < (if i = 0 then 2 ^ 32 - 1 else 0 :: nat) + 2 ^ 32 \<and>
      (if i = 0 then 2 ^ 32 + 5 else 1 :: nat) < 2 ^ 64" for i :: nat by simp
  from kernel_stats_exact [OF refl this refl, of 0 0 "\<lparr>CurrentSize = 0, MinimumWorkingSet = 0, cache_Flags = 0\<rparr>"]
  show ?thesis by simp
qed

end
