(* ===== verification/SwOffload.thy ===== *)
theory SwOffload
  imports VioPrelude
begin

text \<open>
  The software checksum and packet analysis of the network driver,
  \<^verbatim>\<open>src/NetKVM/Common/sw_offload.cpp\<close>, with the packet formats of
  \<^verbatim>\<open>src/NetKVM/Common/ethernetutils.h\<close> and the result types of
  \<^verbatim>\<open>src/NetKVM/Common/ndis56common.h\<close>.

  A packet in memory is the list of its bytes, and a field of a header is read at its
  offset in the C structure, least significant byte first. An access past the end of the
  list yields \<open>None\<close>. The build modelled is the 64-bit one: \<open>UINT_PTR\<close> has
  64 bits; the ARM64 variant of the summation loop is modelled beside the x64 one. The
  debug printing is left out, the memory accesses it makes are not.
\<close>

subsection \<open>Little-endian memory\<close>

type_synonym bytes = "u8 list"

definition le16 :: "u8 \<Rightarrow> u8 \<Rightarrow> u16" where
  "le16 a b = ucast a + 256 * ucast b"

definition le32 :: "u8 \<Rightarrow> u8 \<Rightarrow> u8 \<Rightarrow> u8 \<Rightarrow> u32" where
  "le32 a b c d = ucast a + 256 * ucast b + 65536 * ucast c + 16777216 * ucast d"

definition get8 :: "bytes \<Rightarrow> nat \<Rightarrow> u8 option" where
  "get8 buf i = nth_opt buf i"

definition get16 :: "bytes \<Rightarrow> nat \<Rightarrow> u16 option" where
  "get16 buf i = do { a \<leftarrow> nth_opt buf i; b \<leftarrow> nth_opt buf (i + 1); Some (le16 a b) }"

definition get32 :: "bytes \<Rightarrow> nat \<Rightarrow> u32 option" where
  "get32 buf i = do { a \<leftarrow> nth_opt buf i; b \<leftarrow> nth_opt buf (i + 1);
     c \<leftarrow> nth_opt buf (i + 2); d \<leftarrow> nth_opt buf (i + 3); Some (le32 a b c d) }"

definition get_bytes :: "bytes \<Rightarrow> nat \<Rightarrow> nat \<Rightarrow> bytes option" where
  "get_bytes buf i n = (if i + n \<le> length buf then Some (take n (drop i buf)) else None)"

definition bytes16 :: "u16 \<Rightarrow> bytes" where
  "bytes16 w = [ucast w, ucast (drop_bit 8 w)]"

definition put16 :: "bytes \<Rightarrow> nat \<Rightarrow> u16 \<Rightarrow> bytes option" where
  "put16 buf i w = (if i + 1 < length buf
     then Some (buf[i := ucast w, i + 1 := ucast (drop_bit 8 w)]) else None)"

definition swap_short :: "u16 \<Rightarrow> u16" where
  "swap_short us = push_bit 8 us OR drop_bit 8 us"

subsection \<open>Checksums\<close>

fun sum_dwords :: "nat \<Rightarrow> bytes \<Rightarrow> nat \<Rightarrow> u64 \<Rightarrow> (u64 \<times> nat) option" where
  "sum_dwords 0 buf ptr val = Some (val, ptr)"
| "sum_dwords (Suc n) buf ptr val = do {
     w \<leftarrow> get32 buf ptr;
     sum_dwords n buf (ptr + 4) (val + ucast w) }"

definition RawCheckSumCalculator :: "bytes \<Rightarrow> u32 \<Rightarrow> u64 option" where
  "RawCheckSumCalculator buf len = do {
     (val, ptr) \<leftarrow> sum_dwords (unat (drop_bit 2 len)) buf 0 0;
     (val, ptr) \<leftarrow> (if len AND 2 \<noteq> 0
        then do { w \<leftarrow> get16 buf ptr; Some (val + ucast w, ptr + 2) }
        else Some (val, ptr));
     if len AND 1 \<noteq> 0 then do { b \<leftarrow> get8 buf ptr; Some (val + ucast b) } else Some val }"

text \<open>The ARM64 branch of the same function sums byte pairs.\<close>

fun sum_byte_pairs :: "nat \<Rightarrow> bytes \<Rightarrow> nat \<Rightarrow> u64 \<Rightarrow> (u64 \<times> nat) option" where
  "sum_byte_pairs 0 buf ptr val = Some (val, ptr)"
| "sum_byte_pairs (Suc n) buf ptr val = do {
     a \<leftarrow> get8 buf ptr;
     b \<leftarrow> get8 buf (ptr + 1);
     sum_byte_pairs n buf (ptr + 2) (val + ucast a + push_bit 8 (ucast b)) }"

definition RawCheckSumCalculator_arm64 :: "bytes \<Rightarrow> u32 \<Rightarrow> u64 option" where
  "RawCheckSumCalculator_arm64 buf len = do {
     (val, ptr) \<leftarrow> sum_byte_pairs (unat (drop_bit 1 len)) buf 0 0;
     if len AND 1 \<noteq> 0 then do { b \<leftarrow> get8 buf ptr; Some (val + ucast b) } else Some val }"

definition RawCheckSumFinalize :: "u64 \<Rightarrow> u16" where
  "RawCheckSumFinalize raw = (
     let sum32 = ucast (drop_bit 32 ((drop_bit 32 raw OR push_bit 32 raw) + raw)) :: u32;
         sum16 = ucast (drop_bit 16 ((drop_bit 16 sum32 OR push_bit 16 sum32) + sum32)) :: u16
     in NOT sum16)"

definition CheckSumCalculatorFlat :: "bytes \<Rightarrow> u32 \<Rightarrow> u16 option" where
  "CheckSumCalculatorFlat buf len = map_option RawCheckSumFinalize (RawCheckSumCalculator buf len)"

text \<open>
  The pages of a packet: \<open>page_virtual\<close> is the memory at the page's virtual address,
  \<open>page_size\<close> the number of bytes of the packet in it.
\<close>

record data_page =
  page_virtual :: bytes
  page_size :: u32

text \<open>
  The page of the start offset. When the offset lies in the current page the loop of the
  source sets the remaining offset to zero and ends.
\<close>

fun seek_page :: "data_page list \<Rightarrow> u32 \<Rightarrow> (data_page list \<times> u32) option" where
  "seek_page pages start = (if start = 0 then Some (pages, 0) else
     case pages of
       [] \<Rightarrow> None
     | p # ps \<Rightarrow>
         let cur = min (page_size p) start
         in if cur < start
            then seek_page ps (start - cur)
            else Some (pages, cur))"

fun sum_pages :: "data_page list \<Rightarrow> u32 \<Rightarrow> u32 \<Rightarrow> u64 \<Rightarrow> u64 option" where
  "sum_pages pages off len acc = (if len = 0 then Some acc else
     case pages of
       [] \<Rightarrow> None
     | p # ps \<Rightarrow> do {
         let n = min len (page_size p - off);
         s \<leftarrow> RawCheckSumCalculator (drop (unat off) (page_virtual p)) n;
         sum_pages ps 0 (len - n) (acc + s) })"

declare seek_page.simps [simp del] sum_pages.simps [simp del]

definition CheckSumCalculator :: "data_page list \<Rightarrow> u32 \<Rightarrow> u32 \<Rightarrow> u16 option" where
  "CheckSumCalculator pages start len = do {
     (ps, off) \<leftarrow> seek_page pages start;
     s \<leftarrow> sum_pages ps off len 0;
     Some (RawCheckSumFinalize s) }"

subsection \<open>Packet parsing results\<close>

text \<open>
  The enumerators of \<open>ppResult\<close>; several of them share a value, since each belongs to
  one field of the parsing result.
\<close>

abbreviation (input) "ppresNotTested \<equiv> 0"
abbreviation (input) "ppresNotIP \<equiv> 1"
abbreviation (input) "ppresIPV4 \<equiv> 2"
abbreviation (input) "ppresIPV6 \<equiv> 3"
abbreviation (input) "ppresIPTooShort \<equiv> 1"
abbreviation (input) "ppresPCSOK \<equiv> 1"
abbreviation (input) "ppresCSOK \<equiv> 2"
abbreviation (input) "ppresCSBad \<equiv> 3"
abbreviation (input) "ppresXxpOther \<equiv> 1"
abbreviation (input) "ppresXxpKnown \<equiv> 2"
abbreviation (input) "ppresXxpIncomplete \<equiv> 3"
abbreviation (input) "ppresIsTCP \<equiv> False"
abbreviation (input) "ppresIsUDP \<equiv> True"

text \<open>
  \<open>tTcpIpPacketParsingResult\<close>: the fields keep the width of the C bit fields, a
  one-bit field is a Boolean.
\<close>

record parsing_result =
  ipStatus :: "2 word"
  ipCheckSum :: "2 word"
  xxpCheckSum :: "2 word"
  xxpStatus :: "2 word"
  xxpFull :: bool
  TcpUdp :: bool
  fixedIpCS :: bool
  fixedXxpCS :: bool
  IsFragment :: bool
  ipHeaderSize :: u8
  XxpIpHeaderSize :: u8

definition zero_result :: parsing_result where
  "zero_result = \<lparr> ipStatus = 0, ipCheckSum = 0, xxpCheckSum = 0, xxpStatus = 0, xxpFull = False,
     TcpUdp = False, fixedIpCS = False, fixedXxpCS = False, IsFragment = False, ipHeaderSize = 0,
     XxpIpHeaderSize = 0 \<rparr>"

text \<open>The bits of \<open>tPacketOffloadRequest\<close>.\<close>

abbreviation (input) "pcrIpChecksum \<equiv> 0x1"
abbreviation (input) "pcrTcpV4Checksum \<equiv> 0x2"
abbreviation (input) "pcrUdpV4Checksum \<equiv> 0x4"
abbreviation (input) "pcrTcpV6Checksum \<equiv> 0x8"
abbreviation (input) "pcrUdpV6Checksum \<equiv> 0x10"
abbreviation (input) "pcrTcpChecksum \<equiv> 0xA"
abbreviation (input) "pcrUdpChecksum \<equiv> 0x14"
abbreviation (input) "pcrAnyChecksum \<equiv> 0x1F"
abbreviation (input) "pcrFixIPChecksum \<equiv> 0x80"
abbreviation (input) "pcrFixPHChecksum \<equiv> 0x100"
abbreviation (input) "pcrFixTcpV4Checksum \<equiv> 0x200"
abbreviation (input) "pcrFixUdpV4Checksum \<equiv> 0x400"
abbreviation (input) "pcrFixTcpV6Checksum \<equiv> 0x800"
abbreviation (input) "pcrFixUdpV6Checksum \<equiv> 0x1000"
abbreviation (input) "pcrFixXxpChecksum \<equiv> 0x1E00"

abbreviation (input) "PROTOCOL_TCP \<equiv> 6"
abbreviation (input) "PROTOCOL_UDP \<equiv> 17"
abbreviation (input) "MAX_SUPPORTED_IPV6_HEADERS \<equiv> 252"

subsection \<open>Parsing the headers of an IP packet\<close>

definition TCP_HEADER_LENGTH :: "u16 \<Rightarrow> u32" where
  "TCP_HEADER_LENGTH tcp_flags = ucast (drop_bit 2 (tcp_flags AND 0xF0))"

definition IP_HEADER_LENGTH :: "u8 \<Rightarrow> u32" where
  "IP_HEADER_LENGTH ip_verlen = push_bit 2 (ucast (ip_verlen AND 0x0F))"

definition ProcessTCPHeader :: "parsing_result \<Rightarrow> bytes \<Rightarrow> u32 \<Rightarrow> u16 \<Rightarrow> parsing_result option" where
  "ProcessTCPHeader res ip len hsize = (
     let res = res\<lparr> TcpUdp := ppresIsTCP \<rparr> in
     if ucast hsize + 20 \<le> len then do {
       tcp_flags \<leftarrow> get16 ip (unat hsize + 12);
       Some (res\<lparr> xxpStatus := ppresXxpKnown, xxpFull := True,
         XxpIpHeaderSize := ucast (ucast hsize + TCP_HEADER_LENGTH tcp_flags) \<rparr>) }
     else Some (res\<lparr> xxpFull := False, xxpStatus := ppresXxpIncomplete \<rparr>))"

definition ProcessUDPHeader :: "parsing_result \<Rightarrow> bytes \<Rightarrow> u32 \<Rightarrow> u16 \<Rightarrow> parsing_result option" where
  "ProcessUDPHeader res ip len hsize = (
     let res = res\<lparr> TcpUdp := ppresIsUDP, XxpIpHeaderSize := ucast (ucast hsize + 8 :: u32) \<rparr> in
     if ucast hsize + 8 \<le> len then do {
       _ \<leftarrow> get16 ip (unat hsize + 4);
       Some (res\<lparr> xxpStatus := ppresXxpKnown, xxpFull := True \<rparr>) }
     else Some (res\<lparr> xxpFull := False, xxpStatus := ppresXxpIncomplete \<rparr>))"

text \<open>
  One iteration of the loop over the IPv6 extension headers: \<open>Inl\<close> is the state of the
  next iteration, \<open>Inr\<close> the state after \<open>bParsingDone\<close>.
\<close>

type_synonym ext_state = "u8 \<times> u16 \<times> parsing_result"

definition is_ip6_extension :: "u8 \<Rightarrow> bool" where
  "is_ip6_extension h \<longleftrightarrow> h \<in> set [0, 60, 43, 44, 51, 50, 135]"

definition qualify_ext :: "bytes \<Rightarrow> u32 \<Rightarrow> u16 \<Rightarrow> ext_state \<Rightarrow> (ext_state + ext_state) option" where
  "qualify_ext ip len full s = (case s of (nextHeader, hsize, res) \<Rightarrow>
     if nextHeader = PROTOCOL_TCP then do {
       res \<leftarrow> ProcessTCPHeader (res\<lparr> xxpStatus := ppresXxpKnown, TcpUdp := ppresIsTCP,
         xxpFull := (ucast full \<le> len) \<rparr>) ip len hsize;
       Some (Inr (nextHeader, hsize, res)) }
     else if nextHeader = PROTOCOL_UDP then do {
       res \<leftarrow> ProcessUDPHeader (res\<lparr> xxpStatus := ppresXxpKnown, TcpUdp := ppresIsUDP,
         xxpFull := (ucast full \<le> len) \<rparr>) ip len hsize;
       Some (Inr (nextHeader, hsize, res)) }
     else if is_ip6_extension nextHeader then
       (if ucast hsize + 8 \<le> len then do {
          next \<leftarrow> get8 ip (unat hsize);
          hlen \<leftarrow> get8 ip (unat hsize + 1);
          Some (Inl (next, hsize + 8 + ucast hlen * 8, res)) }
        else Some (Inr (nextHeader, hsize, res\<lparr> ipStatus := ppresNotIP \<rparr>)))
     else Some (Inr (nextHeader, hsize, res\<lparr> xxpStatus := ppresXxpOther \<rparr>)))"

partial_function (option) qualify_ext_loop ::
  "bytes \<Rightarrow> u32 \<Rightarrow> u16 \<Rightarrow> ext_state \<Rightarrow> ext_state option" where
  "qualify_ext_loop ip len full s = (if fst s = 59 then Some s else do {
     r \<leftarrow> qualify_ext ip len full s;
     case r of Inl s' \<Rightarrow> qualify_ext_loop ip len full s' | Inr s' \<Rightarrow> Some s' })"

definition qualify_ip4 :: "bytes \<Rightarrow> u32 \<Rightarrow> bool \<Rightarrow> u8 \<Rightarrow> parsing_result option" where
  "qualify_ip4 ip len verifyLength ver_len = (
     if len < 20 then Some (zero_result\<lparr> ipStatus := ppresNotIP \<rparr>) else do {
       let hsize = (push_bit 2 (ucast (ver_len AND 0xF)) :: u16);
       ip_length \<leftarrow> get16 ip 2;
       let full = swap_short ip_length;
       if \<not> 20 \<le> hsize then Some (zero_result\<lparr> ipStatus := ppresNotIP \<rparr>)
       else if full \<le> hsize \<or> verifyLength \<and> len < ucast full
       then Some (zero_result\<lparr> ipStatus := ppresIPV4, ipCheckSum := ppresIPTooShort \<rparr>)
       else do {
         ip_offset \<leftarrow> get16 ip 6;
         let res = zero_result\<lparr> ipStatus := ppresIPV4, ipHeaderSize := ucast hsize,
           IsFragment := (ip_offset AND NOT 0xC0 \<noteq> 0) \<rparr>;
         ip_protocol \<leftarrow> get8 ip 9;
         if ip_protocol = PROTOCOL_TCP then ProcessTCPHeader res ip len hsize
         else if ip_protocol = PROTOCOL_UDP then ProcessUDPHeader res ip len hsize
         else Some (res\<lparr> xxpStatus := ppresXxpOther \<rparr>) } })"

definition qualify_ip6 :: "bytes \<Rightarrow> u32 \<Rightarrow> bool \<Rightarrow> parsing_result option" where
  "qualify_ip6 ip len verifyLength = (
     if len < 40 then Some (zero_result\<lparr> ipStatus := ppresNotIP \<rparr>) else do {
       nextHeader \<leftarrow> get8 ip 6;
       let res = zero_result\<lparr> ipStatus := ppresIPV6, ipCheckSum := ppresCSOK \<rparr>;
       payload_len \<leftarrow> get16 ip 4;
       let full = swap_short payload_len + 40;
       if verifyLength \<and> len < ucast full then Some (res\<lparr> ipStatus := ppresNotIP \<rparr>)
       else do {
         (nextHeader, hsize, res) \<leftarrow> qualify_ext_loop ip len full (nextHeader, 40, res);
         if hsize \<le> MAX_SUPPORTED_IPV6_HEADERS \<and> hsize \<le> full
         then Some (res\<lparr> ipHeaderSize := ucast hsize \<rparr>)
         else Some (res\<lparr> ipStatus := ppresNotIP \<rparr>) } })"

definition QualifyIpPacket :: "bytes \<Rightarrow> u32 \<Rightarrow> bool \<Rightarrow> parsing_result option" where
  "QualifyIpPacket ip len verifyLength = (
     if len < 4 then Some (zero_result\<lparr> ipStatus := ppresNotIP \<rparr>) else do {
       ver_len \<leftarrow> get8 ip 0;
       let ip_version = drop_bit 4 (ver_len AND 0xF0);
       if ip_version = 4 then qualify_ip4 ip len verifyLength ver_len
       else if ip_version = 6 then qualify_ip6 ip len verifyLength
       else Some (zero_result\<lparr> ipStatus := ppresNotIP \<rparr>) })"

definition ParaNdis_ReviewIPPacket :: "bytes \<Rightarrow> u32 \<Rightarrow> bool \<Rightarrow> parsing_result option" where
  "ParaNdis_ReviewIPPacket buf len verifyLength = QualifyIpPacket buf len verifyLength"

subsection \<open>Verifying and fixing checksums\<close>

definition GetXxpHeaderAndPayloadLen :: "bytes \<Rightarrow> parsing_result \<Rightarrow> u16 option" where
  "GetXxpHeaderAndPayloadLen ip res = (
     if ipStatus res = ppresIPV4 then do {
       verlen \<leftarrow> get8 ip 0;
       ip_length \<leftarrow> get16 ip 2;
       Some (swap_short ip_length - ucast (IP_HEADER_LENGTH verlen)) }
     else if ipStatus res = ppresIPV6 then do {
       payload_len \<leftarrow> get16 ip 4;
       Some (swap_short payload_len + 40 - ucast (ipHeaderSize res)) }
     else Some 0)"

definition CalculateIpv4PseudoHeaderChecksum :: "bytes \<Rightarrow> u16 \<Rightarrow> u16 option" where
  "CalculateIpv4PseudoHeaderChecksum ip plen = do {
     src \<leftarrow> get_bytes ip 12 4;
     dest \<leftarrow> get_bytes ip 16 4;
     protocol \<leftarrow> get8 ip 9;
     checksum \<leftarrow> CheckSumCalculatorFlat (src @ dest @ [0, protocol] @ bytes16 (swap_short plen)) 12;
     Some (NOT checksum) }"

definition CalculateIpv6PseudoHeaderChecksum :: "bytes \<Rightarrow> u16 \<Rightarrow> u16 option" where
  "CalculateIpv6PseudoHeaderChecksum ip plen = do {
     src \<leftarrow> get_bytes ip 8 16;
     dest \<leftarrow> get_bytes ip 24 16;
     protocol \<leftarrow> get8 ip 6;
     checksum \<leftarrow> CheckSumCalculatorFlat
       (src @ dest @ bytes16 (swap_short plen) @ [0, 0] @ [0, 0, 0, protocol]) 40;
     Some (NOT checksum) }"

definition CalculateIpPseudoHeaderChecksum :: "bytes \<Rightarrow> parsing_result \<Rightarrow> u16 \<Rightarrow> u16 option" where
  "CalculateIpPseudoHeaderChecksum ip res plen = (
     if ipStatus res = ppresIPV4 then CalculateIpv4PseudoHeaderChecksum ip plen
     else if ipStatus res = ppresIPV6 then CalculateIpv6PseudoHeaderChecksum ip plen
     else Some 0)"

definition CompareNetCheckSumOnEndSystem :: "u16 \<Rightarrow> u16 \<Rightarrow> bool" where
  "CompareNetCheckSumOnEndSystem computed arrived \<longleftrightarrow>
     computed = (if arrived = 0xFFFF then 0 else arrived)"

definition CalculateIpChecksum :: "bytes \<Rightarrow> bytes option" where
  "CalculateIpChecksum ip = do {
     ip \<leftarrow> put16 ip 10 0;
     verlen \<leftarrow> get8 ip 0;
     xsum \<leftarrow> CheckSumCalculatorFlat ip (IP_HEADER_LENGTH verlen);
     put16 ip 10 xsum }"

definition VerifyIpChecksum ::
  "bytes \<Rightarrow> parsing_result \<Rightarrow> bool \<Rightarrow> (parsing_result \<times> bytes) option" where
  "VerifyIpChecksum ip known bFix = (
     if ipCheckSum known \<noteq> ppresIPTooShort then do {
       saved \<leftarrow> get16 ip 10;
       ip \<leftarrow> CalculateIpChecksum ip;
       computed \<leftarrow> get16 ip 10;
       let res = known\<lparr> ipCheckSum :=
         (if CompareNetCheckSumOnEndSystem computed saved then ppresCSOK else ppresCSBad) \<rparr>;
       if \<not> bFix then do { ip \<leftarrow> put16 ip 10 saved; Some (res, ip) }
       else Some (res\<lparr> fixedIpCS := (ipCheckSum res = ppresCSBad) \<rparr>, ip) }
     else Some (known, ip))"

text \<open>
  The headers lie in the first page: pointers to header fields are offsets into its memory.
\<close>

definition page0 :: "data_page list \<Rightarrow> bytes option" where
  "page0 pages = map_option page_virtual (nth_opt pages 0)"

definition page0_set :: "data_page list \<Rightarrow> bytes \<Rightarrow> data_page list" where
  "page0_set pages v = pages[0 := (pages ! 0)\<lparr> page_virtual := v \<rparr>]"

definition page0_put16 :: "data_page list \<Rightarrow> nat \<Rightarrow> u16 \<Rightarrow> data_page list option" where
  "page0_put16 pages i w = do { v \<leftarrow> page0 pages; v \<leftarrow> put16 v i w; Some (page0_set pages v) }"

definition CalculateTcpChecksumGivenPseudoCS ::
  "data_page list \<Rightarrow> nat \<Rightarrow> u32 \<Rightarrow> u32 \<Rightarrow> (u16 \<times> data_page list) option" where
  "CalculateTcpChecksumGivenPseudoCS pages xsum start len = do {
     c \<leftarrow> CheckSumCalculator pages start len;
     pages \<leftarrow> page0_put16 pages xsum c;
     Some (c, pages) }"

definition CalculateUdpChecksumGivenPseudoCS ::
  "data_page list \<Rightarrow> nat \<Rightarrow> u32 \<Rightarrow> u32 \<Rightarrow> (u16 \<times> data_page list) option" where
  "CalculateUdpChecksumGivenPseudoCS pages xsum start len = do {
     c \<leftarrow> CheckSumCalculator pages start len;
     pages \<leftarrow> page0_put16 pages xsum c;
     Some (c, pages) }"

definition VerifyTcpChecksum :: "data_page list \<Rightarrow> u32 \<Rightarrow> u32 \<Rightarrow> parsing_result \<Rightarrow> u32 \<Rightarrow>
  (parsing_result \<times> data_page list) option" where
  "VerifyTcpChecksum pages dataLen start known whatToFix = do {
     v \<leftarrow> page0 pages;
     let ip = drop (unat start) v;
     let xsum = unat start + unat (ipHeaderSize known) + 16;
     saved \<leftarrow> get16 v xsum;
     plen \<leftarrow> GetXxpHeaderAndPayloadLen ip known;
     if ucast (ipHeaderSize known) \<le> dataLen then do {
       phcs \<leftarrow> CalculateIpPseudoHeaderChecksum ip known plen;
       let res = known\<lparr> xxpCheckSum :=
         (if CompareNetCheckSumOnEndSystem phcs saved then ppresPCSOK else ppresCSBad) \<rparr>;
       if xxpCheckSum res \<noteq> ppresPCSOK \<or> whatToFix \<noteq> 0 then
         (if whatToFix AND pcrFixPHChecksum \<noteq> 0 then
            (if ucast (ipHeaderSize known) + 20 \<le> dataLen then do {
               pages \<leftarrow> page0_put16 pages xsum phcs;
               Some (res\<lparr> fixedXxpCS := (xxpCheckSum res \<noteq> ppresPCSOK) \<rparr>, pages) }
             else Some (res\<lparr> xxpStatus := ppresXxpIncomplete \<rparr>, pages))
          else if xxpFull res then do {
            pages \<leftarrow> page0_put16 pages xsum phcs;
            (c, pages) \<leftarrow> CalculateTcpChecksumGivenPseudoCS pages xsum
              (start + ucast (ipHeaderSize known)) (ucast plen);
            let res = (if CompareNetCheckSumOnEndSystem c saved
                       then res\<lparr> xxpCheckSum := ppresCSOK \<rparr> else res);
            if whatToFix AND pcrFixXxpChecksum = 0
            then do { pages \<leftarrow> page0_put16 pages xsum saved; Some (res, pages) }
            else Some (res\<lparr> fixedXxpCS :=
              (xxpCheckSum res = ppresCSBad \<or> xxpCheckSum res = ppresPCSOK) \<rparr>, pages) }
          else if whatToFix \<noteq> 0 then Some (res\<lparr> xxpStatus := ppresXxpIncomplete \<rparr>, pages)
          else Some (res, pages))
       else if xxpFull res then do {
         (c, pages) \<leftarrow> CalculateTcpChecksumGivenPseudoCS pages xsum
           (start + ucast (ipHeaderSize known)) (ucast plen);
         let res = (if CompareNetCheckSumOnEndSystem c saved
                    then res\<lparr> xxpCheckSum := ppresCSOK \<rparr> else res);
         pages \<leftarrow> page0_put16 pages xsum saved;
         Some (res, pages) }
       else Some (res, pages) }
     else Some (known\<lparr> ipCheckSum := ppresIPTooShort \<rparr>, pages) }"

definition VerifyUdpChecksum :: "data_page list \<Rightarrow> u32 \<Rightarrow> u32 \<Rightarrow> parsing_result \<Rightarrow> u32 \<Rightarrow>
  (parsing_result \<times> data_page list) option" where
  "VerifyUdpChecksum pages dataLen start known whatToFix = do {
     v \<leftarrow> page0 pages;
     let ip = drop (unat start) v;
     let xsum = unat start + unat (ipHeaderSize known) + 6;
     saved \<leftarrow> get16 v xsum;
     plen \<leftarrow> GetXxpHeaderAndPayloadLen ip known;
     if ucast (ipHeaderSize known) \<le> dataLen then do {
       phcs \<leftarrow> CalculateIpPseudoHeaderChecksum ip known plen;
       let res = known\<lparr> xxpCheckSum :=
         (if CompareNetCheckSumOnEndSystem phcs saved then ppresPCSOK else ppresCSBad) \<rparr>;
       if whatToFix AND pcrFixPHChecksum \<noteq> 0 then
         (if ucast (ipHeaderSize known) + 8 \<le> dataLen then do {
            pages \<leftarrow> page0_put16 pages xsum phcs;
            Some (res\<lparr> fixedXxpCS := (xxpCheckSum res \<noteq> ppresPCSOK) \<rparr>, pages) }
          else Some (res\<lparr> xxpStatus := ppresXxpIncomplete \<rparr>, pages))
       else if xxpCheckSum res \<noteq> ppresPCSOK \<or> whatToFix AND pcrFixXxpChecksum \<noteq> 0 then
         (if xxpFull res then do {
            pages \<leftarrow> page0_put16 pages xsum phcs;
            (c, pages) \<leftarrow> CalculateUdpChecksumGivenPseudoCS pages xsum
              (start + ucast (ipHeaderSize known)) (ucast plen);
            let res = (if CompareNetCheckSumOnEndSystem c saved
                       then res\<lparr> xxpCheckSum := ppresCSOK \<rparr> else res);
            if whatToFix AND pcrFixXxpChecksum = 0
            then do { pages \<leftarrow> page0_put16 pages xsum saved; Some (res, pages) }
            else Some (res\<lparr> fixedXxpCS :=
              (xxpCheckSum res = ppresCSBad \<or> xxpCheckSum res = ppresPCSOK) \<rparr>, pages) }
          else Some (res\<lparr> xxpCheckSum := ppresXxpIncomplete \<rparr>, pages))
       else if xxpFull res then do {
         (c, pages) \<leftarrow> CalculateUdpChecksumGivenPseudoCS pages xsum
           (start + ucast (ipHeaderSize known)) (ucast plen);
         let res = (if CompareNetCheckSumOnEndSystem c saved
                    then res\<lparr> xxpCheckSum := ppresCSOK \<rparr> else res);
         pages \<leftarrow> page0_put16 pages xsum saved;
         Some (res, pages) }
       else Some (res, pages) }
     else Some (known\<lparr> ipCheckSum := ppresIPTooShort \<rparr>, pages) }"

text \<open>
  \<open>ParaNdis_CheckSumVerify\<close>. The flags that reach the transport checksum routines are
  those of the fix the address family and the protocol allow.
\<close>

definition verify_xxp :: "data_page list \<Rightarrow> u32 \<Rightarrow> u32 \<Rightarrow> u32 \<Rightarrow> parsing_result \<Rightarrow>
  u32 \<Rightarrow> u32 \<Rightarrow> u32 \<Rightarrow> u32 \<Rightarrow> (parsing_result \<times> data_page list) option" where
  "verify_xxp pages dataLen start flags res tcpCheck tcpFix udpCheck udpFix = (
     if xxpStatus res = ppresXxpKnown then
       (if TcpUdp res = ppresIsTCP then
          (if flags AND tcpCheck \<noteq> 0
           then VerifyTcpChecksum pages dataLen start res (flags AND (pcrFixPHChecksum OR tcpFix))
           else Some (res, pages))
        else
          (if flags AND udpCheck \<noteq> 0
           then VerifyUdpChecksum pages dataLen start res (flags AND (pcrFixPHChecksum OR udpFix))
           else Some (res, pages)))
     else Some (res, pages))"

definition ParaNdis_CheckSumVerify :: "data_page list \<Rightarrow> u32 \<Rightarrow> u32 \<Rightarrow> u32 \<Rightarrow> bool \<Rightarrow>
  (parsing_result \<times> data_page list) option" where
  "ParaNdis_CheckSumVerify pages dataLen start flags verifyLength = do {
     v \<leftarrow> page0 pages;
     res \<leftarrow> QualifyIpPacket (drop (unat start) v) dataLen verifyLength;
     if ipStatus res = ppresNotIP \<or> ipCheckSum res = ppresIPTooShort then Some (res, pages)
     else if ipStatus res = ppresIPV4 then do {
       (res, pages) \<leftarrow> (if flags AND pcrIpChecksum \<noteq> 0 then do {
            (res, ip) \<leftarrow> VerifyIpChecksum (drop (unat start) v) res (flags AND pcrFixIPChecksum \<noteq> 0);
            Some (res, page0_set pages (take (unat start) v @ ip)) }
          else Some (res, pages));
       verify_xxp pages dataLen start flags res
         pcrTcpV4Checksum pcrFixTcpV4Checksum pcrUdpV4Checksum pcrFixUdpV4Checksum }
     else if ipStatus res = ppresIPV6 then
       verify_xxp pages dataLen start flags res
         pcrTcpV6Checksum pcrFixTcpV6Checksum pcrUdpV6Checksum pcrFixUdpV6Checksum
     else Some (res, pages) }"

definition ParaNdis_CheckSumVerifyFlat ::
  "bytes \<Rightarrow> u32 \<Rightarrow> u32 \<Rightarrow> bool \<Rightarrow> (parsing_result \<times> bytes) option" where
  "ParaNdis_CheckSumVerifyFlat buf dataLen flags verifyLength = do {
     (res, pages) \<leftarrow> ParaNdis_CheckSumVerify [\<lparr> page_virtual = buf, page_size = dataLen \<rparr>]
       dataLen 0 flags verifyLength;
     v \<leftarrow> page0 pages;
     Some (res, v) }"

end
