(* ===== verification/NetPacket.thy ===== *)
theory NetPacket
  imports SwOffload
begin

text \<open>
  The analysis of received Ethernet packets, the second half of
  \<^verbatim>\<open>src/NetKVM/Common/sw_offload.cpp\<close>, and the decisions of the receive
  path that rest on it: the packet filter of
  \<^verbatim>\<open>src/NetKVM/Common/ParaNdis_RX.cpp\<close> and the checksum indication of
  \<^verbatim>\<open>src/NetKVM/Common/ParaNdis_Common.cpp\<close>.

  A receive buffer is a list of bytes; \<open>headersBuffer\<close> and \<open>ethDestAddr\<close>
  are offsets into it. The macros \<open>ETH_IS_BROADCAST\<close> and \<open>ETH_IS_MULTICAST\<close>
  come from the system headers: they are the fields of \<open>eth_macros\<close>, functions of the six
  bytes of the destination address.
\<close>

record eth_macros =
  ETH_IS_BROADCAST :: "bytes \<Rightarrow> bool"
  ETH_IS_MULTICAST :: "bytes \<Rightarrow> bool"

record net_packet_info =
  isBroadcast :: bool
  isMulticast :: bool
  isUnicast :: bool
  hasVlanHeader :: bool
  isIP4 :: bool
  isIP6 :: bool
  isTCP :: bool
  isUDP :: bool
  isFragment :: bool
  UserPriority :: "3 word"
  VlanId :: "12 word"
  RSSHash_Value :: u32
  RSSHash_Type :: u32
  RSSHash_Function :: u32
  L2HdrLen :: u32
  L3HdrLen :: u32
  L2PayloadLen :: u32
  ip6HomeAddrOffset :: u32
  ip6DestAddrOffset :: u32
  ethDestAddr :: nat
  headersBuffer :: nat
  dataLength :: u32

definition zero_packet_info :: net_packet_info where
  "zero_packet_info = \<lparr> isBroadcast = False, isMulticast = False, isUnicast = False,
     hasVlanHeader = False, isIP4 = False, isIP6 = False, isTCP = False, isUDP = False,
     isFragment = False, UserPriority = 0, VlanId = 0, RSSHash_Value = 0, RSSHash_Type = 0,
     RSSHash_Function = 0, L2HdrLen = 0, L3HdrLen = 0, L2PayloadLen = 0, ip6HomeAddrOffset = 0,
     ip6DestAddrOffset = 0, ethDestAddr = 0, headersBuffer = 0, dataLength = 0 \<rparr>"

subsection \<open>Analysis of the Ethernet header\<close>

definition AnalyzeL3Proto :: "u16 \<Rightarrow> net_packet_info \<Rightarrow> net_packet_info" where
  "AnalyzeL3Proto L3Proto info = info\<lparr> isIP4 := (L3Proto = swap_short 0x0800),
     isIP6 := (L3Proto = swap_short 0x86DD) \<rparr>"

definition AnalyzeL2Hdr :: "eth_macros \<Rightarrow> bytes \<Rightarrow> net_packet_info \<Rightarrow>
  (bool \<times> net_packet_info) option" where
  "AnalyzeL2Hdr eth buf info = (let h = headersBuffer info in
     if dataLength info < 14 then Some (False, info) else do {
       let info = info\<lparr> ethDestAddr := h \<rparr>;
       dst \<leftarrow> get_bytes buf h 6;
       let info = (if ETH_IS_BROADCAST eth dst then info\<lparr> isBroadcast := True \<rparr>
                   else if ETH_IS_MULTICAST eth dst then info\<lparr> isMulticast := True \<rparr>
                   else info\<lparr> isUnicast := True \<rparr>);
       t0 \<leftarrow> get8 buf (h + 12);
       t1 \<leftarrow> get8 buf (h + 13);
       if t0 = 0x81 \<and> t1 = 0 then
         (if dataLength info < 18 then Some (False, info) else do {
            v0 \<leftarrow> get8 buf (h + 14);
            v1 \<leftarrow> get8 buf (h + 15);
            proto \<leftarrow> get16 buf (h + 16);
            let info = AnalyzeL3Proto proto (info\<lparr> hasVlanHeader := True,
              UserPriority := ucast (drop_bit 5 (v0 AND 0xE0)),
              VlanId := ucast (push_bit 8 (ucast (v0 AND 0x0F)) OR ucast v1 :: u16),
              L2HdrLen := 18 \<rparr>);
            Some (True, info\<lparr> L2PayloadLen := dataLength info - L2HdrLen info \<rparr>) })
       else do {
         proto \<leftarrow> get16 buf (h + 12);
         let info = AnalyzeL3Proto proto (info\<lparr> L2HdrLen := 14 \<rparr>);
         Some (True, info\<lparr> L2PayloadLen := dataLength info - L2HdrLen info \<rparr>) } })"

subsection \<open>Analysis of the IPv6 extension headers\<close>

text \<open>
  Pointers are offsets from the IPv6 header, which is at the head of \<open>ip6\<close>. A null
  address pointer is \<open>None\<close>.
\<close>

definition SkipIP6ExtensionHeader :: "bytes \<Rightarrow> u32 \<Rightarrow> u32 \<Rightarrow> (u32 \<times> u8) option option" where
  "SkipIP6ExtensionHeader ip6 dataLen hlen = (
     if unat dataLen < unat hlen + 4 then Some None else do {
       next \<leftarrow> get8 ip6 (unat hlen);
       n \<leftarrow> get8 ip6 (unat hlen + 1);
       Some (Some (hlen + (ucast n + 1) * 8, next)) })"

definition AnalyzeIP6RoutingExtension :: "bytes \<Rightarrow> nat \<Rightarrow> u32 \<Rightarrow> (bool \<times> nat option) option" where
  "AnalyzeIP6RoutingExtension ip6 hdr dataLen = (
     if dataLen < 24 then Some (False, None) else do {
       RoutingType \<leftarrow> get8 ip6 (hdr + 2);
       if RoutingType = 2 then do {
         SegmentsLeft \<leftarrow> get8 ip6 (hdr + 3);
         if dataLen \<noteq> 24 \<or> SegmentsLeft \<noteq> 1 then Some (False, None)
         else Some (True, Some (hdr + 8)) }
       else Some (True, None) })"

text \<open>The length of an option is at least one, so the loop over the options ends.\<close>

definition option_at :: "bytes \<Rightarrow> nat \<Rightarrow> u32 \<Rightarrow> nat option \<Rightarrow> (u32 \<times> nat option) option option" where
  "option_at ip6 hdr dataLen home = do {
     opt \<leftarrow> get8 ip6 hdr;
     if opt = 201 then
       (if dataLen < 2 then Some None else do {
          len \<leftarrow> get8 ip6 (hdr + 1);
          if len \<noteq> 16 then Some None else Some (Some (ucast len + 2, Some (hdr + 2))) })
     else if opt = 0 then Some (Some (1, home))
     else (if dataLen < 2 then Some None else do {
       len \<leftarrow> get8 ip6 (hdr + 1);
       Some (Some (ucast len + 2, home)) }) }"

partial_function (option) AnalyzeIP6DestinationExtension ::
  "bytes \<Rightarrow> nat \<Rightarrow> u32 \<Rightarrow> nat option \<Rightarrow> (bool \<times> nat option) option" where
  "AnalyzeIP6DestinationExtension ip6 hdr dataLen home = (
     if dataLen = 0 then Some (True, home) else do {
       r \<leftarrow> option_at ip6 hdr dataLen home;
       case r of None \<Rightarrow> Some (False, home)
       | Some (optionLen, home) \<Rightarrow>
           if dataLen < optionLen then Some (False, home)
           else AnalyzeIP6DestinationExtension ip6 (hdr + unat optionLen) (dataLen - optionLen) home })"

text \<open>
  One iteration of the loop of \<open>AnalyzeIP6Hdr\<close> on the state (\<open>ip6HdrLength\<close>,
  \<open>nextHdr\<close>, \<open>homeAddrOffset\<close>, \<open>destAddrOffset\<close>): \<open>Inr\<close> is the
  value returned with the final state.
\<close>

type_synonym ip6_state = "u32 \<times> u8 \<times> u32 \<times> u32"

definition offset_of :: "nat option \<Rightarrow> u32" where
  "offset_of addr = (case addr of None \<Rightarrow> 0 | Some a \<Rightarrow> of_nat a)"

definition analyze_ip6_ext ::
  "bytes \<Rightarrow> u32 \<Rightarrow> ip6_state \<Rightarrow> (ip6_state + bool \<times> ip6_state) option" where
  "analyze_ip6_ext ip6 dataLen s = (case s of (hlen, nextHdr, home, dest) \<Rightarrow>
     if nextHdr = 60 then do {
       r \<leftarrow> SkipIP6ExtensionHeader ip6 dataLen hlen;
       case r of None \<Rightarrow> Some (Inr (False, s))
       | Some (hlen', next) \<Rightarrow> do {
           (ok, addr) \<leftarrow> AnalyzeIP6DestinationExtension ip6 (unat hlen) (hlen' - hlen) None;
           if \<not> ok then Some (Inr (False, hlen', next, home, dest))
           else Some (Inl (hlen', next, offset_of addr, dest)) } }
     else if nextHdr = 43 then do {
       r \<leftarrow> SkipIP6ExtensionHeader ip6 dataLen hlen;
       case r of None \<Rightarrow> Some (Inr (False, s))
       | Some (hlen', next) \<Rightarrow> do {
           (ok, addr) \<leftarrow> AnalyzeIP6RoutingExtension ip6 (unat hlen) (hlen' - hlen);
           if \<not> ok then Some (Inr (False, hlen', next, home, dest))
           else Some (Inl (hlen', next, home, offset_of addr)) } }
     else if nextHdr = 0 \<or> nextHdr = 51 \<or> nextHdr = 135 then do {
       r \<leftarrow> SkipIP6ExtensionHeader ip6 dataLen hlen;
       case r of None \<Rightarrow> Some (Inr (False, s))
       | Some (hlen', next) \<Rightarrow> Some (Inl (hlen', next, home, dest)) }
     else Some (Inr (True, s)))"

partial_function (option) analyze_ip6_loop :: "bytes \<Rightarrow> u32 \<Rightarrow> ip6_state \<Rightarrow> (bool \<times> ip6_state) option"
  where
  "analyze_ip6_loop ip6 dataLen s = do {
     r \<leftarrow> analyze_ip6_ext ip6 dataLen s;
     case r of Inl s' \<Rightarrow> analyze_ip6_loop ip6 dataLen s' | Inr r \<Rightarrow> Some r }"

definition AnalyzeIP6Hdr :: "bytes \<Rightarrow> u32 \<Rightarrow> (bool \<times> ip6_state) option" where
  "AnalyzeIP6Hdr ip6 dataLen = (
     if dataLen < 40 then Some (False, 40, 0, 0, 0) else do {
       nextHdr \<leftarrow> get8 ip6 6;
       analyze_ip6_loop ip6 dataLen (40, nextHdr, 0, 0) })"

subsection \<open>Analysis of the IP header\<close>

definition AnalyzeL4Proto :: "u8 \<Rightarrow> net_packet_info \<Rightarrow> net_packet_info" where
  "AnalyzeL4Proto l4Protocol info =
     info\<lparr> isTCP := (l4Protocol = PROTOCOL_TCP), isUDP := (l4Protocol = PROTOCOL_UDP) \<rparr>"

definition analyze_ip4 :: "bytes \<Rightarrow> net_packet_info \<Rightarrow> (bool \<times> net_packet_info) option" where
  "analyze_ip4 buf info = (let h = headersBuffer info + unat (L2HdrLen info) in
     if dataLength info < L2HdrLen info + 20 then Some (False, info) else do {
       verlen \<leftarrow> get8 buf h;
       let info = info\<lparr> L3HdrLen := IP_HEADER_LENGTH verlen \<rparr>;
       if L3HdrLen info < 20 \<or> dataLength info < L2HdrLen info + L3HdrLen info
       then Some (False, info)
       else if drop_bit 4 (verlen AND 0xF0) \<noteq> 4 then Some (False, info)
       else do {
         ip_offset \<leftarrow> get16 buf (h + 6);
         let info = info\<lparr> isFragment := (ip_offset AND NOT 0xC0 \<noteq> 0) \<rparr>;
         if \<not> isFragment info then do {
           protocol \<leftarrow> get8 buf (h + 9);
           Some (True, AnalyzeL4Proto protocol info) }
         else Some (True, info) } })"

definition analyze_ip6 :: "bytes \<Rightarrow> net_packet_info \<Rightarrow> (bool \<times> net_packet_info) option" where
  "analyze_ip6 buf info = (let h = headersBuffer info + unat (L2HdrLen info) in do {
     ver \<leftarrow> get8 buf h;
     if drop_bit 4 (ver AND 0xF0) \<noteq> 6 then Some (False, info) else do {
       (ok, hlen, l4Proto, home, dest) \<leftarrow> AnalyzeIP6Hdr (drop h buf) (L2PayloadLen info);
       let info = info\<lparr> L3HdrLen := hlen \<rparr>;
       if \<not> ok then Some (False, info)
       else if MAX_SUPPORTED_IPV6_HEADERS < L3HdrLen info then Some (False, info)
       else do {
         let info = info\<lparr>
           ip6HomeAddrOffset := (if home \<noteq> 0 then L2HdrLen info + home else 0),
           ip6DestAddrOffset := (if dest \<noteq> 0 then L2HdrLen info + dest else 0),
           isFragment := (l4Proto = 44) \<rparr>;
         Some (True, if \<not> isFragment info then AnalyzeL4Proto l4Proto info else info) } } })"

definition AnalyzeL3Hdr :: "bytes \<Rightarrow> net_packet_info \<Rightarrow> (bool \<times> net_packet_info) option" where
  "AnalyzeL3Hdr buf info = (
     if isIP4 info then analyze_ip4 buf info
     else if isIP6 info then analyze_ip6 buf info
     else Some (True, info))"

definition ParaNdis_AnalyzeReceivedPacket ::
  "eth_macros \<Rightarrow> bytes \<Rightarrow> nat \<Rightarrow> u32 \<Rightarrow> (bool \<times> net_packet_info) option" where
  "ParaNdis_AnalyzeReceivedPacket eth buf head dataLen = do {
     (ok, info) \<leftarrow> AnalyzeL2Hdr eth buf
       (zero_packet_info\<lparr> headersBuffer := head, dataLength := dataLen \<rparr>);
     if \<not> ok then Some (False, info) else AnalyzeL3Hdr buf info }"

subsection \<open>Editing a received packet\<close>

text \<open>
  The three double words at the head of the packet move by four bytes, over the priority
  tag. \<open>NETKVM_ASSERT\<close> is empty in the release build.
\<close>

definition ParaNdis_StripVlanHeaderMoveHead ::
  "bytes \<Rightarrow> net_packet_info \<Rightarrow> (u32 \<times> bytes \<times> net_packet_info) option" where
  "ParaNdis_StripVlanHeaderMoveHead buf info = (let h = headersBuffer info in do {
     d2 \<leftarrow> get_bytes buf (h + 8) 4;
     buf \<leftarrow> (if h + 16 \<le> length buf then Some (take (h + 12) buf @ d2 @ drop (h + 16) buf) else None);
     d1 \<leftarrow> get_bytes buf (h + 4) 4;
     let buf = take (h + 8) buf @ d1 @ drop (h + 12) buf;
     d0 \<leftarrow> get_bytes buf h 4;
     let buf = take (h + 4) buf @ d0 @ drop (h + 8) buf;
     Some (4, buf, info\<lparr> headersBuffer := h + 4, dataLength := dataLength info - 4, L2HdrLen := 14,
       ethDestAddr := ethDestAddr info + 4, ip6DestAddrOffset := ip6DestAddrOffset info - 4,
       ip6HomeAddrOffset := ip6HomeAddrOffset info - 4 \<rparr>) })"

definition ParaNdis_PadPacketToMinimalLength ::
  "bytes \<Rightarrow> net_packet_info \<Rightarrow> (bytes \<times> net_packet_info) option" where
  "ParaNdis_PadPacketToMinimalLength buf info = (
     if dataLength info < 60 then
       (let at = headersBuffer info + unat (dataLength info); n = unat (60 - dataLength info) in
        if at + n \<le> length buf
        then Some (take at buf @ replicate n 0 @ drop (at + n) buf, info\<lparr> dataLength := 60 \<rparr>)
        else None)
     else Some (buf, info))"

subsection \<open>The receive filter\<close>

text \<open>
  The fields of the adapter the filter reads. The filter bits \<open>NDIS_PACKET_TYPE_*\<close> come from
  the system headers and are fields of \<open>ndis_filter\<close>. The comparison of
  network addresses is the one of \<^verbatim>\<open>ethernetutils.h\<close> for ARM64: all six
  bytes are compared.
\<close>

record ndis_filter =
  TYPE_PROMISCUOUS :: u32
  TYPE_DIRECTED :: u32
  TYPE_BROADCAST :: u32
  TYPE_ALL_MULTICAST :: u32
  TYPE_MULTICAST :: u32

record rx_filter =
  nMaxFullSizeOsRx :: u32
  ulPriorityVlanSetting :: u32
  adapter_VlanId :: u32
  PacketFilter :: u32
  CurrentMacAddress :: bytes
  nofMulticastEntries :: u32
  MulticastList :: bytes

definition IsVlanSupported :: "rx_filter \<Rightarrow> bool" where
  "IsVlanSupported ctx \<longleftrightarrow> ulPriorityVlanSetting ctx AND 2 \<noteq> 0"

fun multicast_scan :: "nat \<Rightarrow> nat \<Rightarrow> bytes \<Rightarrow> bytes \<Rightarrow> bool option" where
  "multicast_scan 0 i list addr = Some False"
| "multicast_scan (Suc n) i list addr = do {
     a \<leftarrow> get_bytes list (i * 6) 6;
     if a = addr then Some True else multicast_scan n (Suc i) list addr }"

definition ShallPassPacket ::
  "ndis_filter \<Rightarrow> rx_filter \<Rightarrow> bytes \<Rightarrow> net_packet_info \<Rightarrow> bool option" where
  "ShallPassPacket ndis ctx buf info = (
     if nMaxFullSizeOsRx ctx + 4 < dataLength info then Some False
     else if nMaxFullSizeOsRx ctx < dataLength info \<and> \<not> hasVlanHeader info then Some False
     else if IsVlanSupported ctx \<and> hasVlanHeader info \<and> adapter_VlanId ctx \<noteq> 0 \<and>
       adapter_VlanId ctx \<noteq> ucast (VlanId info) then Some False
     else if PacketFilter ctx AND TYPE_PROMISCUOUS ndis \<noteq> 0 then Some True
     else if isUnicast info then
       (if PacketFilter ctx AND TYPE_DIRECTED ndis = 0 then Some False else do {
          addr \<leftarrow> get_bytes buf (ethDestAddr info) 6;
          Some (addr = CurrentMacAddress ctx) })
     else if isBroadcast info then Some (PacketFilter ctx AND TYPE_BROADCAST ndis \<noteq> 0)
     else if PacketFilter ctx AND TYPE_ALL_MULTICAST ndis \<noteq> 0 then Some True
     else if PacketFilter ctx AND TYPE_MULTICAST ndis = 0 then Some False
     else do {
       addr \<leftarrow> get_bytes buf (ethDestAddr info) 6;
       multicast_scan (unat (nofMulticastEntries ctx)) 0 (MulticastList ctx) addr })"

subsection \<open>Receive checksum indication\<close>

record rx_offload =
  fRxIPChecksum :: bool
  fRxTCPChecksum :: bool
  fRxUDPChecksum :: bool
  fRxTCPv6Checksum :: bool
  fRxUDPv6Checksum :: bool

record checksum_result =
  TcpFailed :: bool
  UdpFailed :: bool
  IpFailed :: bool
  TcpOK :: bool
  UdpOK :: bool
  IpOK :: bool

definition zero_checksum_result :: checksum_result where
  "zero_checksum_result = \<lparr> TcpFailed = False, UdpFailed = False, IpFailed = False,
     TcpOK = False, UdpOK = False, IpOK = False \<rparr>"

definition rx_checksum_flags :: "rx_offload \<Rightarrow> u32 \<Rightarrow> u32" where
  "rx_checksum_flags f virtioFlags =
     (if fRxIPChecksum f then pcrIpChecksum else 0) OR
     (if virtioFlags AND 2 \<noteq> 0 then 0
      else if virtioFlags AND 1 \<noteq> 0 then pcrFixXxpChecksum OR pcrTcpChecksum OR pcrUdpChecksum
      else (if fRxTCPChecksum f then pcrTcpV4Checksum else 0) OR
           (if fRxUDPChecksum f then pcrUdpV4Checksum else 0) OR
           (if fRxTCPv6Checksum f then pcrTcpV6Checksum else 0) OR
           (if fRxUDPv6Checksum f then pcrUdpV6Checksum else 0))"

definition rx_xxp_result :: "parsing_result \<Rightarrow> bool \<Rightarrow> bool \<Rightarrow> checksum_result \<Rightarrow> checksum_result" where
  "rx_xxp_result ppr checkTcp checkUdp res = (
     if xxpStatus ppr = ppresXxpKnown then
       (let ok = (xxpCheckSum ppr = ppresCSOK \<or> fixedXxpCS ppr) in
        if TcpUdp ppr = ppresIsTCP
        then (if checkTcp then res\<lparr> TcpOK := ok, TcpFailed := \<not> ok \<rparr> else res)
        else (if checkUdp then res\<lparr> UdpOK := ok, UdpFailed := \<not> ok \<rparr> else res))
     else res)"

text \<open>
  The result carries the pages, which the checksum fix writes, and the increment of
  \<open>framesRxCSHwOK\<close>.
\<close>

definition ParaNdis_CheckRxChecksum :: "rx_offload \<Rightarrow> u32 \<Rightarrow> data_page list \<Rightarrow> net_packet_info \<Rightarrow>
  u32 \<Rightarrow> bool \<Rightarrow> (checksum_result \<times> u32 \<times> data_page list) option" where
  "ParaNdis_CheckRxChecksum f virtioFlags pages info ulDataOffset verifyLength = do {
     (ppr, pages) \<leftarrow> (if isIP4 info \<or> isIP6 info
       then ParaNdis_CheckSumVerify pages (dataLength info - 14) (ulDataOffset + 14)
              (rx_checksum_flags f virtioFlags) verifyLength
       else Some (zero_result\<lparr> ipStatus := ppresNotIP \<rparr>, pages));
     if ipCheckSum ppr = ppresIPTooShort \<or> xxpStatus ppr = ppresXxpIncomplete
     then Some (zero_checksum_result\<lparr> IpOK := False, IpFailed := True \<rparr>, 0, pages)
     else do {
       let hwOK = (if virtioFlags AND 2 \<noteq> 0 then 1 else 0);
       let ppr = (if virtioFlags AND 2 \<noteq> 0 then ppr\<lparr> xxpCheckSum := ppresCSOK \<rparr> else ppr);
       if ipStatus ppr = ppresIPV4 \<and> \<not> IsFragment ppr then do {
         let res = (if fRxIPChecksum f
           then zero_checksum_result\<lparr> IpOK := (ipCheckSum ppr = ppresCSOK),
                  IpFailed := (ipCheckSum ppr = ppresCSBad) \<rparr>
           else zero_checksum_result);
         Some (rx_xxp_result ppr (fRxTCPChecksum f) (fRxUDPChecksum f) res, hwOK, pages) }
       else if ipStatus ppr = ppresIPV6
       then Some (rx_xxp_result ppr (fRxTCPv6Checksum f) (fRxUDPv6Checksum f) zero_checksum_result,
              hwOK, pages)
       else Some (zero_checksum_result, hwOK, pages) } }"

text \<open>
  The number of segments of a coalesced packet. A division by zero is \<open>None\<close>.
\<close>

definition PktGetTCPCoalescedSegmentsCount ::
  "u32 \<Rightarrow> bytes \<Rightarrow> net_packet_info \<Rightarrow> u32 \<Rightarrow> u32 option" where
  "PktGetTCPCoalescedSegmentsCount nMaxDataSize buf info mss = do {
     tcp_flags \<leftarrow> get16 buf (headersBuffer info + unat (L2HdrLen info + L3HdrLen info) + 12);
     let hdrs = L3HdrLen info + TCP_HEADER_LENGTH tcp_flags;
     let payloadLen = L2PayloadLen info - hdrs;
     let maxMss = nMaxDataSize - hdrs;
     let mss = (if maxMss < mss \<or> mss = 0 then maxMss else mss);
     if mss = 0 then None
     else Some (payloadLen div mss + (if payloadLen mod mss \<noteq> 0 then 1 else 0)) }"

end
