(* ===== verification/NetRss.thy ===== *)
theory NetRss
  imports NetPacket
begin

text \<open>
  Receive side scaling of the network driver,
  \<^verbatim>\<open>src/NetKVM/wlh/ParaNdis6_RSS.cpp\<close> with the types of
  \<^verbatim>\<open>src/NetKVM/Common/ParaNdis-RSS.h\<close>: the Toeplitz hash of a packet, the
  table that maps hash values to receive queues, and the requests that configure them. The
  build modelled has all NDIS versions enabled.

  The constants and structure sizes of the NDIS headers are the fields of \<open>ndis_rss\<close>; the
  processor topology and the outcomes of allocations are the fields of \<open>rss_env\<close>. Locks
  are not modelled: every operation runs under the lock it takes.
\<close>

subsection \<open>State\<close>

record processor_number =
  Group :: u16
  Number :: u8
  Reserved :: u8

record ndis_rss =
  NDIS_HASH_IPV4 :: u32
  NDIS_HASH_TCP_IPV4 :: u32
  NDIS_HASH_UDP_IPV4 :: u32
  NDIS_HASH_IPV6 :: u32
  NDIS_HASH_IPV6_EX :: u32
  NDIS_HASH_TCP_IPV6 :: u32
  NDIS_HASH_TCP_IPV6_EX :: u32
  NDIS_HASH_UDP_IPV6 :: u32
  NDIS_HASH_UDP_IPV6_EX :: u32
  NdisHashFunctionToeplitz :: u32
  HASH_TYPE_FROM_HASH_INFO :: "u32 \<Rightarrow> u32"
  HASH_FUNC_FROM_HASH_INFO :: "u32 \<Rightarrow> u32"
  FLAG_HASH_INFO_UNCHANGED :: u16
  FLAG_HASH_KEY_UNCHANGED :: u16
  FLAG_ITABLE_UNCHANGED :: u16
  FLAG_DISABLE_RSS :: u16
  FLAG_DEFAULT_PROCESSOR_UNCHANGED :: u16
  HASH_FLAG_ENABLE_HASH :: u32
  HASH_FLAG_HASH_INFO_UNCHANGED :: u32
  HASH_FLAG_HASH_KEY_UNCHANGED :: u32
  PARAMETERS_REVISION_2 :: u8
  PARAMETERS_REVISION_3 :: u8
  sizeof_header :: u32
  sizeof_params_rev2 :: u32
  sizeof_params_rev3 :: u32
  sizeof_params :: u32
  sizeof_hash_params :: u32
  SECRET_KEY_MAX_SIZE :: u32
  INDIRECTION_TABLE_MAX_SIZE :: u32
  INVALID_PROCESSOR_INDEX :: u32
  CheckNdisVersion_6_80 :: bool

record group_affinity =
  aff_Group :: u16
  aff_Mask :: u64

record rss_env =
  ProcessorCount :: u32
  KeGetProcessorIndexFromNumber :: "processor_number \<Rightarrow> u32"
  KeGetProcessorNumberFromIndex :: "u32 \<Rightarrow> processor_number option"
  CPUIndexOfAffinity :: "group_affinity \<Rightarrow> u32"
  alloc_cpu_mapping :: bool
  alloc_cpu_index_table :: bool
  alloc_queue_map :: bool
  alloc_rss_config :: "u32 \<Rightarrow> bytes option"

datatype rss_mode = PARANDIS_RSS_DISABLED | PARANDIS_RSS_HASHING | PARANDIS_RSS_FULL

datatype ndis_status =
    NDIS_STATUS_SUCCESS
  | NDIS_STATUS_RESOURCES
  | NDIS_STATUS_SOFT_ERRORS
  | NDIS_STATUS_INVALID_LENGTH
  | NDIS_STATUS_INVALID_PARAMETER
  | NDIS_STATUS_NOT_SUPPORTED

text \<open>Queue numbers are signed characters in the source.\<close>

abbreviation (input) "PARANDIS_FIRST_RSS_RECEIVE_QUEUE \<equiv> 0"
abbreviation (input) "PARANDIS_RECEIVE_UNCLASSIFIED_PACKET \<equiv> - 1"
abbreviation (input) "PARANDIS_RECEIVE_NO_QUEUE \<equiv> - 2"
abbreviation (input) "INVALID_INDIRECTION_INDEX \<equiv> - 1"

record hashing_settings =
  HashInformation :: u32
  HashSecretKey :: bytes
  HashSecretKeySize :: u16

record scaling_settings =
  IndirectionTable :: bytes
  IndirectionTableSize :: u16
  QueueIndirectionTable :: "u8 list"
  RSSHashMask :: u32
  CPUIndexMapping :: "u8 list option"
  CPUIndexMappingSize :: u32
  FirstQueueIndirectionIndex :: u32
  DefaultProcessor :: processor_number
  DefaultQueue :: u8

record rss_params =
  ReceiveQueuesNumber :: u8
  RSSMode :: rss_mode
  ReceiveHashingSettings :: hashing_settings
  RSSHashingSettings :: hashing_settings
  RSSScalingSettings :: scaling_settings
  ActiveHashingSettings :: hashing_settings
  ActiveRSSScalingSettings :: scaling_settings

text \<open>
  The part of the adapter that the RSS code reads and writes. A receive buffer is the index of
  the path bundle that owns it with a name; \<open>ReceiveQueues\<close> are the queues
  the classification fills and \<open>UnclassifiedQueues\<close> those of the path bundles;
  \<open>ControlMessages\<close> is the history of the commands sent to the device.
\<close>

record rss_adapter =
  RSSParameters :: rss_params
  PathBundles :: "group_affinity list"
  bRSSSupportedByDevice :: bool
  bRSSSupportedByDevicePersistent :: bool
  bHashReportedByDevice :: bool
  bPollModeEnabled :: bool
  RSS2QueueLength :: u16
  RSS2QueueMap :: "nat list option"
  ReceiveQueues :: "(nat \<times> nat) list list"
  UnclassifiedQueues :: "(nat \<times> nat) list list"
  ControlMessages :: "(u8 \<times> u8 \<times> bytes) list"
  PollAffinityUpdates :: nat

subsection \<open>The Toeplitz hash\<close>

fun toeplitz_bits :: "nat list \<Rightarrow> u8 \<Rightarrow> u8 \<Rightarrow> u32 \<times> u32 \<Rightarrow> u32 \<times> u32" where
  "toeplitz_bits [] data key (word, res) = (word, res)"
| "toeplitz_bits (b # bs) data key (word, res) =
     toeplitz_bits bs data key
       (push_bit 1 word OR ucast (drop_bit (7 - b) key AND 1),
        if data AND push_bit (7 - b) 1 \<noteq> 0 then res XOR word else res)"

fun toeplitz_bytes :: "bytes \<Rightarrow> bytes \<Rightarrow> nat \<Rightarrow> u32 \<times> u32 \<Rightarrow> (nat \<times> u32 \<times> u32) option" where
  "toeplitz_bytes [] key next s = Some (next, s)"
| "toeplitz_bytes (d # ds) key next s = do {
     k \<leftarrow> get8 key next;
     toeplitz_bytes ds key (next + 1) (toeplitz_bits [0..<8] d k s) }"

fun toeplitz_chunks :: "bytes list \<Rightarrow> bytes \<Rightarrow> nat \<Rightarrow> u32 \<times> u32 \<Rightarrow> u32 option" where
  "toeplitz_chunks [] key next s = Some (snd s)"
| "toeplitz_chunks (c # cs) key next s = do {
     (next, s) \<leftarrow> toeplitz_bytes c key next s;
     toeplitz_chunks cs key next s }"

definition ToeplitzHash :: "bytes list \<Rightarrow> bytes \<Rightarrow> u32 option" where
  "ToeplitzHash sgBuff fullKey = do {
     a \<leftarrow> get8 fullKey 0; b \<leftarrow> get8 fullKey 1; c \<leftarrow> get8 fullKey 2; d \<leftarrow> get8 fullKey 3;
     toeplitz_chunks sgBuff fullKey 4 (le32 d c b a, 0) }"

subsection \<open>Hashing a packet\<close>

definition GetIP6SrcAddrForHash :: "bytes \<Rightarrow> net_packet_info \<Rightarrow> bool \<Rightarrow> bytes option" where
  "GetIP6SrcAddrForHash data info xEnabled =
     (if xEnabled \<and> ip6HomeAddrOffset info \<noteq> 0
      then get_bytes data (unat (ip6HomeAddrOffset info)) 16
      else get_bytes data (unat (L2HdrLen info + 8)) 16)"

definition GetIP6DstAddrForHash :: "bytes \<Rightarrow> net_packet_info \<Rightarrow> bool \<Rightarrow> bytes option" where
  "GetIP6DstAddrForHash data info xEnabled =
     (if xEnabled \<and> ip6DestAddrOffset info \<noteq> 0
      then get_bytes data (unat (ip6DestAddrOffset info)) 16
      else get_bytes data (unat (L2HdrLen info + 24)) 16)"

definition set_hash :: "ndis_rss \<Rightarrow> net_packet_info \<Rightarrow> u32 \<Rightarrow> u32 \<Rightarrow> net_packet_info" where
  "set_hash ndis info v t = info\<lparr> RSSHash_Value := v, RSSHash_Type := t,
     RSSHash_Function := NdisHashFunctionToeplitz ndis \<rparr>"

text \<open>
  Hashing of a packet with ports (\<open>hash_xxp4\<close>, \<open>hash_xxp6\<close>: the chunks are the
  two addresses and the two ports that begin the TCP or UDP header) and without them.
\<close>

definition hash_xxp4 :: "ndis_rss \<Rightarrow> bytes \<Rightarrow> bytes \<Rightarrow> net_packet_info \<Rightarrow> u32 \<Rightarrow> net_packet_info option"
  where
  "hash_xxp4 ndis key data info type = do {
     addrs \<leftarrow> get_bytes data (unat (L2HdrLen info) + 12) 8;
     ports \<leftarrow> get_bytes data (unat (L2HdrLen info) + unat (L3HdrLen info)) 4;
     v \<leftarrow> ToeplitzHash [addrs, ports] key;
     Some (set_hash ndis info v type) }"

definition hash_ip4 :: "ndis_rss \<Rightarrow> bytes \<Rightarrow> bytes \<Rightarrow> net_packet_info \<Rightarrow> net_packet_info option" where
  "hash_ip4 ndis key data info = do {
     addrs \<leftarrow> get_bytes data (unat (L2HdrLen info + 12)) 8;
     v \<leftarrow> ToeplitzHash [addrs] key;
     Some (set_hash ndis info v (NDIS_HASH_IPV4 ndis)) }"

definition hash_xxp6 :: "ndis_rss \<Rightarrow> bytes \<Rightarrow> bytes \<Rightarrow> net_packet_info \<Rightarrow> bool \<Rightarrow> u32 \<Rightarrow> u32 \<Rightarrow>
  net_packet_info option" where
  "hash_xxp6 ndis key data info xEnabled typeEx type = do {
     src \<leftarrow> GetIP6SrcAddrForHash data info xEnabled;
     dst \<leftarrow> GetIP6DstAddrForHash data info xEnabled;
     ports \<leftarrow> get_bytes data (unat (L2HdrLen info) + unat (L3HdrLen info)) 4;
     v \<leftarrow> ToeplitzHash [src, dst, ports] key;
     Some (set_hash ndis info v (if xEnabled then typeEx else type)) }"

definition hash_ip6 :: "ndis_rss \<Rightarrow> bytes \<Rightarrow> bytes \<Rightarrow> net_packet_info \<Rightarrow> bool \<Rightarrow> net_packet_info option"
  where
  "hash_ip6 ndis key data info xEnabled = do {
     src \<leftarrow> GetIP6SrcAddrForHash data info xEnabled;
     dst \<leftarrow> GetIP6DstAddrForHash data info xEnabled;
     v \<leftarrow> ToeplitzHash [src, dst] key;
     Some (set_hash ndis info v (if xEnabled then NDIS_HASH_IPV6_EX ndis else NDIS_HASH_IPV6 ndis)) }"

definition RSSCalcHash_Unsafe ::
  "ndis_rss \<Rightarrow> rss_params \<Rightarrow> bytes \<Rightarrow> net_packet_info \<Rightarrow> net_packet_info option" where
  "RSSCalcHash_Unsafe ndis rss data info = (
     let hs = ActiveHashingSettings rss;
         types = HASH_TYPE_FROM_HASH_INFO ndis (HashInformation hs);
         key = HashSecretKey hs;
         none = info\<lparr> RSSHash_Value := 0, RSSHash_Type := 0, RSSHash_Function := 0 \<rparr>
     in
     if isIP4 info then
       (if isTCP info \<and> types AND NDIS_HASH_TCP_IPV4 ndis \<noteq> 0
        then hash_xxp4 ndis key data info (NDIS_HASH_TCP_IPV4 ndis)
        else if isUDP info \<and> types AND NDIS_HASH_UDP_IPV4 ndis \<noteq> 0
        then hash_xxp4 ndis key data info (NDIS_HASH_UDP_IPV4 ndis)
        else if types AND NDIS_HASH_IPV4 ndis \<noteq> 0 then hash_ip4 ndis key data info
        else Some none)
     else if isIP6 info then
       (if isTCP info \<and> types AND (NDIS_HASH_TCP_IPV6 ndis OR NDIS_HASH_TCP_IPV6_EX ndis) \<noteq> 0
        then hash_xxp6 ndis key data info (types AND NDIS_HASH_TCP_IPV6_EX ndis \<noteq> 0)
               (NDIS_HASH_TCP_IPV6_EX ndis) (NDIS_HASH_TCP_IPV6 ndis)
        else if isUDP info \<and> types AND (NDIS_HASH_UDP_IPV6 ndis OR NDIS_HASH_UDP_IPV6_EX ndis) \<noteq> 0
        then hash_xxp6 ndis key data info (types AND NDIS_HASH_UDP_IPV6_EX ndis \<noteq> 0)
               (NDIS_HASH_UDP_IPV6_EX ndis) (NDIS_HASH_UDP_IPV6 ndis)
        else if types AND (NDIS_HASH_IPV6 ndis OR NDIS_HASH_IPV6_EX ndis) \<noteq> 0
        then hash_ip6 ndis key data info (types AND NDIS_HASH_IPV6_EX ndis \<noteq> 0)
        else Some none)
     else Some none)"

definition ParaNdis6_RSSAnalyzeReceivedPacket ::
  "ndis_rss \<Rightarrow> rss_params \<Rightarrow> bytes \<Rightarrow> net_packet_info \<Rightarrow> net_packet_info option" where
  "ParaNdis6_RSSAnalyzeReceivedPacket ndis rss data info = (
     if RSSMode rss \<noteq> PARANDIS_RSS_DISABLED then RSSCalcHash_Unsafe ndis rss data info
     else Some info)"

subsection \<open>The queue of a packet\<close>

definition proc_at :: "bytes \<Rightarrow> nat \<Rightarrow> processor_number option" where
  "proc_at table i = do {
     g \<leftarrow> get16 table (4 * i);
     n \<leftarrow> get8 table (4 * i + 2);
     r \<leftarrow> get8 table (4 * i + 3);
     Some \<lparr> Group = g, Number = n, Reserved = r \<rparr> }"

text \<open>The target queue, and the target processor where the routine writes it.\<close>

definition ParaNdis6_RSSGetScalingDataForPacket ::
  "rss_params \<Rightarrow> net_packet_info \<Rightarrow> (u8 \<times> processor_number option) option" where
  "ParaNdis6_RSSGetScalingDataForPacket rss info = (let s = ActiveRSSScalingSettings rss in
     if RSSMode rss \<noteq> PARANDIS_RSS_FULL \<or> FirstQueueIndirectionIndex s = INVALID_INDIRECTION_INDEX
     then Some (PARANDIS_RECEIVE_UNCLASSIFIED_PACKET, None)
     else if RSSHash_Type info = 0 then Some (DefaultQueue s, Some (DefaultProcessor s))
     else do {
       let i = RSSHash_Value info AND RSSHashMask s;
       q \<leftarrow> rd (QueueIndirectionTable s) i;
       if q = PARANDIS_RECEIVE_NO_QUEUE then Some (PARANDIS_RECEIVE_UNCLASSIFIED_PACKET, None)
       else do {
         p \<leftarrow> proc_at (IndirectionTable s) (unat i);
         Some (q, Some p) } })"

definition FindReceiveQueueForCurrentCpu :: "scaling_settings \<Rightarrow> u32 \<Rightarrow> u8 option" where
  "FindReceiveQueueForCurrentCpu s cpu = (
     if CPUIndexMappingSize s \<le> cpu then Some PARANDIS_RECEIVE_NO_QUEUE
     else do { m \<leftarrow> CPUIndexMapping s; rd m cpu })"

definition ParaNdis6_RSSGetCurrentCpuReceiveQueue :: "rss_params \<Rightarrow> u32 \<Rightarrow> u8 option" where
  "ParaNdis6_RSSGetCurrentCpuReceiveQueue rss cpu = (
     if RSSMode rss \<noteq> PARANDIS_RSS_FULL then Some PARANDIS_RECEIVE_NO_QUEUE
     else FindReceiveQueueForCurrentCpu (ActiveRSSScalingSettings rss) cpu)"

subsection \<open>Settings\<close>

definition ApplySettings :: "rss_params \<Rightarrow> rss_mode \<Rightarrow> hashing_settings option \<Rightarrow>
  scaling_settings option \<Rightarrow> rss_params" where
  "ApplySettings rss mode hashing scaling = (
     let rss = rss\<lparr> RSSMode := mode \<rparr>;
         rss = (if mode \<noteq> PARANDIS_RSS_DISABLED
                then (case hashing of None \<Rightarrow> rss | Some h \<Rightarrow> rss\<lparr> ActiveHashingSettings := h \<rparr>)
                else rss)
     in (if mode = PARANDIS_RSS_FULL
         then (case scaling of None \<Rightarrow> rss | Some s \<Rightarrow> rss\<lparr> ActiveRSSScalingSettings := s,
                 RSSScalingSettings := (RSSScalingSettings rss)\<lparr> CPUIndexMapping := None \<rparr> \<rparr>)
         else rss))"

definition InitRSSParameters :: "u8 \<Rightarrow> rss_params \<Rightarrow> rss_params" where
  "InitRSSParameters RSSMaxQueuesNumber rss = rss\<lparr> ReceiveQueuesNumber := RSSMaxQueuesNumber,
     RSSScalingSettings := (RSSScalingSettings rss)\<lparr>
       DefaultQueue := PARANDIS_RECEIVE_UNCLASSIFIED_PACKET \<rparr>,
     ActiveRSSScalingSettings := (ActiveRSSScalingSettings rss)\<lparr>
       DefaultQueue := PARANDIS_RECEIVE_UNCLASSIFIED_PACKET \<rparr> \<rparr>"

definition CleanupRSSParameters :: "rss_params \<Rightarrow> u8 list list" where
  "CleanupRSSParameters rss =
     (case CPUIndexMapping (ActiveRSSScalingSettings rss) of None \<Rightarrow> [] | Some m \<Rightarrow> [m]) @
     (case CPUIndexMapping (RSSScalingSettings rss) of None \<Rightarrow> [] | Some m \<Rightarrow> [m])"

definition ParaNdis6_CheckDeviceRSSCapabilities ::
  "ndis_rss \<Rightarrow> u32 \<Rightarrow> u8 \<Rightarrow> u16 \<Rightarrow> bool \<times> bool \<Rightarrow> bool \<times> bool" where
  "ParaNdis6_CheckDeviceRSSCapabilities ndis SupportedHashes MaxKeySize MaxIndirectEntries b = (
     case b of (bRss, bHash) \<Rightarrow>
     let bResult = (SupportedHashes AND 1 \<noteq> 0 \<and> SECRET_KEY_MAX_SIZE ndis \<le> ucast MaxKeySize);
         (bRss, bHash) = (if \<not> bResult then (False, False) else (bRss, bHash));
         bResult = (bResult \<and> INDIRECTION_TABLE_MAX_SIZE ndis div 4 \<le> ucast MaxIndirectEntries)
     in (if \<not> bResult then (False, bHash) else (bRss, bHash)))"

definition TranslateHashTypes :: "ndis_rss \<Rightarrow> u32 \<Rightarrow> u32" where
  "TranslateHashTypes ndis hs =
     (if hs AND NDIS_HASH_IPV4 ndis \<noteq> 0 then 1 else 0) OR
     (if hs AND NDIS_HASH_TCP_IPV4 ndis \<noteq> 0 then 2 else 0) OR
     (if hs AND NDIS_HASH_IPV6 ndis \<noteq> 0 then 8 else 0) OR
     (if hs AND NDIS_HASH_IPV6_EX ndis \<noteq> 0 then 64 else 0) OR
     (if hs AND NDIS_HASH_TCP_IPV6 ndis \<noteq> 0 then 16 else 0) OR
     (if hs AND NDIS_HASH_TCP_IPV6_EX ndis \<noteq> 0 then 128 else 0) OR
     (if hs AND NDIS_HASH_UDP_IPV4 ndis \<noteq> 0 then 4 else 0) OR
     (if hs AND NDIS_HASH_UDP_IPV6 ndis \<noteq> 0 then 32 else 0) OR
     (if hs AND NDIS_HASH_UDP_IPV6_EX ndis \<noteq> 0 then 256 else 0)"

definition IsValidHashInfo :: "ndis_rss \<Rightarrow> u32 \<Rightarrow> bool" where
  "IsValidHashInfo ndis HashInfo = (
     let t = HASH_TYPE_FROM_HASH_INFO ndis HashInfo;
         allowed = NDIS_HASH_IPV4 ndis OR NDIS_HASH_TCP_IPV4 ndis OR NDIS_HASH_IPV6 ndis OR
           NDIS_HASH_TCP_IPV6 ndis OR NDIS_HASH_IPV6_EX ndis OR NDIS_HASH_TCP_IPV6_EX ndis OR
           NDIS_HASH_UDP_IPV4 ndis OR NDIS_HASH_UDP_IPV6 ndis OR NDIS_HASH_UDP_IPV6_EX ndis
     in if HashInfo = 0 then True
        else if t AND allowed \<noteq> 0 \<and> t AND NOT allowed = 0
        then HASH_FUNC_FROM_HASH_INFO ndis HashInfo = NdisHashFunctionToeplitz ndis
        else False)"

definition IsPowerOfTwo :: "u32 \<Rightarrow> bool" where
  "IsPowerOfTwo n \<longleftrightarrow> n \<noteq> 0 \<and> n AND (NOT n + 1) = n"

definition SetDefaultQueue :: "rss_env \<Rightarrow> scaling_settings \<Rightarrow> u32 \<Rightarrow> scaling_settings option" where
  "SetDefaultQueue env s idx = (
     case (if idx < CPUIndexMappingSize s then KeGetProcessorNumberFromIndex env idx else None) of
       Some p \<Rightarrow> do {
         m \<leftarrow> CPUIndexMapping s;
         q \<leftarrow> rd m idx;
         Some (s\<lparr> DefaultProcessor := p, DefaultQueue := q \<rparr>) }
     | None \<Rightarrow> Some (s\<lparr> DefaultQueue := PARANDIS_RECEIVE_UNCLASSIFIED_PACKET \<rparr>))"

definition AllocateCPUMappingArray :: "rss_env \<Rightarrow> scaling_settings \<Rightarrow> scaling_settings option" where
  "AllocateCPUMappingArray env s = (if alloc_cpu_mapping env
     then Some (s\<lparr> CPUIndexMapping := Some (replicate (unat (ProcessorCount env)) PARANDIS_RECEIVE_NO_QUEUE),
                 CPUIndexMappingSize := ProcessorCount env \<rparr>)
     else None)"

text \<open>
  \<open>FillCPUMappingArray\<close>: one entry of the first pass, with the next free queue, and of the
  second pass; the loops run over the entries of the indirection table.
\<close>

definition fill_entry :: "ndis_rss \<Rightarrow> rss_env \<Rightarrow> u8 \<Rightarrow> nat \<Rightarrow> scaling_settings \<times> u8 \<Rightarrow>
  (scaling_settings \<times> u8) option" where
  "fill_entry ndis env ReceiveQueuesNum i st = (case st of (s, rq) \<Rightarrow> do {
     p \<leftarrow> proc_at (IndirectionTable s) i;
     let cpu = KeGetProcessorIndexFromNumber env p;
     if cpu \<noteq> INVALID_PROCESSOR_INDEX ndis then do {
       m \<leftarrow> CPUIndexMapping s;
       q \<leftarrow> rd m cpu;
       let (s, rq) = (if q = PARANDIS_RECEIVE_NO_QUEUE then
           (let s = (if rq = PARANDIS_FIRST_RSS_RECEIVE_QUEUE
                     then s\<lparr> FirstQueueIndirectionIndex := of_nat i \<rparr> else s)
            in if rq \<noteq> ReceiveQueuesNum
               then (s\<lparr> CPUIndexMapping := Some (m[unat cpu := rq]) \<rparr>, rq + 1)
               else (s, rq))
         else (s, rq));
       m \<leftarrow> CPUIndexMapping s;
       q \<leftarrow> rd m cpu;
       if i < length (QueueIndirectionTable s)
       then Some (s\<lparr> QueueIndirectionTable := (QueueIndirectionTable s)[i := q] \<rparr>, rq) else None }
     else
       (if i < length (QueueIndirectionTable s)
        then Some (s\<lparr> QueueIndirectionTable :=
               (QueueIndirectionTable s)[i := PARANDIS_RECEIVE_NO_QUEUE] \<rparr>, rq)
        else None) })"

fun fill_entries :: "ndis_rss \<Rightarrow> rss_env \<Rightarrow> u8 \<Rightarrow> nat list \<Rightarrow> scaling_settings \<times> u8 \<Rightarrow>
  (scaling_settings \<times> u8) option" where
  "fill_entries ndis env n [] st = Some st"
| "fill_entries ndis env n (i # is) st = do {
     st \<leftarrow> fill_entry ndis env n i st;
     fill_entries ndis env n is st }"

definition reassign_entry :: "nat \<Rightarrow> scaling_settings \<Rightarrow> scaling_settings option" where
  "reassign_entry i s = do {
     q \<leftarrow> nth_opt (QueueIndirectionTable s) i;
     if q = PARANDIS_RECEIVE_NO_QUEUE then do {
       let qs = (QueueIndirectionTable s)[i := PARANDIS_FIRST_RSS_RECEIVE_QUEUE];
       p \<leftarrow> get_bytes (IndirectionTable s) (4 * unat (FirstQueueIndirectionIndex s)) 4;
       if 4 * i + 4 \<le> length (IndirectionTable s)
       then Some (s\<lparr> QueueIndirectionTable := qs, IndirectionTable :=
              take (4 * i) (IndirectionTable s) @ p @ drop (4 * i + 4) (IndirectionTable s) \<rparr>)
       else None }
     else Some s }"

fun reassign_entries :: "nat list \<Rightarrow> scaling_settings \<Rightarrow> scaling_settings option" where
  "reassign_entries [] s = Some s"
| "reassign_entries (i # is) s = do { s \<leftarrow> reassign_entry i s; reassign_entries is s }"

definition FillCPUMappingArray :: "ndis_rss \<Rightarrow> rss_env \<Rightarrow> scaling_settings \<Rightarrow> u8 \<Rightarrow>
  scaling_settings option" where
  "FillCPUMappingArray ndis env s ReceiveQueuesNum = do {
     let is = [0..<unat (IndirectionTableSize s div 4)];
     (s, _) \<leftarrow> fill_entries ndis env ReceiveQueuesNum is
       (s\<lparr> FirstQueueIndirectionIndex := INVALID_INDIRECTION_INDEX \<rparr>,
        PARANDIS_FIRST_RSS_RECEIVE_QUEUE);
     if FirstQueueIndirectionIndex s = INVALID_INDIRECTION_INDEX then Some s
     else reassign_entries is s }"

subsection \<open>Telling the device\<close>

definition ParaNdis_ProcessorNumberToGroupAffinity :: "processor_number \<Rightarrow> group_affinity" where
  "ParaNdis_ProcessorNumberToGroupAffinity p =
     \<lparr> aff_Group = Group p, aff_Mask = push_bit (unat (Number p)) 1 \<rparr>"

fun find_bundle :: "group_affinity list \<Rightarrow> nat \<Rightarrow> group_affinity \<Rightarrow> nat option" where
  "find_bundle [] n a = None"
| "find_bundle (b # bs) n a = (if a = b then Some n else find_bundle bs (Suc n) a)"

definition ResolveQueue :: "group_affinity list \<Rightarrow> processor_number \<Rightarrow> u16 \<Rightarrow> u16 \<times> u16" where
  "ResolveQueue bundles proc fallback = (
     case find_bundle bundles 0 (ParaNdis_ProcessorNumberToGroupAffinity proc) of
       Some n \<Rightarrow> (of_nat n, fallback)
     | None \<Rightarrow> (fallback, if length bundles \<le> unat (fallback + 1) then 0 else fallback + 1))"

fun resolve_table :: "group_affinity list \<Rightarrow> bytes \<Rightarrow> nat list \<Rightarrow> u16 \<Rightarrow> bytes \<Rightarrow>
  (u16 \<times> bytes) option" where
  "resolve_table bundles table [] fallback cfg = Some (fallback, cfg)"
| "resolve_table bundles table (i # is) fallback cfg = do {
     p \<leftarrow> proc_at table i;
     let (q, fallback) = ResolveQueue bundles p fallback;
     cfg \<leftarrow> put16 cfg (8 + 2 * i) q;
     resolve_table bundles table is fallback cfg }"

definition put32 :: "bytes \<Rightarrow> nat \<Rightarrow> u32 \<Rightarrow> bytes option" where
  "put32 buf i w = do { buf \<leftarrow> put16 buf i (ucast w); put16 buf (i + 2) (ucast (drop_bit 16 w)) }"

definition put8 :: "bytes \<Rightarrow> nat \<Rightarrow> u8 \<Rightarrow> bytes option" where
  "put8 buf i b = (if i < length buf then Some (buf[i := b]) else None)"

fun put_key :: "nat list \<Rightarrow> bytes \<Rightarrow> nat \<Rightarrow> bytes \<Rightarrow> bytes option" where
  "put_key [] key at cfg = Some cfg"
| "put_key (i # is) key at cfg = do {
     k \<leftarrow> get8 key i;
     cfg \<leftarrow> put8 cfg (at + i) k;
     put_key is key at cfg }"

text \<open>
  The layout of \<open>virtio_net_rss_config\<close>: the hash types at offset 0, the mask of the
  indirection table at 4, the unclassified queue at 6, the table at 8, then at
  \<open>indirection_table[mask + 1]\<close> the number of queues, the length of the key and the key.
\<close>

definition rss_config_size :: "u16 \<Rightarrow> u8 \<Rightarrow> u32" where
  "rss_config_size table_len key_len = 14 + 2 * ucast table_len + ucast key_len + 1"

definition fill_rss_config :: "ndis_rss \<Rightarrow> rss_adapter \<Rightarrow> u16 \<Rightarrow> u8 \<Rightarrow> bytes \<Rightarrow> bytes option" where
  "fill_rss_config ndis ctx table_len key_len cfg = (
     let s = ActiveRSSScalingSettings (RSSParameters ctx);
         hs = ActiveHashingSettings (RSSParameters ctx);
         tx = 8 + 2 * (unat (table_len - 1) + 1)
     in do {
       cfg \<leftarrow> put16 cfg 4 (table_len - 1);
       let (q, fallback) = ResolveQueue (PathBundles ctx) (DefaultProcessor s) 0;
       cfg \<leftarrow> put16 cfg 6 q;
       (_, cfg) \<leftarrow> resolve_table (PathBundles ctx) (IndirectionTable s) [0..<unat table_len] fallback cfg;
       cfg \<leftarrow> put16 cfg tx (of_nat (length (PathBundles ctx)));
       cfg \<leftarrow> put8 cfg (tx + 2) key_len;
       cfg \<leftarrow> put_key [0..<unat key_len] (HashSecretKey hs) (tx + 3) cfg;
       put32 cfg 0 (TranslateHashTypes ndis (HashInformation hs)) })"

definition SetDeviceRSSSettings :: "ndis_rss \<Rightarrow> rss_env \<Rightarrow> rss_adapter \<Rightarrow> bool \<Rightarrow> rss_adapter option"
  where
  "SetDeviceRSSSettings ndis env ctx bForceOff = (
     if \<not> bRSSSupportedByDevice ctx \<and> \<not> bHashReportedByDevice ctx then Some ctx else
     let command = (if bRSSSupportedByDevice ctx then 1 else 2) in
     if RSSMode (RSSParameters ctx) = PARANDIS_RSS_DISABLED \<or> bForceOff then do {
       cfg \<leftarrow> put16 (replicate 14 0) 10 (of_nat (length (PathBundles ctx)));
       Some (ctx\<lparr> ControlMessages := ControlMessages ctx @ [(4, command, cfg)] \<rparr>) }
     else do {
       let table_len = (if \<not> bRSSSupportedByDevice ctx then 1
         else IndirectionTableSize (ActiveRSSScalingSettings (RSSParameters ctx)) div 4);
       let key_len = (ucast (HashSecretKeySize (ActiveHashingSettings (RSSParameters ctx))) :: u8);
       case alloc_rss_config env (rss_config_size table_len key_len) of
         None \<Rightarrow> Some ctx
       | Some cfg \<Rightarrow> do {
           cfg \<leftarrow> fill_rss_config ndis ctx table_len key_len cfg;
           Some (ctx\<lparr> ControlMessages := ControlMessages ctx @ [(4, command, cfg)] \<rparr>) } })"

definition ParaNdis6_EnableDeviceRssSupport :: "ndis_rss \<Rightarrow> rss_env \<Rightarrow> rss_adapter \<Rightarrow> bool \<Rightarrow>
  rss_adapter option" where
  "ParaNdis6_EnableDeviceRssSupport ndis env ctx b = (
     if \<not> b then do {
       ctx \<leftarrow> SetDeviceRSSSettings ndis env ctx True;
       Some (ctx\<lparr> bRSSSupportedByDevice := False \<rparr>) }
     else SetDeviceRSSSettings ndis env
       (ctx\<lparr> bRSSSupportedByDevice := bRSSSupportedByDevicePersistent ctx \<rparr>) False)"

subsection \<open>The transmit map\<close>

text \<open>
  \<open>RSS2QueueMap\<close> holds the index of the path bundle for every entry of the
  indirection table; \<open>None\<close> is the null pointer.
\<close>

fun index_bundles :: "ndis_rss \<Rightarrow> rss_env \<Rightarrow> (nat \<times> group_affinity) list \<Rightarrow> u16 list \<Rightarrow> u16 list option"
  where
  "index_bundles ndis env [] t = Some t"
| "index_bundles ndis env ((n, b) # bs) t = (
     let cpu = CPUIndexOfAffinity env b in
     if cpu = INVALID_PROCESSOR_INDEX ndis then None
     else if ProcessorCount env \<le> cpu then None
     else index_bundles ndis env bs (t[unat cpu := of_nat n]))"

fun fill_queue_map :: "rss_env \<Rightarrow> bytes \<Rightarrow> u16 list \<Rightarrow> nat list \<Rightarrow> nat list \<Rightarrow> nat list option" where
  "fill_queue_map env table t [] qmap = Some qmap"
| "fill_queue_map env table t (i # is) qmap = do {
     p \<leftarrow> proc_at table i;
     b \<leftarrow> rd t (KeGetProcessorIndexFromNumber env p);
     if i < length qmap then fill_queue_map env table t is (qmap[i := unat b]) else None }"

definition ParaNdis_SetupRSSQueueMap :: "ndis_rss \<Rightarrow> rss_env \<Rightarrow> rss_adapter \<Rightarrow>
  (ndis_status \<times> rss_adapter) option" where
  "ParaNdis_SetupRSSQueueMap ndis env ctx = (
     let s = RSSScalingSettings (RSSParameters ctx);
         n = IndirectionTableSize s div 4
     in
     if \<not> alloc_cpu_index_table env then Some (NDIS_STATUS_RESOURCES, ctx) else
     case index_bundles ndis env (enumerate 0 (PathBundles ctx))
            (replicate (unat (ProcessorCount env)) 0) of
       None \<Rightarrow> Some (NDIS_STATUS_SOFT_ERRORS, ctx)
     | Some t \<Rightarrow>
       (let ctx = (if RSS2QueueLength ctx \<noteq> 0 \<and> RSS2QueueLength ctx < n
                   then ctx\<lparr> RSS2QueueLength := 0 \<rparr> else ctx);
            fresh = (RSS2QueueLength ctx = 0);
            ctx = (if fresh then ctx\<lparr> RSS2QueueLength := n, RSS2QueueMap :=
                     (if alloc_queue_map env then Some (replicate (unat n) 0) else None) \<rparr>
                   else ctx)
        in if fresh \<and> RSS2QueueMap ctx = None then Some (NDIS_STATUS_RESOURCES, ctx)
           else do {
             let is = [0..<unat n];
             qmap \<leftarrow> (if n = 0 then Some [] else RSS2QueueMap ctx);
             qmap \<leftarrow> (if length qmap < unat n then None
               else Some (replicate (unat n) 0 @ drop (unat n) qmap));
             qmap \<leftarrow> fill_queue_map env (IndirectionTable s) t is qmap;
             Some (NDIS_STATUS_SUCCESS, if n = 0 then ctx else ctx\<lparr> RSS2QueueMap := Some qmap \<rparr>) }))"

subsection \<open>Requests\<close>

text \<open>Every buffer of a receive queue goes back to the unclassified queue of its owner.\<close>

fun requeue :: "(nat \<times> nat) list \<Rightarrow> (nat \<times> nat) list list \<Rightarrow> (nat \<times> nat) list list option" where
  "requeue [] un = Some un"
| "requeue (b # bs) un = (if fst b < length un
     then requeue bs (un[fst b := un ! fst b @ [b]]) else None)"

definition ParaNdis_ResetRxClassification :: "rss_adapter \<Rightarrow> rss_adapter option" where
  "ParaNdis_ResetRxClassification ctx = do {
     un \<leftarrow> requeue (concat (ReceiveQueues ctx)) (UnclassifiedQueues ctx);
     Some (ctx\<lparr> ReceiveQueues := map (\<lambda>_. []) (ReceiveQueues ctx), UnclassifiedQueues := un \<rparr>) }"

record scale_parameters =
  p_Revision :: u8
  p_Flags :: u16
  p_HashInformation :: u32
  p_IndirectionTableSize :: u16
  p_IndirectionTableOffset :: u32
  p_HashSecretKeySize :: u16
  p_HashSecretKeyOffset :: u32
  p_NumberOfProcessorMasks :: u32
  p_ProcessorMasksOffset :: u32
  p_ProcessorMasksEntrySize :: u32
  p_DefaultProcessorNumber :: processor_number
  p_bytes :: bytes

definition MinimalRssParametersLength :: "ndis_rss \<Rightarrow> u8 \<Rightarrow> u32" where
  "MinimalRssParametersLength ndis revision = (
     if revision = PARAMETERS_REVISION_2 ndis then sizeof_params_rev2 ndis
     else if revision = PARAMETERS_REVISION_3 ndis then sizeof_params_rev3 ndis
     else sizeof_params ndis)"

definition flag :: "scale_parameters \<Rightarrow> u16 \<Rightarrow> bool" where
  "flag P f \<longleftrightarrow> p_Flags P AND f \<noteq> 0"

text \<open>\<open>NdisMoveMemory\<close> to the head of an array of the settings.\<close>

definition move_memory :: "bytes \<Rightarrow> bytes \<Rightarrow> nat \<Rightarrow> nat \<Rightarrow> bytes option" where
  "move_memory dst src at n = do {
     b \<leftarrow> get_bytes src at n;
     if n \<le> length dst then Some (b @ drop n dst) else None }"

definition default_cpu_index :: "ndis_rss \<Rightarrow> rss_env \<Rightarrow> scale_parameters \<Rightarrow> u32" where
  "default_cpu_index ndis env P = (
     if PARAMETERS_REVISION_3 ndis \<le> p_Revision P \<and> \<not> flag P (FLAG_DEFAULT_PROCESSOR_UNCHANGED ndis)
     then KeGetProcessorIndexFromNumber env ((p_DefaultProcessorNumber P)\<lparr> Reserved := 0 \<rparr>)
     else INVALID_PROCESSOR_INDEX ndis)"

text \<open>The checks of the lengths and offsets in the request.\<close>

definition rss_lengths_ok :: "ndis_rss \<Rightarrow> scale_parameters \<Rightarrow> u32 \<Rightarrow> bool" where
  "rss_lengths_ok ndis P ParamsLength \<longleftrightarrow>
     (flag P (FLAG_ITABLE_UNCHANGED ndis) \<or>
      ucast (p_IndirectionTableSize P) \<le> INDIRECTION_TABLE_MAX_SIZE ndis \<and>
      p_IndirectionTableOffset P + ucast (p_IndirectionTableSize P) \<le> ParamsLength \<and>
      IsPowerOfTwo (ucast (p_IndirectionTableSize P div 4))) \<and>
     (flag P (FLAG_HASH_KEY_UNCHANGED ndis) \<or>
      ucast (p_HashSecretKeySize P) \<le> SECRET_KEY_MAX_SIZE ndis \<and>
      p_HashSecretKeyOffset P + ucast (p_HashSecretKeySize P) \<le> ParamsLength) \<and>
     p_ProcessorMasksOffset P + p_NumberOfProcessorMasks P * p_ProcessorMasksEntrySize P \<le> ParamsLength"

text \<open>
  The indirection table of the request (\<open>None\<close> in the inner result when the mapping array
  cannot be allocated), and the hash settings.
\<close>

definition set_table :: "ndis_rss \<Rightarrow> rss_env \<Rightarrow> scale_parameters \<Rightarrow> rss_params \<Rightarrow>
  rss_params option option" where
  "set_table ndis env P rss = (
     if \<not> flag P (FLAG_ITABLE_UNCHANGED ndis) then
       (case AllocateCPUMappingArray env (RSSScalingSettings rss) of
          None \<Rightarrow> Some None
        | Some s \<Rightarrow> do {
            table \<leftarrow> move_memory (IndirectionTable s) (p_bytes P)
              (unat (p_IndirectionTableOffset P)) (unat (p_IndirectionTableSize P));
            s \<leftarrow> FillCPUMappingArray ndis env (s\<lparr> IndirectionTableSize := p_IndirectionTableSize P,
              IndirectionTable := table,
              RSSHashMask := ucast (p_IndirectionTableSize P div 4) - 1 \<rparr>) (ReceiveQueuesNumber rss);
            s \<leftarrow> SetDefaultQueue env s (default_cpu_index ndis env P);
            Some (Some (rss\<lparr> RSSScalingSettings := s \<rparr>)) })
     else do {
       s \<leftarrow> SetDefaultQueue env (ActiveRSSScalingSettings rss) (default_cpu_index ndis env P);
       Some (Some (rss\<lparr> ActiveRSSScalingSettings := s \<rparr>)) })"

definition set_hashing :: "ndis_rss \<Rightarrow> scale_parameters \<Rightarrow> hashing_settings \<Rightarrow> hashing_settings option"
  where
  "set_hashing ndis P hs = (
     let hs = (if \<not> flag P (FLAG_HASH_INFO_UNCHANGED ndis)
               then hs\<lparr> HashInformation := p_HashInformation P \<rparr> else hs)
     in if \<not> flag P (FLAG_HASH_KEY_UNCHANGED ndis) then do {
          key \<leftarrow> move_memory (HashSecretKey hs) (p_bytes P)
            (unat (p_HashSecretKeyOffset P)) (unat (p_HashSecretKeySize P));
          Some (hs\<lparr> HashSecretKeySize := p_HashSecretKeySize P, HashSecretKey := key \<rparr>) }
        else Some hs)"

definition rss_request_length :: "ndis_rss \<Rightarrow> scale_parameters \<Rightarrow> u32" where
  "rss_request_length ndis P =
     (if \<not> flag P (FLAG_ITABLE_UNCHANGED ndis)
      then ucast (p_IndirectionTableSize P) + p_NumberOfProcessorMasks P * p_ProcessorMasksEntrySize P
      else 0) +
     (if \<not> flag P (FLAG_HASH_KEY_UNCHANGED ndis) then ucast (p_HashSecretKeySize P) else 0)"

text \<open>The steps after the settings are stored.\<close>

definition rss_publish :: "ndis_rss \<Rightarrow> rss_env \<Rightarrow> rss_adapter \<Rightarrow> (ndis_status \<times> rss_adapter) option" where
  "rss_publish ndis env ctx = do {
     ctx \<leftarrow> ParaNdis_ResetRxClassification ctx;
     (status, ctx) \<leftarrow> ParaNdis_SetupRSSQueueMap ndis env ctx;
     if status = NDIS_STATUS_SUCCESS then do {
       ctx \<leftarrow> SetDeviceRSSSettings ndis env ctx False;
       Some (status, if bPollModeEnabled ctx
         then ctx\<lparr> PollAffinityUpdates := PollAffinityUpdates ctx + 1 \<rparr> else ctx) }
     else Some (status, ctx) }"

definition ParaNdis6_RSSSetParameters :: "ndis_rss \<Rightarrow> rss_env \<Rightarrow> rss_adapter \<Rightarrow> scale_parameters \<Rightarrow>
  u32 \<Rightarrow> (ndis_status \<times> u32 \<times> rss_adapter) option" where
  "ParaNdis6_RSSSetParameters ndis env ctx P ParamsLength = (
     let rss = RSSParameters ctx;
         minimalLength = MinimalRssParametersLength ndis (p_Revision P);
         off = flag P (FLAG_DISABLE_RSS ndis)
     in
     if ParamsLength < sizeof_header ndis then Some (NDIS_STATUS_INVALID_LENGTH, 0, ctx)
     else if ParamsLength < minimalLength
     then Some (NDIS_STATUS_INVALID_LENGTH, sizeof_header ndis, ctx)
     else if RSSMode rss = PARANDIS_RSS_HASHING \<and> \<not> off \<and> p_HashInformation P \<noteq> 0
     then Some (NDIS_STATUS_NOT_SUPPORTED, 0, ctx)
     else if \<not> flag P (FLAG_HASH_INFO_UNCHANGED ndis OR FLAG_DISABLE_RSS ndis) \<and>
       \<not> IsValidHashInfo ndis (p_HashInformation P)
     then Some (NDIS_STATUS_INVALID_PARAMETER, 0, ctx)
     else if off \<or> p_HashInformation P = 0 then do {
       (status, ctx) \<leftarrow> rss_publish ndis env
         (ctx\<lparr> RSSParameters := ApplySettings rss PARANDIS_RSS_DISABLED None None \<rparr>);
       Some (status, if CheckNdisVersion_6_80 ndis then ParamsLength else minimalLength, ctx) }
     else if \<not> rss_lengths_ok ndis P ParamsLength then Some (NDIS_STATUS_INVALID_LENGTH, 0, ctx)
     else do {
       r \<leftarrow> set_table ndis env P rss;
       case r of
         None \<Rightarrow> Some (NDIS_STATUS_RESOURCES, 0, ctx)
       | Some rss \<Rightarrow> do {
           hs \<leftarrow> set_hashing ndis P (RSSHashingSettings rss);
           let rss = rss\<lparr> RSSHashingSettings := hs \<rparr>;
           let rss = ApplySettings rss PARANDIS_RSS_FULL
             (if \<not> flag P (FLAG_HASH_INFO_UNCHANGED ndis) \<or> \<not> flag P (FLAG_HASH_KEY_UNCHANGED ndis)
              then Some hs else None)
             (if \<not> flag P (FLAG_ITABLE_UNCHANGED ndis) then Some (RSSScalingSettings rss) else None);
           (status, ctx) \<leftarrow> rss_publish ndis env (ctx\<lparr> RSSParameters := rss \<rparr>);
           Some (status, if CheckNdisVersion_6_80 ndis then ParamsLength
             else rss_request_length ndis P + minimalLength, ctx) } })"

record hash_parameters =
  h_Flags :: u32
  h_HashInformation :: u32
  h_HashSecretKeySize :: u16
  h_HashSecretKeyOffset :: u32
  h_bytes :: bytes

definition ParaNdis6_RSSSetReceiveHash :: "ndis_rss \<Rightarrow> rss_env \<Rightarrow> rss_adapter \<Rightarrow> hash_parameters \<Rightarrow>
  u32 \<Rightarrow> u32 \<Rightarrow> (ndis_status \<times> u32 \<times> rss_adapter) option" where
  "ParaNdis6_RSSSetReceiveHash ndis env ctx P ParamsLength bytesRead = (
     let rss = RSSParameters ctx;
         enable = (h_Flags P AND HASH_FLAG_ENABLE_HASH ndis \<noteq> 0);
         sameInfo = (h_Flags P AND HASH_FLAG_HASH_INFO_UNCHANGED ndis \<noteq> 0);
         sameKey = (h_Flags P AND HASH_FLAG_HASH_KEY_UNCHANGED ndis \<noteq> 0);
         hs = ReceiveHashingSettings rss
     in
     if ParamsLength < sizeof_hash_params ndis then Some (NDIS_STATUS_INVALID_LENGTH, bytesRead, ctx)
     else let bytesRead = bytesRead + sizeof_hash_params ndis in
     if RSSMode rss = PARANDIS_RSS_FULL \<and> enable \<and> \<not> sameInfo \<and> h_HashInformation P \<noteq> 0
     then Some (NDIS_STATUS_NOT_SUPPORTED, bytesRead, ctx)
     else if RSSMode rss = PARANDIS_RSS_FULL \<and> enable \<and> sameInfo \<and> HashInformation hs \<noteq> 0
     then Some (NDIS_STATUS_NOT_SUPPORTED, bytesRead, ctx)
     else if \<not> sameInfo \<and> \<not> IsValidHashInfo ndis (h_HashInformation P)
     then Some (NDIS_STATUS_INVALID_PARAMETER, bytesRead, ctx)
     else if \<not> sameKey \<and> (SECRET_KEY_MAX_SIZE ndis < ucast (h_HashSecretKeySize P) \<or>
       ParamsLength < h_HashSecretKeyOffset P + ucast (h_HashSecretKeySize P))
     then Some (NDIS_STATUS_INVALID_LENGTH, bytesRead, ctx)
     else do {
       let hs = (if \<not> sameInfo then hs\<lparr> HashInformation := h_HashInformation P \<rparr> else hs);
       hs \<leftarrow> (if \<not> sameKey then do {
            key \<leftarrow> move_memory (HashSecretKey hs) (h_bytes P)
              (unat (h_HashSecretKeyOffset P)) (unat (h_HashSecretKeySize P));
            Some (hs\<lparr> HashSecretKeySize := h_HashSecretKeySize P, HashSecretKey := key \<rparr>) }
          else Some hs);
       let bytesRead = (if \<not> sameKey then bytesRead + ucast (h_HashSecretKeySize P) else bytesRead);
       let rss = rss\<lparr> ReceiveHashingSettings := hs \<rparr>;
       let rss = (if RSSMode rss \<noteq> PARANDIS_RSS_FULL
         then ApplySettings rss
                (if enable \<and> h_HashInformation P \<noteq> 0 then PARANDIS_RSS_HASHING
                 else PARANDIS_RSS_DISABLED) (Some hs) None
         else rss);
       ctx \<leftarrow> ParaNdis_ResetRxClassification (ctx\<lparr> RSSParameters := rss \<rparr>);
       ctx \<leftarrow> SetDeviceRSSSettings ndis env ctx False;
       Some (NDIS_STATUS_SUCCESS, bytesRead, ctx) })"

text \<open>The answer to a query of the hash settings: hash information, enabled or not, key.\<close>

definition ParaNdis6_QueryReceiveHash :: "ndis_rss \<Rightarrow> rss_params \<Rightarrow> (u32 \<times> bool \<times> u16 \<times> bytes \<times> u32) option"
  where
  "ParaNdis6_QueryReceiveHash ndis rss = (let hs = ReceiveHashingSettings rss in do {
     key \<leftarrow> get_bytes (HashSecretKey hs) 0 (unat (HashSecretKeySize hs));
     Some (HashInformation hs, RSSMode rss = PARANDIS_RSS_HASHING, HashSecretKeySize hs, key,
       sizeof_hash_params ndis + ucast (HashSecretKeySize hs)) })"

end
