(* ===== verification/SwOffloadProofs.thy ===== *)
theory SwOffloadProofs
  imports SwOffload
begin

text \<open>
  Lemmas on the checksum routines: the Internet checksum of RFC 1071 as a reference, the
  equality of the folding and summation code with it on flat and on paged buffers, and the
  effect of storing a checksum.
\<close>

subsection \<open>The reference checksum\<close>

text \<open>
  The sum of the 16-bit words of a buffer, an odd byte at the end being padded with zero, and
  the repeated folding of the carries.
\<close>

fun word_sum :: "bytes \<Rightarrow> nat" where
  "word_sum [] = 0"
| "word_sum [a] = unat a"
| "word_sum (a # b # xs) = unat a + 256 * unat b + word_sum xs"

function fold_carries :: "nat \<Rightarrow> nat" where
  "fold_carries n = (if n < 65536 then n else fold_carries (n mod 65536 + n div 65536))"
  by pat_completeness auto

termination fold_carries
proof (relation "measure id")
  fix n :: nat
  assume "\<not> n < 65536"
  moreover have "n = 65536 * (n div 65536) + n mod 65536" by simp
  moreover have "0 < n div 65536" using \<open>\<not> n < 65536\<close> by (simp add: div_greater_zero_iff)
  ultimately have "n mod 65536 + n div 65536 < n" by linarith
  then show "(n mod 65536 + n div 65536, n) \<in> measure id" by simp
qed simp

declare fold_carries.simps [simp del]

definition rfc1071 :: "bytes \<Rightarrow> u16" where
  "rfc1071 xs = NOT (of_nat (fold_carries (word_sum xs)))"

definition csum_norm :: "nat \<Rightarrow> nat" where
  "csum_norm n = (if n = 0 then 0 else (n - 1) mod 65535 + 1)"

lemma csum_norm_less: "csum_norm n < 65536"
  using mod_less_divisor [of 65535 "n - 1"] by (simp add: csum_norm_def)

lemma csum_norm_cong:
  assumes "a mod 65535 = b mod 65535" "a = 0 \<longleftrightarrow> b = 0"
  shows "csum_norm a = csum_norm b"
proof (cases "a = 0")
  case False
  then have "(a - 1) mod 65535 = (b - 1) mod 65535"
    using assms by (cases a; cases b) (auto simp: mod_Suc split: if_splits)
  then show ?thesis using False assms by (simp add: csum_norm_def)
qed (use assms in \<open>simp add: csum_norm_def\<close>)

lemma csum_norm_small: "n < 65536 \<Longrightarrow> csum_norm n = n"
  by (auto simp: csum_norm_def)

lemma csum_norm_mod: "csum_norm n mod 65535 = n mod 65535"
  by (cases n) (auto simp: csum_norm_def mod_simps)

lemma fold_step_mod: "(n mod 65536 + n div 65536) mod 65535 = n mod (65535::nat)"
proof -
  have "n = 65536 * (n div 65536) + n mod 65536" by simp
  then have "n = (n mod 65536 + n div 65536) + 65535 * (n div 65536)" by linarith
  then have "n mod 65535 = ((n mod 65536 + n div 65536) + 65535 * (n div 65536)) mod 65535"
    by (rule arg_cong)
  then show ?thesis by (simp only: mod_mult_self2)
qed

lemma fold_carries_norm: "fold_carries n = csum_norm n"
proof (induction n rule: fold_carries.induct)
  case (1 n)
  show ?case
  proof (cases "n < 65536")
    case True
    then show ?thesis by (simp add: fold_carries.simps csum_norm_small)
  next
    case False
    then have "fold_carries n = csum_norm (n mod 65536 + n div 65536)"
      using 1 by (simp add: fold_carries.simps [of n])
    also have "\<dots> = csum_norm n"
      by (rule csum_norm_cong) (use False in \<open>auto simp: fold_step_mod div_eq_0_iff\<close>)
    finally show ?thesis .
  qed
qed

lemma rfc1071_norm: "rfc1071 xs = NOT (of_nat (csum_norm (word_sum xs)))"
  by (simp add: rfc1071_def fold_carries_norm)

subsection \<open>Folding\<close>

lemma unat_of_nat_inv: "of_nat (unat w) = (w :: 'a::len word)"
  by (simp add: of_nat_unat)

lemma rotate_add:
  fixes x :: "'a::len word"
  assumes n: "LENGTH('a) = 2 * n"
  defines "t \<equiv> unat x div 2 ^ n + unat x mod 2 ^ n"
  shows "unat (drop_bit n ((drop_bit n x OR push_bit n x) + x)) =
    (if t < 2 ^ n then t else t - 2 ^ n + 1)"
proof -
  define h where "h = unat x div 2 ^ n"
  define l where "l = unat x mod 2 ^ n"
  define N :: nat where "N = 2 ^ n"
  have N: "0 < N" "(2::nat) ^ LENGTH('a) = N * N" by (simp_all add: N_def n mult_2 power_add)
  have x: "unat x = h * N + l" by (simp only: h_def l_def N_def div_mult_mod_eq)
  have l: "l < N" by (simp add: l_def N_def)
  have h: "h < N"
    using unsigned_less [of x, where ?'a = nat] unfolding N h_def N_def [symmetric]
    by (simp add: less_mult_imp_div_less)
  have a: "unat (drop_bit n x) = h"
    unfolding unat_drop_bit_eq h_def by (simp add: drop_bit_eq_div)
  have b: "unat (push_bit n x) = l * N"
  proof -
    have "unat (push_bit n x) = (h * N + l) * N mod (N * N)"
      unfolding unsigned_push_bit_eq by (simp add: take_bit_eq_mod push_bit_eq_mult N x N_def [symmetric])
    also have "\<dots> = (h * (N * N) + l * N) mod (N * N)" by (simp add: algebra_simps)
    also have "\<dots> = l * N" using l N by simp
    finally show ?thesis .
  qed
  have "drop_bit n x OR push_bit n x = drop_bit n x + push_bit n x"
    by (rule disjunctive_add [symmetric]) (auto simp: bit_drop_bit_eq bit_push_bit_iff n dest!: bit_imp_le_length)
  moreover have "h + l * N < N * N"
  proof -
    have "l * N + N \<le> N * N" using l mult_le_mono1 [of "Suc l" N N] by simp
    then show ?thesis using h by linarith
  qed
  ultimately have r: "unat (drop_bit n x OR push_bit n x) = h + l * N"
    by (simp add: unat_word_ariths a b N)
  have t: "t = h + l" by (simp add: t_def h_def l_def)
  have s: "unat ((drop_bit n x OR push_bit n x) + x) = (t * N + t) mod (N * N)"
    by (simp add: unat_word_ariths r x N t algebra_simps)
  have d: "unat (drop_bit n ((drop_bit n x OR push_bit n x) + x)) = (t * N + t) mod (N * N) div N"
    unfolding unat_drop_bit_eq s by (simp add: drop_bit_eq_div N_def)
  show ?thesis
  proof (cases "t < N")
    case True
    have "t * N + N \<le> N * N" using True mult_le_mono1 [of "Suc t" N N] by simp
    then have "t * N + t < N * N" using True by linarith
    then show ?thesis using True N by (simp add: d N_def [symmetric])
  next
    case False
    define u where "u = t - N"
    have u: "t = N + u" "u + 1 < N" using False h l by (auto simp: u_def t)
    have "t * N + t = N * N + ((u + 1) * N + u)" by (simp add: u(1) algebra_simps)
    moreover have "(u + 1) * N + u < N * N"
    proof -
      have "(u + 1) * N + N \<le> N * N" using u mult_le_mono1 [of "Suc (u + 1)" N N] by simp
      then show ?thesis using u by linarith
    qed
    ultimately have "(t * N + t) mod (N * N) = (u + 1) * N + u" by simp
    moreover have "((u + 1) * N + u) div N = u + 1"
      using u by (subst mult.commute, subst div_mult_self4) auto
    ultimately have "(t * N + t) mod (N * N) div N = u + 1" by (simp only:)
    then show ?thesis using False u by (simp add: d N_def [symmetric])
  qed
qed

lemma fold_nat_mod:
  fixes v N M :: nat
  assumes N: "N = K * M + 1" "t = v div N + v mod N"
  shows "(if t < N then t else t - N + 1) mod M = v mod M"
    "(if t < N then t else t - N + 1) = 0 \<longleftrightarrow> v = 0"
proof -
  have v: "v = N * (v div N) + v mod N" by simp
  have "v = t + M * (K * (v div N))" using v unfolding N by (simp add: algebra_simps)
  then have 1: "v mod M = t mod M" by (metis mod_mult_self2)
  have "t = (t - N + 1) + M * K" if "N \<le> t" using that N(1) by (simp add: algebra_simps)
  then have "N \<le> t \<Longrightarrow> t mod M = (t - N + 1) mod M" by (metis mod_mult_self2)
  then show "(if t < N then t else t - N + 1) mod M = v mod M" using 1 by simp
  show "(if t < N then t else t - N + 1) = 0 \<longleftrightarrow> v = 0"
    using v N by (auto simp: N(2))
qed

lemma RawCheckSumFinalize_norm: "RawCheckSumFinalize raw = NOT (of_nat (csum_norm (unat raw)))"
proof -
  define s32 where "s32 = (ucast (drop_bit 32 ((drop_bit 32 raw OR push_bit 32 raw) + raw)) :: u32)"
  define s16 where "s16 = (ucast (drop_bit 16 ((drop_bit 16 s32 OR push_bit 16 s32) + s32)) :: u16)"
  let ?f = "\<lambda>v n. if v div 2 ^ n + v mod 2 ^ n < 2 ^ n then v div 2 ^ n + v mod 2 ^ n
    else v div 2 ^ n + v mod 2 ^ n - 2 ^ n + (1::nat)"
  have "unat (drop_bit 32 ((drop_bit 32 raw OR push_bit 32 raw) + raw)) = ?f (unat raw) 32"
    by (rule rotate_add) simp
  then have a: "unat s32 = ?f (unat raw) 32"
    using unsigned_less [of raw, where ?'a = nat]
    by (simp only: s32_def unsigned_ucast_eq take_bit_eq_mod) (auto simp: Let_def less_mult_imp_div_less)
  have "unat (drop_bit 16 ((drop_bit 16 s32 OR push_bit 16 s32) + s32)) = ?f (unat s32) 16"
    by (rule rotate_add) simp
  then have b: "unat s16 = ?f (unat s32) 16"
    using unsigned_less [of s32, where ?'a = nat]
    by (simp only: s16_def unsigned_ucast_eq take_bit_eq_mod) (auto simp: Let_def less_mult_imp_div_less)
  have "unat s32 mod 65535 = unat raw mod 65535" "unat s32 = 0 \<longleftrightarrow> unat raw = 0"
    unfolding a by (rule fold_nat_mod [where K = 65537]; simp)+
  moreover have "unat s16 mod 65535 = unat s32 mod 65535" "unat s16 = 0 \<longleftrightarrow> unat s32 = 0"
    unfolding b by (rule fold_nat_mod [where K = 1]; simp)+
  ultimately have "csum_norm (unat s16) = csum_norm (unat raw)" by (intro csum_norm_cong) auto
  moreover have "csum_norm (unat s16) = unat s16"
    using unsigned_less [of s16, where ?'a = nat] by (intro csum_norm_small) simp
  ultimately have "s16 = of_nat (csum_norm (unat raw))" by (metis unat_of_nat_inv)
  then show ?thesis by (simp add: RawCheckSumFinalize_def Let_def s16_def s32_def)
qed

subsection \<open>Summation\<close>

text \<open>Two sums that fold to the same checksum.\<close>

definition csum_eq :: "nat \<Rightarrow> nat \<Rightarrow> bool" where
  "csum_eq a b \<longleftrightarrow> a mod 65535 = b mod 65535 \<and> (a = 0 \<longleftrightarrow> b = 0)"

lemma csum_eq_refl [simp]: "csum_eq a a"
  by (simp add: csum_eq_def)

lemma csum_eq_add: "csum_eq a b \<Longrightarrow> csum_eq c d \<Longrightarrow> csum_eq (a + c) (b + d)"
  by (auto simp: csum_eq_def intro: mod_add_cong)

lemma csum_eq_norm: "csum_eq a b \<Longrightarrow> csum_norm a = csum_norm b"
  by (auto simp: csum_eq_def intro: csum_norm_cong)

lemma unat_le16: "unat (le16 a b) = unat a + 256 * unat b"
  using unsigned_less [of a, where ?'a = nat] unsigned_less [of b, where ?'a = nat]
  by (simp add: le16_def unat_word_ariths unsigned_ucast_eq take_bit_nat_eq_self)

lemma unat_le32:
  "unat (le32 a b c d) = unat a + 256 * unat b + 65536 * unat c + 16777216 * unat d"
  using unsigned_less [of a, where ?'a = nat] unsigned_less [of b, where ?'a = nat]
    unsigned_less [of c, where ?'a = nat] unsigned_less [of d, where ?'a = nat]
  by (simp add: le32_def unat_word_ariths unsigned_ucast_eq take_bit_nat_eq_self)

lemma take_drop_two: "i + 1 < length xs \<Longrightarrow>
  take (Suc (Suc n)) (drop i xs) = xs ! i # xs ! (i + 1) # take n (drop (i + 2) xs)"
  by (simp add: Cons_nth_drop_Suc [symmetric])

lemma get16_in [simp]: "i + 1 < length xs \<Longrightarrow> get16 xs i = Some (le16 (xs ! i) (xs ! (i + 1)))"
  by (simp add: get16_def)

lemma get8_in [simp]: "i < length xs \<Longrightarrow> get8 xs i = Some (xs ! i)"
  by (simp add: get8_def)

lemma get32_in [simp]: "i + 3 < length xs \<Longrightarrow>
  get32 xs i = Some (le32 (xs ! i) (xs ! (i + 1)) (xs ! (i + 2)) (xs ! (i + 3)))"
  by (simp add: get32_def)

lemma csum_eq_dword: "csum_eq (unat (le32 a b c d)) (unat (le16 a b) + unat (le16 c d))"
proof -
  have "unat (le32 a b c d) = (unat (le16 a b) + unat (le16 c d)) + 65535 * unat (le16 c d)"
    by (simp add: unat_le32 unat_le16)
  then have "unat (le32 a b c d) mod 65535 = (unat (le16 a b) + unat (le16 c d)) mod 65535"
    by (simp only: mod_mult_self2)
  then show ?thesis by (simp add: csum_eq_def unat_le32 unat_le16)
qed

lemma word_sum_append: "even (length xs) \<Longrightarrow> word_sum (xs @ ys) = word_sum xs + word_sum ys"
  by (induction xs rule: word_sum.induct) auto

lemma sum_dwords_ok:
  assumes "ptr + 4 * n \<le> length buf" "unat val + n * 2 ^ 32 \<le> 2 ^ 63"
  shows "\<exists>v. sum_dwords n buf ptr val = Some (v, ptr + 4 * n) \<and>
    csum_eq (unat v) (unat val + word_sum (take (4 * n) (drop ptr buf))) \<and>
    unat v \<le> unat val + n * 2 ^ 32"
  using assms
proof (induction n arbitrary: ptr val)
  case (Suc n)
  define w where "w = le32 (buf ! ptr) (buf ! (ptr + 1)) (buf ! (ptr + 2)) (buf ! (ptr + 3))"
  have g: "get32 buf ptr = Some w" using Suc.prems(1) by (simp add: w_def)
  have w: "unat w < 2 ^ 32" using unsigned_less [of w, where ?'a = nat] by simp
  have v: "unat (val + ucast w) = unat val + unat w"
    using Suc.prems(2) w by (simp add: unat_plus_small)
  have "\<exists>v. sum_dwords n buf (ptr + 4) (val + ucast w) = Some (v, ptr + 4 + 4 * n) \<and>
    csum_eq (unat v) (unat (val + ucast w) + word_sum (take (4 * n) (drop (ptr + 4) buf))) \<and>
    unat v \<le> unat (val + ucast w) + n * 2 ^ 32"
    using Suc.prems w by (intro Suc.IH) (simp_all add: v)
  then obtain v' where v': "sum_dwords n buf (ptr + 4) (val + ucast w) = Some (v', ptr + 4 + 4 * n)"
    "csum_eq (unat v') (unat val + unat w + word_sum (take (4 * n) (drop (ptr + 4) buf)))"
    "unat v' \<le> unat val + unat w + n * 2 ^ 32"
    unfolding v by blast
  have t: "take (4 * Suc n) (drop ptr buf) = buf ! ptr # buf ! (ptr + 1) # buf ! (ptr + 2) #
    buf ! (ptr + 3) # take (4 * n) (drop (ptr + 4) buf)"
    using Suc.prems(1) by (simp add: take_drop_two numeral_eq_Suc)
  have "csum_eq (unat val + unat w + word_sum (take (4 * n) (drop (ptr + 4) buf)))
    (unat val + word_sum (take (4 * Suc n) (drop ptr buf)))"
    unfolding t word_sum.simps w_def
    using csum_eq_add [OF csum_eq_refl [of "unat val"] csum_eq_add [OF csum_eq_dword csum_eq_refl]]
    by (simp add: unat_le16 add.assoc)
  then have "csum_eq (unat v') (unat val + word_sum (take (4 * Suc n) (drop ptr buf)))"
    using v'(2) by (auto simp: csum_eq_def)
  then show ?case using Suc.prems(1) v' w by (simp add: g)
qed (auto simp: csum_eq_def)

lemma len_split: "unat len = 4 * unat (drop_bit 2 len) + (if len AND 2 \<noteq> 0 then 2 else 0) +
  (if len AND 1 \<noteq> 0 then 1 else 0)" for len :: u32
proof -
  have "len AND 2 \<noteq> 0 \<longleftrightarrow> bit len 1" using and_exp_eq_0_iff_not_bit [of len 1] by simp
  moreover have "len AND 1 \<noteq> 0 \<longleftrightarrow> bit len 0" using and_exp_eq_0_iff_not_bit [of len 0] by simp
  moreover have "bit len n \<longleftrightarrow> odd (unat len div 2 ^ n)" if "n < 32" for n
  proof -
    have "bit len n \<longleftrightarrow> bit (unat len) n" by (simp add: bit_unsigned_iff)
    then show ?thesis by (simp add: bit_iff_odd)
  qed
  moreover have "unat (drop_bit 2 len) = unat len div 4"
    unfolding unat_drop_bit_eq by (simp add: drop_bit_eq_div)
  ultimately show ?thesis by (simp add: odd_iff_mod_2_eq_one) presburger
qed

lemma unat_ucast_8_64: "unat (ucast (b :: u8) :: u64) = unat b"
  using unsigned_less [of b, where ?'a = nat] by (simp add: unsigned_ucast_eq take_bit_nat_eq_self)

lemma unat_word_byte_64: "unat (ucast (w :: u16) + ucast (b :: u8) :: u64) = unat w + unat b"
  using unsigned_less [of w, where ?'a = nat] unsigned_less [of b, where ?'a = nat]
  by (subst unat_plus_small) (simp_all only: unat_ucast_16_64 unat_ucast_8_64, simp)

lemma raw_tail_ok:
  assumes "unat len \<le> length buf"
    and v: "sum_dwords (unat (drop_bit 2 len)) buf 0 0 = Some (v, 4 * unat (drop_bit 2 len))"
  shows "\<exists>x. RawCheckSumCalculator buf len = Some (v + x) \<and>
    unat x = word_sum (drop (4 * unat (drop_bit 2 len)) (take (unat len) buf)) \<and>
    unat x \<le> (unat len - 4 * unat (drop_bit 2 len)) * 2 ^ 15"
proof -
  let ?n = "unat (drop_bit 2 len)"
  define t where "t = drop (4 * ?n) (take (unat len) buf)"
  have tl: "t = take (unat len - 4 * ?n) (drop (4 * ?n) buf)" by (simp add: t_def drop_take)
  have b8: "unat (b :: u8) \<le> 255" for b using unsigned_less [of b, where ?'a = nat] by simp
  have b16: "unat (w :: u16) \<le> 65535" for w using unsigned_less [of w, where ?'a = nat] by simp
  have "\<exists>x. RawCheckSumCalculator buf len = Some (v + x) \<and> unat x = word_sum t \<and>
    unat x \<le> (unat len - 4 * ?n) * 2 ^ 15"
  proof (cases "len AND 2 \<noteq> 0"; cases "len AND 1 \<noteq> 0")
    assume b: "len AND 2 \<noteq> 0" "len AND 1 \<noteq> 0"
    let ?x = "ucast (le16 (buf ! (4 * ?n)) (buf ! (4 * ?n + 1))) + ucast (buf ! (4 * ?n + 2)) :: u64"
    have t: "t = [buf ! (4 * ?n), buf ! (4 * ?n + 1), buf ! (4 * ?n + 2)]"
      using b assms len_split [of len] unfolding tl
      by (simp add: take_drop_two numeral_eq_Suc Cons_nth_drop_Suc [symmetric])
    show ?thesis
      using b assms len_split [of len] v b16 [of "le16 (buf ! (4 * ?n)) (buf ! (4 * ?n + 1))"]
        b8 [of "buf ! (4 * ?n + 2)"]
      by (intro exI [of _ ?x]) (simp add: RawCheckSumCalculator_def t unat_word_byte_64 unat_le16 add.assoc)
  next
    assume b: "len AND 2 \<noteq> 0" "\<not> len AND 1 \<noteq> 0"
    let ?x = "ucast (le16 (buf ! (4 * ?n)) (buf ! (4 * ?n + 1))) :: u64"
    have t: "t = [buf ! (4 * ?n), buf ! (4 * ?n + 1)]"
      using b assms len_split [of len] unfolding tl by (simp add: take_drop_two numeral_eq_Suc)
    show ?thesis
      using b assms len_split [of len] v b16 [of "le16 (buf ! (4 * ?n)) (buf ! (4 * ?n + 1))"]
      by (intro exI [of _ ?x]) (simp add: RawCheckSumCalculator_def t unat_le16 unat_ucast_16_64)
  next
    assume b: "\<not> len AND 2 \<noteq> 0" "len AND 1 \<noteq> 0"
    let ?x = "ucast (buf ! (4 * ?n)) :: u64"
    have t: "t = [buf ! (4 * ?n)]"
      using b assms len_split [of len] unfolding tl
      by (simp add: numeral_eq_Suc Cons_nth_drop_Suc [symmetric])
    show ?thesis
      using b assms len_split [of len] v b8 [of "buf ! (4 * ?n)"]
      by (intro exI [of _ ?x]) (simp add: RawCheckSumCalculator_def t unat_ucast_8_64)
  next
    assume b: "\<not> len AND 2 \<noteq> 0" "\<not> len AND 1 \<noteq> 0"
    then show ?thesis
      using len_split [of len] v
      by (intro exI [of _ 0]) (simp add: RawCheckSumCalculator_def tl)
  qed
  then show ?thesis unfolding t_def .
qed

lemma RawCheckSumCalculator_ok:
  assumes "unat len \<le> length buf"
  shows "\<exists>v. RawCheckSumCalculator buf len = Some v \<and>
    csum_eq (unat v) (word_sum (take (unat len) buf)) \<and> unat v \<le> unat len * 2 ^ 30"
proof -
  let ?n = "unat (drop_bit 2 len)"
  have n: "?n < 2 ^ 30"
    using len_split [of len] unsigned_less [of len, where ?'a = nat] by (simp split: if_splits)
  then obtain v where v: "sum_dwords ?n buf 0 0 = Some (v, 4 * ?n)"
    "csum_eq (unat v) (word_sum (take (4 * ?n) buf))" "unat v \<le> ?n * 2 ^ 32"
    using sum_dwords_ok [of 0 ?n buf 0] assms len_split [of len] by auto
  have add: "unat (v + x) = unat v + unat x" if "unat x < 2 ^ 18" for x
    using that v(3) n by (simp add: unat_plus_small)
  have l: "4 * ?n \<le> unat len" using len_split [of len] by simp
  define t where "t = drop (4 * ?n) (take (unat len) buf)"
  have s: "word_sum (take (unat len) buf) = word_sum (take (4 * ?n) buf) + word_sum t"
  proof -
    have "length (take (4 * ?n) (take (unat len) buf)) = 4 * ?n" using l assms by simp
    then have "even (length (take (4 * ?n) (take (unat len) buf)))" by simp
    from word_sum_append [OF this, of t] show ?thesis
      unfolding t_def append_take_drop_id using l by (simp add: min_def)
  qed
  obtain x where x: "RawCheckSumCalculator buf len = Some (v + x)" "unat x = word_sum t"
    "unat x \<le> (unat len - 4 * ?n) * 2 ^ 15"
    using raw_tail_ok [OF assms v(1)] unfolding t_def by blast
  have d: "unat len - 4 * ?n \<le> 3" using len_split [of len] by simp
  have "unat x \<le> 3 * 2 ^ 15" using x(3) mult_le_mono1 [OF d, of "2 ^ 15"] by linarith
  then have vx: "unat (v + x) = unat v + unat x" by (intro add) simp
  have "unat v + unat x \<le> unat len * 2 ^ 30"
    using v(3) x(3) l by (simp add: diff_mult_distrib)
  then show ?thesis
    using x(1) csum_eq_add [OF v(2) csum_eq_refl [of "unat x"]] by (simp add: vx s x(2))
qed

lemma CheckSumCalculatorFlat_rfc1071:
  "unat len \<le> length buf \<Longrightarrow> CheckSumCalculatorFlat buf len = Some (rfc1071 (take (unat len) buf))"
  using RawCheckSumCalculator_ok [of len buf]
  by (auto simp: CheckSumCalculatorFlat_def RawCheckSumFinalize_norm rfc1071_norm dest: csum_eq_norm)

subsection \<open>The ARM64 summation\<close>

lemma sum_byte_pairs_ok:
  assumes "ptr + 2 * n \<le> length buf" "unat val + n * 2 ^ 16 \<le> 2 ^ 63"
  shows "\<exists>v. sum_byte_pairs n buf ptr val = Some (v, ptr + 2 * n) \<and>
    unat v = unat val + word_sum (take (2 * n) (drop ptr buf)) \<and> unat v \<le> unat val + n * 2 ^ 16"
  using assms
proof (induction n arbitrary: ptr val)
  case (Suc n)
  define a where "a = buf ! ptr"
  define b where "b = buf ! (ptr + 1)"
  have g: "get8 buf ptr = Some a" "get8 buf (ptr + 1) = Some b"
    using Suc.prems(1) by (simp_all add: a_def b_def)
  have s: "unat a < 256" "unat b < 256"
    using unsigned_less [of a, where ?'a = nat] unsigned_less [of b, where ?'a = nat] by simp_all
  have p: "unat (push_bit 8 (ucast b :: u64)) = 256 * unat b"
    unfolding unsigned_push_bit_eq using s(2)
    by (simp add: unat_ucast_8_64 push_bit_eq_mult take_bit_nat_eq_self)
  define w where "w = val + ucast a + push_bit 8 (ucast b :: u64)"
  have w: "unat w = unat val + (unat a + 256 * unat b)"
  proof -
    have "unat (val + ucast a) = unat val + unat a"
      using Suc.prems(2) s by (subst unat_plus_small) (simp_all add: unat_ucast_8_64)
    then show ?thesis
      unfolding w_def using Suc.prems(2) s by (subst unat_plus_small) (simp_all add: p)
  qed
  have "\<exists>v. sum_byte_pairs n buf (ptr + 2) w = Some (v, ptr + 2 + 2 * n) \<and>
    unat v = unat w + word_sum (take (2 * n) (drop (ptr + 2) buf)) \<and> unat v \<le> unat w + n * 2 ^ 16"
    using Suc.prems s by (intro Suc.IH) (simp_all add: w)
  moreover have "take (2 * Suc n) (drop ptr buf) = a # b # take (2 * n) (drop (ptr + 2) buf)"
    using Suc.prems(1) by (simp add: take_drop_two a_def b_def)
  ultimately show ?case using s by (auto simp: g w [unfolded w_def] w_def simp del: One_nat_def)
qed simp

lemma RawCheckSumCalculator_arm64_ok:
  assumes "unat len \<le> length buf"
  shows "\<exists>v. RawCheckSumCalculator_arm64 buf len = Some v \<and>
    unat v = word_sum (take (unat len) buf)"
proof -
  let ?n = "unat (drop_bit 1 len)"
  have d: "?n = unat len div 2" unfolding unat_drop_bit_eq by (simp add: drop_bit_eq_div)
  have o: "len AND 1 \<noteq> 0 \<longleftrightarrow> odd (unat len)"
    using len_split [of len] by auto
  have l: "unat len = 2 * ?n + (if len AND 1 \<noteq> 0 then 1 else 0)"
    unfolding d o by auto
  have n: "?n < 2 ^ 31" using l unsigned_less [of len, where ?'a = nat] by (simp split: if_splits)
  obtain v where v: "sum_byte_pairs ?n buf 0 0 = Some (v, 2 * ?n)"
    "unat v = word_sum (take (2 * ?n) buf)" "unat v \<le> ?n * 2 ^ 16"
    using sum_byte_pairs_ok [of 0 ?n buf 0] assms l n by auto
  show ?thesis
  proof (cases "len AND 1 \<noteq> 0")
    case True
    let ?b = "buf ! (2 * ?n)"
    have "unat ?b < 256" using unsigned_less [of ?b, where ?'a = nat] by simp
    then have "unat (v + ucast ?b) = unat v + unat ?b"
      using v(3) n by (subst unat_plus_small) (simp_all add: unat_ucast_8_64)
    moreover have "take (unat len) buf = take (2 * ?n) buf @ [?b]"
      using True l assms by (simp add: take_Suc_conv_app_nth)
    moreover have "length (take (2 * ?n) buf) = 2 * ?n" using l assms by simp
    then have "even (length (take (2 * ?n) buf))" by simp
    ultimately show ?thesis
      using True l assms v by (simp add: RawCheckSumCalculator_arm64_def word_sum_append)
  next
    case False
    then show ?thesis using l v by (simp add: RawCheckSumCalculator_arm64_def)
  qed
qed

lemma arm64_finalize_rfc1071: "unat len \<le> length buf \<Longrightarrow>
  map_option RawCheckSumFinalize (RawCheckSumCalculator_arm64 buf len) =
    Some (rfc1071 (take (unat len) buf))"
  using RawCheckSumCalculator_arm64_ok [of len buf]
  by (auto simp: RawCheckSumFinalize_norm rfc1071_norm)

subsection \<open>Paged buffers\<close>

definition page_data :: "data_page \<Rightarrow> bytes" where
  "page_data p = take (unat (page_size p)) (page_virtual p)"

definition packet_data :: "data_page list \<Rightarrow> bytes" where
  "packet_data pages = concat (map page_data pages)"

definition pages_ok :: "data_page list \<Rightarrow> bool" where
  "pages_ok pages \<longleftrightarrow> (\<forall>p\<in>set pages. unat (page_size p) \<le> length (page_virtual p)) \<and>
     (\<forall>p\<in>set (butlast pages). even (unat (page_size p)))"

lemma packet_data_simps [simp]:
  "packet_data [] = []" "packet_data (p # ps) = page_data p @ packet_data ps"
  by (simp_all add: packet_data_def)

lemma pages_ok_Cons: "pages_ok (p # ps) \<Longrightarrow> pages_ok ps \<and> length (page_data p) = unat (page_size p) \<and>
  unat (page_size p) \<le> length (page_virtual p) \<and> (ps \<noteq> [] \<longrightarrow> even (unat (page_size p)))"
  by (auto simp: pages_ok_def page_data_def split: if_splits)

lemma seek_page_ok:
  assumes "pages_ok pages" "unat start \<le> length (packet_data pages)" "even (unat start)"
  shows "\<exists>ps off. seek_page pages start = Some (ps, off) \<and> pages_ok ps \<and>
    packet_data ps = drop (unat start - unat off) (packet_data pages) \<and> unat off \<le> unat start \<and>
    even (unat off) \<and> (ps \<noteq> [] \<longrightarrow> off \<le> page_size (hd ps)) \<and> (ps = [] \<longrightarrow> off = 0)"
  using assms
proof (induction pages arbitrary: start)
  case Nil
  then have "start = 0" by (simp add: unat_eq_0)
  then show ?case by (simp add: seek_page.simps pages_ok_def)
next
  case (Cons p ps)
  note ok = pages_ok_Cons [OF Cons.prems(1)]
  show ?case
  proof (cases "page_size p < start")
    case True
    then have le: "unat (page_size p) < unat start" by (simp add: word_less_nat_alt)
    have u: "unat (start - page_size p) = unat start - unat (page_size p)"
      using True by (simp add: unat_minus_le)
    have "ps \<noteq> []" using Cons.prems(2) le ok by auto
    then have ev: "even (unat (start - page_size p))" using ok Cons.prems(3) u le by simp
    have tl: "unat (start - page_size p) \<le> length (packet_data ps)"
      using Cons.prems(2) ok by (simp add: u)
    obtain ps' off where ih: "seek_page ps (start - page_size p) = Some (ps', off)" "pages_ok ps'"
      "packet_data ps' = drop (unat start - unat (page_size p) - unat off) (packet_data ps)"
      "unat off \<le> unat start - unat (page_size p)" "even (unat off)"
      "ps' \<noteq> [] \<longrightarrow> off \<le> page_size (hd ps')" "ps' = [] \<longrightarrow> off = 0"
      using Cons.IH [OF _ tl ev] ok unfolding u by blast
    have "start \<noteq> 0" using le by auto
    then have "seek_page (p # ps) start = seek_page ps (start - page_size p)"
      using True by (simp add: seek_page.simps [of "p # ps"] min_def less_imp_le)
    moreover have "drop (unat start - unat off) (packet_data (p # ps)) =
      drop (unat start - unat (page_size p) - unat off) (packet_data ps)"
      using ih(4) ok le by (simp add: add.commute)
    ultimately show ?thesis using ih by auto
  next
    case False
    then have "seek_page (p # ps) start = Some (p # ps, start)"
      by (auto simp: seek_page.simps [of "p # ps"] min_def)
    then show ?thesis using False Cons.prems(1,3) by (simp add: linorder_not_less)
  qed
qed

lemma sum_pages_ok:
  assumes "pages_ok pages" "unat off + unat len \<le> length (packet_data pages)" "even (unat off)"
    "pages \<noteq> [] \<longrightarrow> off \<le> page_size (hd pages)" "unat acc + unat len * 2 ^ 30 \<le> 2 ^ 63"
  shows "\<exists>v. sum_pages pages off len acc = Some v \<and>
    csum_eq (unat v) (unat acc + word_sum (take (unat len) (drop (unat off) (packet_data pages))))"
  using assms
proof (induction pages arbitrary: off len acc)
  case Nil
  then have "len = 0" by (simp add: unat_eq_0)
  then show ?case by (simp add: sum_pages.simps)
next
  case (Cons p ps)
  note ok = pages_ok_Cons [OF Cons.prems(1)]
  define n where "n = min len (page_size p - off)"
  have off: "unat off \<le> unat (page_size p)" using Cons.prems(4) by (simp add: word_le_nat_alt)
  have un: "unat n = min (unat len) (unat (page_size p) - unat off)"
    using Cons.prems(4) by (auto simp: n_def min_def word_le_nat_alt unat_minus_le)
  define chunk where "chunk = take (unat n) (drop (unat off) (page_virtual p))"
  have cl: "length chunk = unat n" using ok un off by (auto simp: chunk_def min_def)
  have nd: "unat n \<le> length (drop (unat off) (page_virtual p))"
    using ok un off by (auto simp: min_def)
  obtain s where s: "RawCheckSumCalculator (drop (unat off) (page_virtual p)) n = Some s"
    "csum_eq (unat s) (word_sum chunk)" "unat s \<le> unat n * 2 ^ 30"
    using RawCheckSumCalculator_ok [OF nd] unfolding chunk_def by blast
  have nl: "unat n \<le> unat len" using un by simp
  have d: "unat (len - n) = unat len - unat n" using nl by (simp add: unat_minus_le word_le_nat_alt)
  have acc: "unat (acc + s) = unat acc + unat s"
    using Cons.prems(5) s(3) mult_le_mono1 [OF nl, of "2 ^ 30"] by (intro unat_plus_small) simp
  have split: "take (unat len) (drop (unat off) (packet_data (p # ps))) =
    chunk @ take (unat len - unat n) (packet_data ps)"
  proof -
    have A: "drop (unat off) (page_data p) =
      take (unat (page_size p) - unat off) (drop (unat off) (page_virtual p))"
      by (simp add: page_data_def drop_take)
    have "length (drop (unat off) (page_data p)) = unat (page_size p) - unat off" using ok by simp
    moreover have "unat len - (unat (page_size p) - unat off) = unat len - unat n"
      by (auto simp: un min_def)
    ultimately show ?thesis using ok off by (simp add: A chunk_def un)
  qed
  have ev: "even (unat n) \<or> unat len - unat n = 0"
    using ok un off Cons.prems(2,3) by (cases ps) (auto simp: min_def)
  have "\<exists>v. sum_pages ps 0 (len - n) (acc + s) = Some v \<and> csum_eq (unat v)
    (unat (acc + s) + word_sum (take (unat (len - n)) (drop (unat (0 :: u32)) (packet_data ps))))"
  proof (rule Cons.IH)
    show "unat (0 :: u32) + unat (len - n) \<le> length (packet_data ps)"
      using Cons.prems(2) ok un off by (auto simp: d min_def)
    show "unat (acc + s) + unat (len - n) * 2 ^ 30 \<le> 2 ^ 63"
      using Cons.prems(5) s(3) nl by (simp add: acc d diff_mult_distrib)
  qed (use ok in auto)
  then obtain v where v: "sum_pages ps 0 (len - n) (acc + s) = Some v" "csum_eq (unat v)
    (unat acc + unat s + word_sum (take (unat len - unat n) (packet_data ps)))"
    by (auto simp: acc d)
  have w: "word_sum (take (unat len) (drop (unat off) (packet_data (p # ps)))) =
    word_sum chunk + word_sum (take (unat len - unat n) (packet_data ps))"
    unfolding split using ev cl by (auto simp: word_sum_append)
  have "csum_eq (unat acc + unat s + w) (unat acc + (word_sum chunk + w))" for w
    using csum_eq_add [OF csum_eq_refl [of "unat acc"] csum_eq_add [OF s(2) csum_eq_refl [of w]]]
    by (simp add: add.assoc)
  then have c: "csum_eq (unat v)
    (unat acc + word_sum (take (unat len) (drop (unat off) (packet_data (p # ps)))))"
    using v(2) unfolding w by (auto simp: csum_eq_def)
  show ?case
  proof (cases "len = 0")
    case True
    then show ?thesis by (simp add: sum_pages.simps [of "p # ps"])
  next
    case False
    then have "sum_pages (p # ps) off len acc = sum_pages ps 0 (len - n) (acc + s)"
      using s(1) by (simp add: sum_pages.simps [of "p # ps"] n_def)
    then show ?thesis using v(1) c by simp
  qed
qed

lemma CheckSumCalculator_rfc1071:
  assumes "pages_ok pages" "even (unat start)"
    "unat start + unat len \<le> length (packet_data pages)"
  shows "CheckSumCalculator pages start len =
    Some (rfc1071 (take (unat len) (drop (unat start) (packet_data pages))))"
proof -
  obtain ps off where ps: "seek_page pages start = Some (ps, off)" "pages_ok ps"
    "packet_data ps = drop (unat start - unat off) (packet_data pages)" "unat off \<le> unat start"
    "even (unat off)" "ps \<noteq> [] \<longrightarrow> off \<le> page_size (hd ps)"
    using seek_page_ok [OF assms(1) _ assms(2)] assms(3) by auto
  have "unat len * 2 ^ 30 \<le> 2 ^ 63"
    using unsigned_less [of len, where ?'a = nat] by simp
  moreover have len: "unat off + unat len \<le> length (packet_data ps)"
    using ps(3,4) assms(3) by simp
  ultimately obtain v where v: "sum_pages ps off len 0 = Some v"
    "csum_eq (unat v) (word_sum (take (unat len) (drop (unat off) (packet_data ps))))"
    using sum_pages_ok [OF ps(2) _ ps(5,6), of len 0] len ps(3,4) assms(3) by auto
  moreover have "drop (unat off) (packet_data ps) = drop (unat start) (packet_data pages)"
    using ps(3,4) by simp
  ultimately show ?thesis
    using csum_eq_norm by (simp add: CheckSumCalculator_def ps(1) RawCheckSumFinalize_norm rfc1071_norm)
qed

end
