(* ===== verification/NetRssProofs.thy ===== *)
theory NetRssProofs
  imports NetRss SwOffloadProofs
begin

text \<open>
  Lemmas on the receive side scaling: the Toeplitz hash against its definition over a stream of
  bits.
\<close>

unbundle bit_operations_syntax

subsection \<open>The Toeplitz hash\<close>

text \<open>
  Reference: bit \<open>i\<close> of a byte string counts from the most significant bit of its first byte;
  \<open>key_window\<close> are the 32 bits of the key from bit \<open>i\<close> on, and the hash is the exclusive or of the
  windows at the positions of the set bits of the data.
\<close>

definition stream_bit :: "bytes \<Rightarrow> nat \<Rightarrow> bool" where
  "stream_bit xs i = bit (xs ! (i div 8)) (7 - i mod 8)"

definition bits_at :: "bytes \<Rightarrow> nat \<Rightarrow> nat \<Rightarrow> u32" where
  "bits_at xs i n = fold (\<lambda>j w. push_bit 1 w OR of_bool (stream_bit xs j)) [i..<i + n] 0"

definition key_window :: "bytes \<Rightarrow> nat \<Rightarrow> u32" where
  "key_window key i = bits_at key i 32"

definition toeplitz_upto :: "bytes \<Rightarrow> bytes \<Rightarrow> nat \<Rightarrow> u32" where
  "toeplitz_upto key data n =
     fold (\<lambda>i h. if stream_bit data i then h XOR key_window key i else h) [0..<n] 0"

definition toeplitz :: "bytes \<Rightarrow> bytes \<Rightarrow> u32" where
  "toeplitz key data = toeplitz_upto key data (8 * length data)"

lemma stream_bit_byte: "b < 8 \<Longrightarrow> stream_bit xs (8 * p + b) = bit (xs ! p) (7 - b)"
  by (simp add: stream_bit_def)

lemma bit_shift_in: "bit (push_bit 1 w OR of_bool b :: u32) j \<longleftrightarrow> (case j of 0 \<Rightarrow> b | Suc k \<Rightarrow> k < 31 \<and> bit w k)"
  unfolding bit_or_iff bit_push_bit_iff bit_of_bool_iff by (auto split: nat.splits)

lemma bit_bits_at: "bit (bits_at xs i n) j \<longleftrightarrow> j < 32 \<and> j < n \<and> stream_bit xs (i + n - 1 - j)"
proof (induction n arbitrary: j)
  case 0 then show ?case by (simp add: bits_at_def)
next
  case (Suc n)
  have e: "bits_at xs i (Suc n) = push_bit 1 (bits_at xs i n) OR of_bool (stream_bit xs (i + n))"
    by (simp add: bits_at_def)
  show ?case unfolding e bit_shift_in Suc.IH by (auto split: nat.splits)
qed

lemma key_window_Suc: "push_bit 1 (key_window key i) OR of_bool (stream_bit key (i + 32)) = key_window key (Suc i)"
proof (rule bit_eqI)
  fix j
  show "bit (push_bit 1 (key_window key i) OR of_bool (stream_bit key (i + 32))) j = bit (key_window key (Suc i)) j"
    unfolding bit_shift_in key_window_def bit_bits_at by (auto simp: add.commute split: nat.splits)
qed

lemma bits_at_byte:
  assumes "i + n = 8 * p"
  shows "bits_at xs i (n + 8) = 256 * bits_at xs i n + ucast (xs ! p)"
proof -
  have "push_bit 8 (bits_at xs i n) OR ucast (xs ! p) = bits_at xs i (n + 8)"
  proof (rule bit_eqI)
    fix j assume "possible_bit TYPE(u32) j"
    then have j: "j < 32" by (simp add: possible_bit_def)
    show "bit (push_bit 8 (bits_at xs i n) OR ucast (xs ! p)) j = bit (bits_at xs i (n + 8)) j"
    proof (cases "j < 8")
      case True
      have e: "i + (n + 8) - 1 - j = 8 * p + (7 - j)" using assms True by simp
      show ?thesis
        using j True stream_bit_byte [of "7 - j" xs p]
        unfolding bit_or_iff bit_push_bit_iff bit_bits_at e by (simp add: bit_ucast_iff)
    next
      case False
      have e: "i + n - 1 - (j - 8) = i + (n + 8) - 1 - j" "\<not> bit (xs ! p) j"
        using False by (auto dest: bit_imp_le_length)
      show ?thesis
        using j False e(2) unfolding bit_or_iff bit_push_bit_iff bit_bits_at e(1)
        by (auto simp: bit_ucast_iff)
    qed
  qed
  moreover have "push_bit 8 (bits_at xs i n) OR ucast (xs ! p) = push_bit 8 (bits_at xs i n) + ucast (xs ! p)"
    by (rule disjunctive_add [symmetric])
      (unfold bit_push_bit_iff, auto simp: bit_ucast_iff dest: bit_imp_le_length)
  ultimately show ?thesis by (simp add: push_bit_eq_mult mult.commute)
qed

lemma key_window_0: "le32 (key ! 3) (key ! 2) (key ! 1) (key ! 0) = key_window key 0"
proof -
  have "bits_at key 0 0 = 0" by (simp add: bits_at_def)
  then show ?thesis
    using bits_at_byte [of 0 0 0 key] bits_at_byte [of 0 8 1 key] bits_at_byte [of 0 16 2 key]
      bits_at_byte [of 0 24 3 key] by (simp add: le32_def key_window_def)
qed

lemma toeplitz_step:
  assumes "b < 8" "d = data ! p" "k = key ! (p + 4)"
  shows "toeplitz_bits (b # bs) d k (key_window key (8 * p + b), toeplitz_upto key data (8 * p + b)) =
    toeplitz_bits bs d k (key_window key (8 * p + Suc b), toeplitz_upto key data (8 * p + Suc b))"
proof -
  have e: "8 * p + b + 32 = 8 * (p + 4) + b" by simp
  have "ucast (drop_bit (7 - b) k AND 1) = (of_bool (stream_bit key (8 * p + b + 32)) :: u32)"
    unfolding e stream_bit_byte [OF assms(1)] assms(3)
    by (simp add: and_one_eq bit_iff_odd_drop_bit mod2_eq_if)
  then have w: "push_bit 1 (key_window key (8 * p + b)) OR ucast (drop_bit (7 - b) k AND 1) =
    key_window key (Suc (8 * p + b))" by (simp only: key_window_Suc)
  have "(d AND push_bit (7 - b) 1 \<noteq> 0) = stream_bit data (8 * p + b)"
    unfolding stream_bit_byte [OF assms(1)] assms(2) bit_iff_and_push_bit_not_eq_0 ..
  then show ?thesis by (simp only: toeplitz_bits.simps w) (simp add: toeplitz_upto_def)
qed

lemma toeplitz_byte:
  assumes "d = data ! p" "k = key ! (p + 4)"
  shows "toeplitz_bits [0..<8] d k (key_window key (8 * p), toeplitz_upto key data (8 * p)) =
    (key_window key (8 * Suc p), toeplitz_upto key data (8 * Suc p))"
proof -
  have "toeplitz_bits [b..<8] d k (key_window key (8 * p + b), toeplitz_upto key data (8 * p + b)) =
    (key_window key (8 * Suc p), toeplitz_upto key data (8 * Suc p))" if "b \<le> 8" for b
    using that
  proof (induction rule: inc_induct)
    case base then show ?case by (simp add: add.commute)
  next
    case (step b)
    then show ?case using toeplitz_step [OF step(2) assms] by (simp add: upt_conv_Cons)
  qed
  from this [of 0] show ?thesis by simp
qed

lemma toeplitz_bytes_ok:
  assumes "drop p data = ds @ es" "p \<le> length data" "p + length ds + 4 \<le> length key"
  shows "toeplitz_bytes ds key (p + 4) (key_window key (8 * p), toeplitz_upto key data (8 * p)) =
    Some (p + length ds + 4, key_window key (8 * (p + length ds)), toeplitz_upto key data (8 * (p + length ds)))"
  using assms
proof (induction ds arbitrary: p)
  case Nil then show ?case by simp
next
  case (Cons d ds)
  have p: "p < length data" using Cons.prems(1) by (metis append_Cons drop_all list.distinct(1) not_less)
  have d: "d = data ! p" "drop (Suc p) data = ds @ es"
    using Cons.prems(1) Cons_nth_drop_Suc [OF p] by simp_all
  have "get8 key (p + 4) = Some (key ! (p + 4))" using Cons.prems(3) by simp
  then show ?case
    using toeplitz_byte [OF d(1) refl, of key] Cons.IH [OF d(2)] p Cons.prems(3)
    by (simp only: toeplitz_bytes.simps) simp
qed

lemma toeplitz_chunks_ok:
  assumes "drop p data = concat cs" "p \<le> length data" "length data + 4 \<le> length key"
  shows "toeplitz_chunks cs key (p + 4) (key_window key (8 * p), toeplitz_upto key data (8 * p)) =
    Some (toeplitz key data)"
  using assms
proof (induction cs arbitrary: p)
  case Nil then show ?case by (simp add: toeplitz_def)
next
  case (Cons c cs)
  have d: "drop p data = c @ concat cs" using Cons.prems(1) by simp
  have l: "length data - p = length c + length (concat cs)" using arg_cong [OF d, of length] by simp
  have d': "drop (p + length c) data = concat cs" using d by (metis add.commute append_eq_conv_conj drop_drop)
  show ?case
    using toeplitz_bytes_ok [OF d] Cons.IH [OF d'] Cons.prems l by simp
qed

lemma ToeplitzHash_ok:
  assumes "length (concat sg) + 4 \<le> length key"
  shows "ToeplitzHash sg key = Some (toeplitz key (concat sg))"
proof -
  have "0 < length key" using assms by linarith
  then have "get8 key 0 = Some (key ! 0)" by simp
  moreover have "toeplitz_upto key (concat sg) 0 = 0" by (simp add: toeplitz_upto_def)
  ultimately show ?thesis
    using toeplitz_chunks_ok [of 0 "concat sg" sg key] assms key_window_0 [of key]
    by (simp add: ToeplitzHash_def)
qed
end
