(* ===== verification/SwOffloadVerify.thy ===== *)
theory SwOffloadVerify
  imports SwOffloadProofs
begin

text \<open>
  Lemmas on the packet parser and on the routines that verify and fix checksums: the parser
  returns on every packet shorter than 63496 bytes, what its result says about the
  packet, which bytes it depends on, and the effect of the routines on one contiguous buffer.
\<close>

subsection \<open>Header sizes\<close>

lemma and_le_15: "unat (v AND 0xF :: u8) \<le> 15"
  using word_and_le1 [of v "0xF"] by (simp add: word_le_nat_alt and.commute)

lemma ip4_hsize:
  "unat (push_bit 2 (ucast (v AND 0xF)) :: u16) = 4 * unat (v AND 0xF :: u8)"
  "unat (IP_HEADER_LENGTH v) = 4 * unat (v AND 0xF)"
proof -
  have a: "unat (ucast (v AND 0xF) :: u16) = unat (v AND 0xF)" "unat (ucast (v AND 0xF) :: u32) = unat (v AND 0xF)"
    using and_le_15 [of v] by (simp_all add: unsigned_ucast_eq take_bit_nat_eq_self)
  show "unat (push_bit 2 (ucast (v AND 0xF)) :: u16) = 4 * unat (v AND 0xF :: u8)"
    unfolding unsigned_push_bit_eq a using and_le_15 [of v] by (simp add: push_bit_eq_mult take_bit_nat_eq_self)
  show "unat (IP_HEADER_LENGTH v) = 4 * unat (v AND 0xF)"
    unfolding IP_HEADER_LENGTH_def unsigned_push_bit_eq a using and_le_15 [of v]
    by (simp add: push_bit_eq_mult take_bit_nat_eq_self)
qed

lemma unat_ucast_16_8: "unat (w :: u16) < 256 \<Longrightarrow> unat (ucast w :: u8) = unat w"
  by (simp add: unsigned_ucast_eq take_bit_nat_eq_self)

lemma unat_ucast_8_16 [simp]: "unat (ucast (b :: u8) :: u16) = unat b"
  using unsigned_less [of b, where ?'a = nat] by (simp add: unsigned_ucast_eq take_bit_nat_eq_self)

lemma unat_ucast_8_32 [simp]: "unat (ucast (b :: u8) :: u32) = unat b"
  using unsigned_less [of b, where ?'a = nat] by (simp add: unsigned_ucast_eq take_bit_nat_eq_self)

lemma hsize_plus: "ucast (h :: u16) + k \<le> (len :: u32) \<longleftrightarrow> unat h + unat k \<le> unat len"
  if "unat k \<le> 65536" for k
proof -
  have "unat (ucast h + k) = unat h + unat k"
    using that unsigned_less [of h, where ?'a = nat] by (subst unat_plus_small) simp_all
  then show ?thesis by (simp add: word_le_nat_alt)
qed

subsection \<open>The transport header\<close>

text \<open>
  The bytes a checksum fix may write in the transport header at offset \<open>h\<close>.
\<close>

definition xxp_frame :: "nat \<Rightarrow> bytes \<Rightarrow> bytes \<Rightarrow> bool" where
  "xxp_frame h ip ip' \<longleftrightarrow> length ip' = length ip \<and>
     (\<forall>i. i \<notin> {h + 6, h + 7, h + 16, h + 17} \<longrightarrow> ip' ! i = ip ! i)"

definition data_offset_frame :: "u16 \<Rightarrow> bytes \<Rightarrow> bytes \<Rightarrow> bool" where
  "data_offset_frame h ip ip' \<longleftrightarrow> length ip' = length ip \<and>
     get16 ip' (unat h + 12) = get16 ip (unat h + 12)"

lemma data_offset_frameI:
  assumes "length ip' = length ip" "ip' ! (unat h + 12) = ip ! (unat h + 12)"
    "ip' ! (unat h + 13) = ip ! (unat h + 13)"
  shows "data_offset_frame h ip ip'"
proof -
  have "unat h + 12 + 1 = unat h + 13" by simp
  then show ?thesis using assms by (simp only: data_offset_frame_def get16_def nth_opt_def)
qed

lemma xxp_frame_data_offset: "xxp_frame (unat h) ip ip' \<Longrightarrow> data_offset_frame h ip ip'"
  by (rule data_offset_frameI) (auto simp: xxp_frame_def)

definition xxp_ok :: "u32 \<Rightarrow> u16 \<Rightarrow> parsing_result \<Rightarrow> bool" where
  "xxp_ok len h r \<longleftrightarrow> (xxpStatus r = ppresXxpKnown \<longrightarrow> xxpFull r \<and>
     unat h + (if TcpUdp r = ppresIsTCP then 20 else 8) \<le> unat len)"

text \<open>The fields that parsing the transport header keeps.\<close>

definition keeps :: "parsing_result \<Rightarrow> parsing_result \<Rightarrow> bool" where
  "keeps res r \<longleftrightarrow> ipCheckSum r = ipCheckSum res \<and> ipHeaderSize r = ipHeaderSize res \<and>
     fixedXxpCS r = fixedXxpCS res \<and> fixedIpCS r = fixedIpCS res \<and> xxpCheckSum r = xxpCheckSum res"

lemma keeps_refl [simp]: "keeps res res"
  by (simp add: keeps_def)

lemma keeps_updates [simp]:
  "keeps (res\<lparr> xxpStatus := s, TcpUdp := t, xxpFull := f \<rparr>) r = keeps res r"
  "keeps res (res\<lparr> xxpStatus := s \<rparr>)" "keeps res (res\<lparr> ipStatus := s \<rparr>)"
  by (simp_all add: keeps_def)

lemma xxp_frame_refl [simp]: "xxp_frame h ip ip"
  by (simp add: xxp_frame_def)

lemma ProcessTCPHeader_ok:
  assumes "unat len \<le> length ip"
  shows "\<exists>r. ProcessTCPHeader res ip len h = Some r \<and> xxp_ok len h r \<and> ipStatus r = ipStatus res \<and>
    keeps res r \<and> (\<forall>ip'. data_offset_frame h ip ip' \<longrightarrow> ProcessTCPHeader res ip' len h = Some r)"
proof (cases "unat h + 20 \<le> unat len")
  case True
  then obtain w where "get16 ip (unat h + 12) = Some w" using assms by simp
  then show ?thesis
    using True hsize_plus [of 20 h len]
    by (simp add: ProcessTCPHeader_def xxp_ok_def data_offset_frame_def Let_def keeps_def)
next
  case False
  then show ?thesis
    using hsize_plus [of 20 h len] by (simp add: ProcessTCPHeader_def xxp_ok_def Let_def keeps_def)
qed

lemma ProcessUDPHeader_ok:
  assumes "unat len \<le> length ip"
  shows "\<exists>r. ProcessUDPHeader res ip len h = Some r \<and> xxp_ok len h r \<and> ipStatus r = ipStatus res \<and>
    keeps res r \<and> (\<forall>ip'. data_offset_frame h ip ip' \<longrightarrow> ProcessUDPHeader res ip' len h = Some r)"
  using assms hsize_plus [of 8 h len]
  by (auto simp: ProcessUDPHeader_def xxp_ok_def data_offset_frame_def Let_def keeps_def)

subsection \<open>The extension headers\<close>

lemma ext_loop_tcp: "qualify_ext_loop ip len full (6, hs, res) =
  map_option (\<lambda>r. (6, hs, r)) (ProcessTCPHeader (res\<lparr> xxpStatus := 2, TcpUdp := False,
    xxpFull := (ucast full \<le> len) \<rparr>) ip len hs)"
  by (subst qualify_ext_loop.simps) (simp add: qualify_ext_def map_option_bind map_conv_bind_option comp_def)

lemma ext_loop_udp: "qualify_ext_loop ip len full (17, hs, res) =
  map_option (\<lambda>r. (17, hs, r)) (ProcessUDPHeader (res\<lparr> xxpStatus := 2, TcpUdp := True,
    xxpFull := (ucast full \<le> len) \<rparr>) ip len hs)"
  by (subst qualify_ext_loop.simps) (simp add: qualify_ext_def map_option_bind map_conv_bind_option comp_def)

lemma ext_loop_end:
  "qualify_ext_loop ip len full (59, hs, res) = Some (59, hs, res)"
  "nh \<notin> {59, 6, 17} \<Longrightarrow> \<not> is_ip6_extension nh \<Longrightarrow>
    qualify_ext_loop ip len full (nh, hs, res) = Some (nh, hs, res\<lparr> xxpStatus := 1 \<rparr>)"
  "nh \<notin> {59, 6, 17} \<Longrightarrow> is_ip6_extension nh \<Longrightarrow> \<not> unat hs + 8 \<le> unat len \<Longrightarrow>
    qualify_ext_loop ip len full (nh, hs, res) = Some (nh, hs, res\<lparr> ipStatus := 1 \<rparr>)"
  using hsize_plus [of 8 hs len]
  by (subst qualify_ext_loop.simps, simp add: qualify_ext_def)+

lemma ext_loop_next:
  assumes "nh \<notin> {59, 6, 17}" "is_ip6_extension nh" "unat hs + 8 \<le> unat len" "unat len \<le> length ip"
  shows "qualify_ext_loop ip len full (nh, hs, res) =
    qualify_ext_loop ip len full (ip ! unat hs, hs + 8 + ucast (ip ! (unat hs + 1)) * 8, res)"
  using assms hsize_plus [of 8 hs len] by (subst qualify_ext_loop.simps) (simp add: qualify_ext_def)

lemma ext_loop_ok:
  assumes "unat len \<le> length ip" "unat len < 63496" "xxpStatus res = 0"
  shows "\<exists>n h r. qualify_ext_loop ip len full (nh, hs, res) = Some (n, h, r) \<and> hs \<le> h \<and>
    xxp_ok len h r \<and> (ipStatus r = ipStatus res \<or> ipStatus r = ppresNotIP) \<and> keeps res r \<and>
    (\<forall>ip'. xxp_frame (unat h) ip ip' \<longrightarrow>
       qualify_ext_loop ip' len full (nh, hs, res) = Some (n, h, r))"
  using assms
proof (induction "65536 - unat hs" arbitrary: nh hs res rule: less_induct)
  case less
  consider "nh = 6" | "nh = 17" | "nh = 59" | "nh \<notin> {59, 6, 17}" "\<not> is_ip6_extension nh"
    | "nh \<notin> {59, 6, 17}" "is_ip6_extension nh" "\<not> unat hs + 8 \<le> unat len"
    | "nh \<notin> {59, 6, 17}" "is_ip6_extension nh" "unat hs + 8 \<le> unat len" by blast
  then show ?case
  proof cases
    case 1
    show ?thesis unfolding 1 ext_loop_tcp
      using ProcessTCPHeader_ok [OF less.prems(1), of "res\<lparr> xxpStatus := 2, TcpUdp := False,
        xxpFull := (ucast full \<le> len) \<rparr>" hs] by (elim exE conjE) (simp add: xxp_frame_data_offset)
  next
    case 2
    show ?thesis unfolding 2 ext_loop_udp
      using ProcessUDPHeader_ok [OF less.prems(1), of "res\<lparr> xxpStatus := 2, TcpUdp := True,
        xxpFull := (ucast full \<le> len) \<rparr>" hs] by (elim exE conjE) (simp add: xxp_frame_data_offset)
  next
    case 3
    then show ?thesis using less.prems by (simp add: ext_loop_end xxp_ok_def)
  next
    case 4
    then show ?thesis using less.prems by (simp add: ext_loop_end xxp_ok_def)
  next
    case 5
    then show ?thesis using less.prems by (simp add: ext_loop_end xxp_ok_def)
  next
    case 6
    define hs' where "hs' = hs + 8 + ucast (ip ! (unat hs + 1)) * 8"
    have b: "unat (ip ! (unat hs + 1)) \<le> 255"
      using unsigned_less [of "ip ! (unat hs + 1)", where ?'a = nat] by simp
    have u: "unat hs' = unat hs + 8 + unat (ip ! (unat hs + 1)) * 8"
      using 6(3) less.prems(2) b by (simp add: hs'_def unat_word_ariths)
    have step: "qualify_ext_loop ip' len full (nh, hs, res) =
      qualify_ext_loop ip' len full (ip ! unat hs, hs', res)"
      if "length ip' = length ip" "\<And>i. i < unat hs' \<Longrightarrow> ip' ! i = ip ! i" for ip'
      using ext_loop_next [OF 6, of ip'] less.prems(1) that u by (simp add: hs'_def)
    have "65536 - unat hs' < 65536 - unat hs"
      using u unsigned_less [of hs', where ?'a = nat] by simp
    from less.hyps [OF this less.prems, of "ip ! unat hs"]
    obtain n h r where ih: "qualify_ext_loop ip len full (ip ! unat hs, hs', res) = Some (n, h, r)"
      "hs' \<le> h" "xxp_ok len h r" "ipStatus r = ipStatus res \<or> ipStatus r = ppresNotIP" "keeps res r"
      "\<And>ip'. xxp_frame (unat h) ip ip' \<Longrightarrow>
        qualify_ext_loop ip' len full (ip ! unat hs, hs', res) = Some (n, h, r)" by blast
    have "hs \<le> h" using ih(2) u by (simp add: word_le_nat_alt)
    moreover have "qualify_ext_loop ip' len full (nh, hs, res) = Some (n, h, r)"
      if "xxp_frame (unat h) ip ip'" for ip'
      using that ih(2,6) by (subst step) (auto simp: xxp_frame_def word_le_nat_alt)
    ultimately show ?thesis using ih(3-5) xxp_frame_refl by blast
  qed
qed

subsection \<open>The parsing result\<close>

abbreviation hsize_of :: "parsing_result \<Rightarrow> nat" where
  "hsize_of r \<equiv> unat (ipHeaderSize r)"

definition packet_frame :: "parsing_result \<Rightarrow> bytes \<Rightarrow> bytes \<Rightarrow> bool" where
  "packet_frame r ip ip' \<longleftrightarrow> length ip' = length ip \<and>
     (\<forall>i. i \<notin> {hsize_of r + 6, hsize_of r + 7, hsize_of r + 16, hsize_of r + 17} \<and>
        \<not> (ipStatus r = ppresIPV4 \<and> (i = 10 \<or> i = 11)) \<longrightarrow> ip' ! i = ip ! i)"

text \<open>
  What an accepted packet satisfies: the header sizes lie in the packet, the payload ends in
  it when the length was verified, and the result depends only on bytes that a checksum fix
  does not write.
\<close>

definition accepted :: "parsing_result \<Rightarrow> bool" where
  "accepted r \<longleftrightarrow> ipStatus r \<noteq> ppresNotIP \<and> ipCheckSum r \<noteq> ppresIPTooShort"

definition parsed :: "bytes \<Rightarrow> u32 \<Rightarrow> bool \<Rightarrow> parsing_result \<Rightarrow> bool" where
  "parsed ip len vl r \<longleftrightarrow>
     (ipStatus r = ppresIPV4 \<and> 20 \<le> unat len \<and> 20 \<le> hsize_of r \<and>
        IP_HEADER_LENGTH (ip ! 0) = ucast (ipHeaderSize r) \<or>
      ipStatus r = ppresIPV6 \<and> 40 \<le> unat len \<and> 40 \<le> hsize_of r \<and> ipCheckSum r = ppresCSOK) \<and>
     (\<exists>plen. GetXxpHeaderAndPayloadLen ip r = Some plen \<and> 
        (vl \<longrightarrow> hsize_of r + unat plen \<le> unat len)) \<and>
     xxp_ok len (ucast (ipHeaderSize r)) r"

lemma qualify_ip4_ok:
  assumes len: "unat len \<le> length ip" and ver: "drop_bit 4 (ip ! 0 AND 0xF0) = 4"
  shows "\<exists>r. qualify_ip4 ip len vl (ip ! 0) = Some r \<and> (accepted r \<longrightarrow> parsed ip len vl r \<and>
    ipStatus r = ppresIPV4 \<and>
    (\<forall>ip'. packet_frame r ip ip' \<longrightarrow> qualify_ip4 ip' len vl (ip ! 0) = Some r))"
proof (cases "len < 20")
  case True
  then show ?thesis by (simp add: qualify_ip4_def accepted_def)
next
  case False
  then have l20: "20 \<le> unat len" by (simp add: word_less_nat_alt)
  define h where "h = (push_bit 2 (ucast (ip ! 0 AND 0xF)) :: u16)"
  define full where "full = swap_short (le16 (ip ! 2) (ip ! 3))"
  have h60: "unat h \<le> 60" unfolding h_def ip4_hsize using and_le_15 [of "ip ! 0"] by simp
  have g: "get16 ip 2 = Some (le16 (ip ! 2) (ip ! 3))" using l20 len by (simp add: numeral_eq_Suc)
  show ?thesis
  proof (cases "20 \<le> h \<and> \<not> (full \<le> h \<or> vl \<and> len < ucast full)")
    case bad: False
    then show ?thesis
      using False g by (auto simp: qualify_ip4_def h_def [symmetric] full_def [symmetric] accepted_def)
  next
    case ok: True
    define res where "res = zero_result\<lparr> ipStatus := ppresIPV4, ipHeaderSize := ucast h,
      IsFragment := (le16 (ip ! 6) (ip ! 7) AND NOT 0xC0 \<noteq> 0) \<rparr>"
    define rest where "rest ip' = (if ip ! 9 = 6 then ProcessTCPHeader res ip' len h
      else if ip ! 9 = 17 then ProcessUDPHeader res ip' len h
      else Some (res\<lparr> xxpStatus := ppresXxpOther \<rparr>))" for ip'
    have hs: "unat (ucast h :: u8) = unat h" using h60 by (simp add: unat_ucast_16_8)
    have h20: "20 \<le> unat h" using ok by (simp add: word_le_nat_alt)
    have q: "qualify_ip4 ip' len vl (ip ! 0) = rest ip'"
      if "length ip' = length ip" "\<And>i. i < 10 \<Longrightarrow> ip' ! i = ip ! i" for ip'
      using that False ok len l20
      by (cases vl) (simp_all add: qualify_ip4_def rest_def res_def h_def [symmetric] full_def)
    have rs: "ipStatus res = 2" by (simp add: res_def)
    have "\<exists>r. rest ip = Some r \<and> xxp_ok len h r \<and> ipStatus r = 2 \<and> keeps res r \<and>
      (\<forall>ip'. data_offset_frame h ip ip' \<longrightarrow> rest ip' = Some r)"
    proof (cases "ip ! 9 = 6")
      case True
      then show ?thesis using ProcessTCPHeader_ok [OF len, of res h] by (simp add: rest_def rs)
    next
      case no_tcp: False
      show ?thesis
      proof (cases "ip ! 9 = 17")
        case True
        then show ?thesis using ProcessUDPHeader_ok [OF len, of res h] by (simp add: rest_def rs)
      next
        case False
        then show ?thesis using no_tcp rs by (simp add: rest_def xxp_ok_def)
      qed
    qed
    then obtain r where r: "rest ip = Some r" "xxp_ok len h r" "ipStatus r = 2" "keeps res r"
      "\<And>ip'. data_offset_frame h ip ip' \<Longrightarrow> rest ip' = Some r" by blast
    have i: "ipHeaderSize r = ucast h" "hsize_of r = unat h" "ucast (ipHeaderSize r) = h"
      "ipCheckSum r = 0"
      using r(4) hs by (simp_all add: keeps_def res_def zero_result_def word_unat_eq_iff)
    have hl: "IP_HEADER_LENGTH (ip ! 0) = ucast (ipHeaderSize r)"
      by (intro word_unat_eq_iff [THEN iffD2]) (simp add: ip4_hsize i(2) h_def)
    have "ucast (IP_HEADER_LENGTH (ip ! 0)) = h"
      using h60 by (simp add: word_unat_eq_iff unat_ucast_32_16 ip4_hsize h_def)
    moreover have "get8 ip 0 = Some (ip ! 0)" using l20 len by (intro get8_in) linarith
    ultimately have "GetXxpHeaderAndPayloadLen ip r = Some (full - h)"
      using l20 len by (simp add: GetXxpHeaderAndPayloadLen_def r(3) full_def)
    moreover have "vl \<longrightarrow> hsize_of r + unat (full - h) \<le> unat len"
      using ok by (auto simp: i(2) word_le_nat_alt word_less_nat_alt unat_sub)
    moreover have "qualify_ip4 ip' len vl (ip ! 0) = Some r" if "packet_frame r ip ip'" for ip'
    proof -
      have "data_offset_frame h ip ip'"
        using that h20 r(3) by (intro data_offset_frameI) (auto simp: packet_frame_def i(2))
      then show ?thesis using that h20 r(3,5) by (subst q) (auto simp: packet_frame_def i(2))
    qed
    ultimately show ?thesis
      using q [of ip] r i h20 l20 hl by (auto simp: parsed_def)
  qed
qed

lemma qualify_ip6_ok:
  assumes len: "unat len \<le> length ip" "unat len < 63496"
  shows "\<exists>r. qualify_ip6 ip len vl = Some r \<and> (accepted r \<longrightarrow> parsed ip len vl r \<and>
    ipStatus r = ppresIPV6 \<and>
    (\<forall>ip'. packet_frame r ip ip' \<longrightarrow> qualify_ip6 ip' len vl = Some r))"
proof (cases "len < 40")
  case True
  then show ?thesis by (simp add: qualify_ip6_def accepted_def)
next
  case False
  then have l40: "40 \<le> unat len" by (simp add: word_less_nat_alt)
  define full where "full = swap_short (le16 (ip ! 4) (ip ! 5)) + 40"
  define res where "res = zero_result\<lparr> ipStatus := ppresIPV6, ipCheckSum := ppresCSOK \<rparr>"
  have q: "qualify_ip6 ip' len vl = (if vl \<and> len < ucast full then Some (res\<lparr> ipStatus := ppresNotIP \<rparr>)
    else do { (n, h, r) \<leftarrow> qualify_ext_loop ip' len full (ip ! 6, 40, res);
      Some (if h \<le> 252 \<and> h \<le> full then r\<lparr> ipHeaderSize := ucast h \<rparr>
            else r\<lparr> ipStatus := ppresNotIP \<rparr>) })"
    if "length ip' = length ip" "\<And>i. i < 40 \<Longrightarrow> ip' ! i = ip ! i" for ip'
  proof -
    have "get8 ip' 6 = Some (ip ! 6)" "get16 ip' 4 = Some (le16 (ip ! 4) (ip ! 5))"
      using that l40 len by simp_all
    then show ?thesis
      using False by (simp add: qualify_ip6_def full_def res_def Let_def if_distrib cong: if_cong)
  qed
  obtain n h r where r: "qualify_ext_loop ip len full (ip ! 6, 40, res) = Some (n, h, r)" "40 \<le> h"
    "xxp_ok len h r" "ipStatus r = 3 \<or> ipStatus r = 1" "keeps res r"
    "\<And>ip'. xxp_frame (unat h) ip ip' \<Longrightarrow>
      qualify_ext_loop ip' len full (ip ! 6, 40, res) = Some (n, h, r)"
    using ext_loop_ok [OF len, of res full "ip ! 6" 40] by (auto simp: res_def zero_result_def)
  show ?thesis
  proof (cases "\<not> (vl \<and> len < ucast full) \<and> h \<le> 252 \<and> h \<le> full \<and> ipStatus r = 3")
    case False
    then show ?thesis using q [of ip] r(1,4) by (auto simp: accepted_def split: if_splits)
  next
    case True
    define r' where "r' = r\<lparr> ipHeaderSize := ucast h \<rparr>"
    have h: "40 \<le> unat h" "unat h \<le> 252" "unat h \<le> unat full"
      using True r(2) by (simp_all add: word_le_nat_alt)
    have hs: "hsize_of r' = unat h" using h by (simp add: r'_def unat_ucast_16_8)
    have hu: "ucast (ipHeaderSize r') = h" by (simp add: word_unat_eq_iff hs)
    have "GetXxpHeaderAndPayloadLen ip r' = Some (full - h)"
      using l40 len True by (simp add: GetXxpHeaderAndPayloadLen_def hu r'_def [symmetric] full_def)
        (simp add: r'_def)
    moreover have "vl \<longrightarrow> hsize_of r' + unat (full - h) \<le> unat len"
      using True h by (auto simp: hs word_le_nat_alt word_less_nat_alt unat_sub)
    moreover have "qualify_ip6 ip' len vl = Some r'" if "packet_frame r' ip ip'" for ip'
    proof -
      have x: "xxp_frame (unat h) ip ip'"
        using that True by (auto simp: packet_frame_def xxp_frame_def hs) (auto simp: r'_def)
      then have "length ip' = length ip" "\<And>i. i < 40 \<Longrightarrow> ip' ! i = ip ! i"
        using h(1) by (auto simp: xxp_frame_def)
      from q [OF this] show ?thesis using True r(6) [OF x] by (auto simp: r'_def)
    qed
    moreover have "qualify_ip6 ip len vl = Some r'" using q [of ip] r(1) True by (auto simp: r'_def)
    moreover have "xxp_ok len h r'" "ipStatus r' = 3" "ipCheckSum r' = 2"
      using r(3,5) True by (simp_all add: r'_def xxp_ok_def keeps_def res_def zero_result_def)
    ultimately show ?thesis using h l40 by (auto simp: parsed_def hs hu)
  qed
qed

lemma QualifyIpPacket_ok:
  assumes len: "unat len \<le> length ip" "unat len < 63496"
  shows "\<exists>r. QualifyIpPacket ip len vl = Some r \<and> (accepted r \<longrightarrow> parsed ip len vl r \<and>
    (\<forall>ip'. packet_frame r ip ip' \<longrightarrow> QualifyIpPacket ip' len vl = Some r))"
proof (cases "len < 4")
  case True
  then show ?thesis by (simp add: QualifyIpPacket_def accepted_def)
next
  case False
  then have "4 \<le> unat len" by (simp add: word_less_nat_alt)
  then have "0 < length ip" using len(1) by linarith
  then have q: "QualifyIpPacket ip' len vl = (if drop_bit 4 (ip ! 0 AND 0xF0) = 4
      then qualify_ip4 ip' len vl (ip ! 0) else if drop_bit 4 (ip ! 0 AND 0xF0) = 6
      then qualify_ip6 ip' len vl else Some (zero_result\<lparr> ipStatus := ppresNotIP \<rparr>))"
    if "length ip' = length ip" "ip' ! 0 = ip ! 0" for ip'
    using False that by (simp add: QualifyIpPacket_def)
  have f: "length ip' = length ip \<and> ip' ! 0 = ip ! 0" if "packet_frame r ip ip'" for r ip'
    using that by (simp add: packet_frame_def)
  consider "drop_bit 4 (ip ! 0 AND 0xF0) = 4" | "drop_bit 4 (ip ! 0 AND 0xF0) = 6"
    | "drop_bit 4 (ip ! 0 AND 0xF0) \<noteq> 4" "drop_bit 4 (ip ! 0 AND 0xF0) \<noteq> 6" by blast
  then show ?thesis
  proof cases
    case 1
    from qualify_ip4_ok [OF len(1) this, of vl] show ?thesis using 1 q f by (elim exE conjE) auto
  next
    case 2
    from qualify_ip6_ok [OF len, of vl] show ?thesis using 2 q f by (elim exE conjE) auto
  next
    case 3
    then show ?thesis using q [of ip] by (simp add: accepted_def)
  qed
qed

subsection \<open>Storing a checksum\<close>

definition set16 :: "bytes \<Rightarrow> nat \<Rightarrow> u16 \<Rightarrow> bytes" where
  "set16 buf i w = buf[i := ucast w, i + 1 := ucast (drop_bit 8 w)]"

lemma length_set16 [simp]: "length (set16 buf i w) = length buf"
  by (simp add: set16_def)

lemma put16_in [simp]: "i + 1 < length buf \<Longrightarrow> put16 buf i w = Some (set16 buf i w)"
  by (simp add: put16_def set16_def)

lemma le16_bytes: "le16 (ucast w) (ucast (drop_bit 8 w)) = w"
proof -
  have "unat (ucast w :: u8) = unat w mod 256"
    by (simp only: unsigned_ucast_eq take_bit_eq_mod) simp
  moreover have "unat (ucast (drop_bit 8 w) :: u8) = unat w div 256"
  proof -
    have "unat (drop_bit 8 w) = unat w div 256"
      unfolding unat_drop_bit_eq by (simp add: drop_bit_eq_div)
    moreover have "unat w div 256 < 256"
      using unsigned_less [of w, where ?'a = nat] by (simp add: less_mult_imp_div_less)
    ultimately show ?thesis by (simp add: unat_ucast_16_8)
  qed
  ultimately show ?thesis by (simp add: word_unat_eq_iff unat_le16)
qed

lemma bytes_le16: "ucast (le16 a b) = a" "ucast (drop_bit 8 (le16 a b)) = b"
proof -
  have s: "unat a < 256" "unat b < 256"
    using unsigned_less [of a, where ?'a = nat] unsigned_less [of b, where ?'a = nat] by simp_all
  have "unat (ucast (le16 a b) :: u8) = unat (le16 a b) mod 256"
    by (simp only: unsigned_ucast_eq take_bit_eq_mod) simp
  also have "\<dots> = unat a" using s by (simp add: unat_le16 mod_simps)
  finally show "ucast (le16 a b) = a" by (simp add: word_unat_eq_iff)
  have "unat (drop_bit 8 (le16 a b)) = unat b"
    unfolding unat_drop_bit_eq using s by (simp add: drop_bit_eq_div unat_le16)
  then show "ucast (drop_bit 8 (le16 a b)) = b" using s by (simp add: word_unat_eq_iff unat_ucast_16_8)
qed

lemma get16_set16 [simp]: "i + 1 < length buf \<Longrightarrow> get16 (set16 buf i w) i = Some w"
  by (simp add: set16_def le16_bytes)

lemma set16_set16 [simp]: "set16 (set16 buf i v) i w = set16 buf i w"
  by (simp add: set16_def list_update_swap [of "Suc i" i])

lemma set16_same: "get16 buf i = Some w \<Longrightarrow> set16 buf i w = buf"
  by (auto simp: get16_def nth_opt_def set16_def bytes_le16 split: if_splits)

lemma set16_nth: "j \<noteq> i \<Longrightarrow> j \<noteq> i + 1 \<Longrightarrow> set16 buf i w ! j = buf ! j"
  by (simp add: set16_def)

lemma get_set16_other: "i + 1 < j \<or> j + 1 < i \<Longrightarrow> get16 (set16 buf i w) j = get16 buf j"
  by (auto simp: get16_def nth_opt_def set16_nth)

subsection \<open>One contiguous page\<close>

abbreviation flat :: "bytes \<Rightarrow> u32 \<Rightarrow> data_page list" where
  "flat buf len \<equiv> [\<lparr> page_virtual = buf, page_size = len \<rparr>]"

lemma page0_flat [simp]: "page0 (flat buf len) = Some buf"
  by (simp add: page0_def)

lemma page0_set_flat [simp]: "page0_set (flat buf len) b = flat b len"
  by (simp add: page0_set_def)

lemma page0_put16_flat [simp]:
  "i + 1 < length buf \<Longrightarrow> page0_put16 (flat buf len) i w = Some (flat (set16 buf i w) len)"
  by (simp add: page0_put16_def)

lemma rfc1071_Nil: "rfc1071 [] = 0xFFFF"
  by (simp add: rfc1071_norm csum_norm_def)

lemma CheckSumCalculator_flat:
  assumes "unat start + unat n \<le> unat len" "unat len \<le> length buf"
  shows "CheckSumCalculator (flat buf len) start n = Some (rfc1071 (take (unat n) (drop (unat start) buf)))"
proof -
  have s: "start \<le> len" using assms by (simp add: word_le_nat_alt)
  then have seek: "seek_page (flat buf len) start = Some (flat buf len, start)"
    by (auto simp: seek_page.simps [of "flat buf len"] min_def)
  show ?thesis
  proof (cases "n = 0")
    case True
    then show ?thesis
      by (simp add: CheckSumCalculator_def seek sum_pages.simps rfc1071_Nil RawCheckSumFinalize_norm csum_norm_def)
  next
    case False
    have "n \<le> len - start" using assms s by (simp add: word_le_nat_alt unat_minus_le)
    moreover have "unat n \<le> length (drop (unat start) buf)" using assms by simp
    from CheckSumCalculatorFlat_rfc1071 [OF this]
    obtain v where "RawCheckSumCalculator (drop (unat start) buf) n = Some v"
      "RawCheckSumFinalize v = rfc1071 (take (unat n) (drop (unat start) buf))"
      by (auto simp: CheckSumCalculatorFlat_def)
    ultimately show ?thesis
      using False by (simp add: CheckSumCalculator_def seek sum_pages.simps min_def)
  qed
qed

lemma rfc1071_nonzero: "rfc1071 xs = 0xFFFF \<longleftrightarrow> word_sum xs = 0"
proof -
  have "(0xFFFF :: u16) = NOT 0" by simp
  then have "rfc1071 xs = 0xFFFF \<longleftrightarrow> (of_nat (csum_norm (word_sum xs)) :: u16) = 0"
    unfolding rfc1071_norm by (simp only: bit.compl_eq_compl_iff)
  also have "\<dots> \<longleftrightarrow> csum_norm (word_sum xs) = 0"
    using csum_norm_less [of "word_sum xs"] by (simp add: word_unat_eq_iff unat_of_nat_small)
  finally show ?thesis by (simp add: csum_norm_def)
qed

subsection \<open>The pseudo header\<close>

lemma unat_swap_short: "unat (swap_short w) = 256 * (unat w mod 256) + unat w div 256"
proof -
  have a: "unat (drop_bit 8 w) = unat w div 256"
    unfolding unat_drop_bit_eq by (simp add: drop_bit_eq_div)
  have b: "unat (push_bit 8 w) = 256 * (unat w mod 256)"
  proof -
    have "unat (push_bit 8 w) = unat w * 256 mod (256 * 256)"
      unfolding unsigned_push_bit_eq by (simp add: push_bit_eq_mult take_bit_eq_mod)
    also have "\<dots> = unat w mod 256 * 256" by (rule mult_mod_left [symmetric])
    finally show ?thesis by (simp only: mult.commute)
  qed
  have "unat w div 256 < 256"
    using unsigned_less [of w, where ?'a = nat] by (simp add: less_mult_imp_div_less)
  moreover have "push_bit 8 w OR drop_bit 8 w = push_bit 8 w + drop_bit 8 w"
    by (rule disjunctive_add [symmetric]) (auto simp: bit_drop_bit_eq bit_push_bit_iff dest!: bit_imp_le_length)
  moreover have "unat w mod 256 \<le> 255" using mod_less_divisor [of 256 "unat w"] by simp
  ultimately show ?thesis
    unfolding swap_short_def by (simp add: unat_plus_small a b)
qed

lemma swap_short_eq_0 [simp]: "swap_short w = 0 \<longleftrightarrow> w = 0"
proof -
  have "unat (swap_short w) = 0 \<longleftrightarrow> unat w = 0"
    using div_mult_mod_eq [of "unat w" 256] by (auto simp: unat_swap_short)
  then show ?thesis by (simp add: unat_eq_0)
qed

lemma word_sum_bytes16: "word_sum (bytes16 w) = unat w"
  using le16_bytes [of w] by (simp add: bytes16_def unat_le16 [symmetric])

lemma get_bytes_in: "i + n \<le> length xs \<Longrightarrow> get_bytes xs i n = Some (take n (drop i xs))"
  by (simp add: get_bytes_def)

lemma get_bytes_frame:
  assumes "length ys = length xs" "\<And>j. i \<le> j \<Longrightarrow> j < i + n \<Longrightarrow> ys ! j = xs ! j"
  shows "get_bytes ys i n = get_bytes xs i n"
  using assms by (auto simp: get_bytes_def intro!: nth_equalityI)

lemma pseudo_sum_ne_0:
  assumes "even (length xs)" "plen \<noteq> 0"
  shows "NOT (rfc1071 (xs @ bytes16 (swap_short plen) @ ys)) \<noteq> 0"
proof -
  have "word_sum (xs @ bytes16 (swap_short plen) @ ys) =
    word_sum xs + (unat (swap_short plen) + word_sum ys)"
  proof -
    have "even (length (bytes16 (swap_short plen)))" by (simp add: bytes16_def)
    then show ?thesis using assms(1) by (simp only: word_sum_append word_sum_bytes16)
  qed
  moreover have "unat (swap_short plen) \<noteq> 0" using assms(2) by (simp add: unat_eq_0)
  ultimately have "rfc1071 (xs @ bytes16 (swap_short plen) @ ys) \<noteq> 0xFFFF"
    by (simp add: rfc1071_nonzero)
  moreover have "(0xFFFF :: u16) = NOT 0" by simp
  ultimately show ?thesis by (metis bit.double_compl)
qed

lemma ipv4_pseudo_ok:
  assumes "20 \<le> length ip"
  shows "\<exists>phcs. CalculateIpv4PseudoHeaderChecksum ip plen = Some phcs \<and> (plen \<noteq> 0 \<longrightarrow> phcs \<noteq> 0) \<and>
    (\<forall>ip'. length ip' = length ip \<and> (\<forall>i<20. i \<notin> {10, 11} \<longrightarrow> ip' ! i = ip ! i) \<longrightarrow>
      CalculateIpv4PseudoHeaderChecksum ip' plen = Some phcs)"
proof -
  let ?x = "take 4 (drop 12 ip) @ take 4 (drop 16 ip) @ [0, ip ! 9]"
  let ?l = "?x @ bytes16 (swap_short plen) @ []"
  have l: "length ?x = 10" using assms by simp
  then have c: "CheckSumCalculatorFlat ?l 12 = Some (rfc1071 ?l)"
    by (subst CheckSumCalculatorFlat_rfc1071) (simp_all add: bytes16_def)
  have eq: "CalculateIpv4PseudoHeaderChecksum ip' plen = Some (NOT (rfc1071 ?l))"
    if "length ip' = length ip" "\<forall>i<20. i \<notin> {10, 11} \<longrightarrow> ip' ! i = ip ! i" for ip'
  proof -
    have "get_bytes ip' 12 4 = get_bytes ip 12 4" "get_bytes ip' 16 4 = get_bytes ip 16 4"
      using that by (auto intro!: get_bytes_frame)
    moreover have "get8 ip' 9 = Some (ip ! 9)" using assms that by simp
    ultimately show ?thesis
      using assms c by (simp add: CalculateIpv4PseudoHeaderChecksum_def get_bytes_in)
  qed
  moreover have "plen \<noteq> 0 \<longrightarrow> NOT (rfc1071 ?l) \<noteq> 0"
  proof -
    have "even (length ?x)" unfolding l by simp
    from pseudo_sum_ne_0 [OF this] show ?thesis by blast
  qed
  ultimately show ?thesis by blast
qed

lemma ipv6_pseudo_ok:
  assumes "40 \<le> length ip"
  shows "\<exists>phcs. CalculateIpv6PseudoHeaderChecksum ip plen = Some phcs \<and> (plen \<noteq> 0 \<longrightarrow> phcs \<noteq> 0) \<and>
    (\<forall>ip'. length ip' = length ip \<and> (\<forall>i<40. ip' ! i = ip ! i) \<longrightarrow>
      CalculateIpv6PseudoHeaderChecksum ip' plen = Some phcs)"
proof -
  let ?x = "take 16 (drop 8 ip) @ take 16 (drop 24 ip)"
  let ?l = "?x @ bytes16 (swap_short plen) @ [0, 0, 0, 0, 0, ip ! 6]"
  have l: "length ?x = 32" using assms by simp
  then have c: "CheckSumCalculatorFlat ?l 40 = Some (rfc1071 ?l)"
    by (subst CheckSumCalculatorFlat_rfc1071) (simp_all add: bytes16_def)
  have eq: "CalculateIpv6PseudoHeaderChecksum ip' plen = Some (NOT (rfc1071 ?l))"
    if "length ip' = length ip" "\<forall>i<40. ip' ! i = ip ! i" for ip'
  proof -
    have "get_bytes ip' 8 16 = get_bytes ip 8 16" "get_bytes ip' 24 16 = get_bytes ip 24 16"
      using that by (auto intro!: get_bytes_frame)
    moreover have "get8 ip' 6 = Some (ip ! 6)" using assms that by simp
    ultimately show ?thesis
      using assms c by (simp add: CalculateIpv6PseudoHeaderChecksum_def get_bytes_in)
  qed
  moreover have "plen \<noteq> 0 \<longrightarrow> NOT (rfc1071 ?l) \<noteq> 0"
  proof -
    have "even (length ?x)" unfolding l by simp
    from pseudo_sum_ne_0 [OF this] show ?thesis by blast
  qed
  ultimately show ?thesis by blast
qed

lemma packet_frame_hd:
  assumes "packet_frame r ip ip'" "parsed ip len vl r"
  shows "length ip' = length ip" "ipStatus r = ppresIPV4 \<Longrightarrow> i < 20 \<Longrightarrow> i \<notin> {10, 11} \<Longrightarrow> ip' ! i = ip ! i"
    "ipStatus r = ppresIPV6 \<Longrightarrow> i < 40 \<Longrightarrow> ip' ! i = ip ! i"
  using assms by (auto simp: packet_frame_def parsed_def)

lemma CalculateIpPseudoHeaderChecksum_ok:
  assumes "parsed ip len vl r" "unat len \<le> length ip"
  shows "\<exists>phcs. CalculateIpPseudoHeaderChecksum ip r plen = Some phcs \<and> (plen \<noteq> 0 \<longrightarrow> phcs \<noteq> 0) \<and>
    (\<forall>ip'. packet_frame r ip ip' \<longrightarrow> CalculateIpPseudoHeaderChecksum ip' r plen = Some phcs)"
proof -
  consider "ipStatus r = 2" "20 \<le> length ip" | "ipStatus r = 3" "40 \<le> length ip"
    using assms by (auto simp: parsed_def)
  then show ?thesis
  proof cases
    case 1
    from ipv4_pseudo_ok [OF 1(2), of plen] show ?thesis
      using 1(1) packet_frame_hd [OF _ assms(1)]
      by (auto simp: CalculateIpPseudoHeaderChecksum_def)
  next
    case 2
    from ipv6_pseudo_ok [OF 2(2), of plen] show ?thesis
      using 2(1) packet_frame_hd [OF _ assms(1)]
      by (auto simp: CalculateIpPseudoHeaderChecksum_def)
  qed
qed

lemma GetXxpHeaderAndPayloadLen_frame:
  assumes "parsed ip len vl r" "packet_frame r ip ip'"
  shows "GetXxpHeaderAndPayloadLen ip' r = GetXxpHeaderAndPayloadLen ip r"
  using assms packet_frame_hd [OF assms(2,1)]
  by (auto simp: GetXxpHeaderAndPayloadLen_def get8_def get16_def nth_opt_def parsed_def)

subsection \<open>Verifying a contiguous packet\<close>

text \<open>The offset of the checksum field of the transport header.\<close>

definition xsum_at :: "parsing_result \<Rightarrow> nat" where
  "xsum_at r = hsize_of r + (if TcpUdp r = ppresIsTCP then 16 else 6)"

text \<open>
  The outcome of a verification of the transport checksum that does not ask for the
  pseudo header checksum: \<open>c\<close> is the computed checksum, \<open>phcs\<close> that of the
  pseudo header and \<open>saved\<close> the one in the packet.
\<close>

definition xxp_verified :: "u16 \<Rightarrow> u16 \<Rightarrow> u16 \<Rightarrow> bool \<Rightarrow> parsing_result \<Rightarrow> parsing_result" where
  "xxp_verified phcs c saved fix_it known = (
     let res = known\<lparr> xxpCheckSum :=
       (if CompareNetCheckSumOnEndSystem c saved then ppresCSOK
        else if CompareNetCheckSumOnEndSystem phcs saved then ppresPCSOK else ppresCSBad) \<rparr>
     in if fix_it then res\<lparr> fixedXxpCS := (xxpCheckSum res = ppresCSBad \<or> xxpCheckSum res = ppresPCSOK) \<rparr>
        else res)"

definition xxp_checksum :: "bytes \<Rightarrow> parsing_result \<Rightarrow> u16 \<Rightarrow> u16 \<Rightarrow> u16" where
  "xxp_checksum buf r plen phcs = rfc1071 (take (unat plen) (drop (hsize_of r) (set16 buf (xsum_at r) phcs)))"

definition known_xxp :: "bytes \<Rightarrow> u32 \<Rightarrow> parsing_result \<Rightarrow> bool" where
  "known_xxp buf len r \<longleftrightarrow> parsed buf len True r \<and> xxpStatus r = ppresXxpKnown \<and> unat len \<le> length buf"

lemma known_xxpD:
  assumes "known_xxp buf len r"
  shows "xsum_at r + 1 < length buf" "xsum_at r + 1 < unat len" "ucast (ipHeaderSize r) \<le> len" "xxpFull r"
    "TcpUdp r = ppresIsTCP \<Longrightarrow> ucast (ipHeaderSize r) + 20 \<le> len"
    "TcpUdp r = ppresIsUDP \<Longrightarrow> ucast (ipHeaderSize r) + 8 \<le> len"
proof -
  have a: "unat (ucast (ipHeaderSize r) + k :: u32) = hsize_of r + unat k" if "unat k \<le> 20" for k :: u32
    using that unsigned_less [of "ipHeaderSize r", where ?'a = nat] by (subst unat_plus_small) simp_all
  show "xsum_at r + 1 < length buf" "xsum_at r + 1 < unat len" "xxpFull r"
    using assms by (auto simp: known_xxp_def parsed_def xxp_ok_def xsum_at_def split: if_splits)
  show "ucast (ipHeaderSize r) \<le> len"
    "TcpUdp r = ppresIsTCP \<Longrightarrow> ucast (ipHeaderSize r) + 20 \<le> len"
    "TcpUdp r = ppresIsUDP \<Longrightarrow> ucast (ipHeaderSize r) + 8 \<le> len"
    using assms by (auto simp: known_xxp_def parsed_def xxp_ok_def word_le_nat_alt a split: if_splits)
qed

lemma xsum_frame: "packet_frame r buf (set16 buf (xsum_at r) w)"
  by (auto simp: packet_frame_def xsum_at_def set16_def)

lemma xxp_checksum_calc:
  assumes "known_xxp buf len r" "GetXxpHeaderAndPayloadLen buf r = Some plen" "length b = length buf"
  shows "CheckSumCalculator (flat b len) (ucast (ipHeaderSize r)) (ucast plen) =
    Some (rfc1071 (take (unat plen) (drop (hsize_of r) b)))"
  using assms by (subst CheckSumCalculator_flat) (auto simp: known_xxp_def parsed_def)

lemma VerifyTcpChecksum_returns:
  assumes k: "known_xxp buf len r" and t: "TcpUdp r = ppresIsTCP"
  shows "\<exists>r' b. VerifyTcpChecksum (flat buf len) len 0 r whatToFix = Some (r', flat b len) \<and>
    length b = length buf \<and> ipStatus r' = ipStatus r"
proof -
  obtain plen where plen: "GetXxpHeaderAndPayloadLen buf r = Some plen"
    using k by (auto simp: known_xxp_def parsed_def)
  obtain phcs where phcs: "CalculateIpPseudoHeaderChecksum buf r plen = Some phcs"
    using CalculateIpPseudoHeaderChecksum_ok k unfolding known_xxp_def by blast
  have x: "hsize_of r + 16 + 1 < length buf" using known_xxpD(1) [OF k] t by (simp add: xsum_at_def)
  have g: "get16 buf (hsize_of r + 16) = Some (le16 (buf ! (hsize_of r + 16)) (buf ! (hsize_of r + 16 + 1)))"
    using x by (rule get16_in)
  show ?thesis
    using x known_xxpD(3,4,5) [OF k] t
    by (simp add: VerifyTcpChecksum_def g plen phcs CalculateTcpChecksumGivenPseudoCS_def
      xxp_checksum_calc [OF k plen] Let_def del: get16_in)
qed

lemma VerifyUdpChecksum_returns:
  assumes k: "known_xxp buf len r" and t: "TcpUdp r = ppresIsUDP"
  shows "\<exists>r' b. VerifyUdpChecksum (flat buf len) len 0 r whatToFix = Some (r', flat b len) \<and>
    length b = length buf \<and> ipStatus r' = ipStatus r"
proof -
  obtain plen where plen: "GetXxpHeaderAndPayloadLen buf r = Some plen"
    using k by (auto simp: known_xxp_def parsed_def)
  obtain phcs where phcs: "CalculateIpPseudoHeaderChecksum buf r plen = Some phcs"
    using CalculateIpPseudoHeaderChecksum_ok k unfolding known_xxp_def by blast
  have x: "hsize_of r + 6 + 1 < length buf" using known_xxpD(1) [OF k] t by (simp add: xsum_at_def)
  have g: "get16 buf (hsize_of r + 6) = Some (le16 (buf ! (hsize_of r + 6)) (buf ! (hsize_of r + 6 + 1)))"
    using x by (rule get16_in)
  show ?thesis
    using x known_xxpD(3,4,6) [OF k] t
    by (simp add: VerifyUdpChecksum_def g plen phcs CalculateUdpChecksumGivenPseudoCS_def
      xxp_checksum_calc [OF k plen] Let_def del: get16_in)
qed

lemma compare_ne_0: "phcs \<noteq> 0 \<Longrightarrow> CompareNetCheckSumOnEndSystem phcs saved \<Longrightarrow> saved = phcs"
  by (simp add: CompareNetCheckSumOnEndSystem_def split: if_splits)

lemma VerifyTcpChecksum_exact:
  assumes k: "known_xxp buf len r" and t: "TcpUdp r = ppresIsTCP"
    and plen: "GetXxpHeaderAndPayloadLen buf r = Some plen"
    and phcs: "CalculateIpPseudoHeaderChecksum buf r plen = Some phcs" "phcs \<noteq> 0"
    and saved: "get16 buf (xsum_at r) = Some saved" and w: "w AND 0x100 = 0"
  defines "c \<equiv> xxp_checksum buf r plen phcs" and "fix_it \<equiv> w AND 0x1E00 \<noteq> 0"
  shows "VerifyTcpChecksum (flat buf len) len 0 r w = Some (xxp_verified phcs c saved fix_it r,
    flat (if fix_it then set16 buf (xsum_at r) c else buf) len)"
proof -
  have x: "hsize_of r + 16 + 1 < length buf" using known_xxpD(1) [OF k] t by (simp add: xsum_at_def)
  have xa: "xsum_at r = hsize_of r + 16" using t by (simp add: xsum_at_def)
  have g: "get16 buf (hsize_of r + 16) = Some saved" using saved by (simp add: xa)
  have s: "set16 buf (hsize_of r + 16) saved = buf" using g by (rule set16_same)
  have cc: "CheckSumCalculator (flat (set16 buf (hsize_of r + 16) phcs) len) (ucast (ipHeaderSize r)) (ucast plen) = Some c"
    using xxp_checksum_calc [OF k plen, of "set16 buf (hsize_of r + 16) phcs"]
    by (simp add: c_def xxp_checksum_def xa)
  have cs: "CheckSumCalculator (flat buf len) (ucast (ipHeaderSize r)) (ucast plen) = Some c"
    if "CompareNetCheckSumOnEndSystem phcs saved"
    using cc compare_ne_0 [OF phcs(2) that] s by simp
  have f: "w \<noteq> 0" if fix_it using that unfolding fix_it_def by auto
  show ?thesis
    using x known_xxpD(3,4) [OF k] t w f
    by (auto simp: VerifyTcpChecksum_def g plen phcs CalculateTcpChecksumGivenPseudoCS_def cc cs s xa
      xxp_verified_def fix_it_def Let_def simp del: get16_in)
qed

lemma VerifyUdpChecksum_exact:
  assumes k: "known_xxp buf len r" and t: "TcpUdp r = ppresIsUDP"
    and plen: "GetXxpHeaderAndPayloadLen buf r = Some plen"
    and phcs: "CalculateIpPseudoHeaderChecksum buf r plen = Some phcs" "phcs \<noteq> 0"
    and saved: "get16 buf (xsum_at r) = Some saved" and w: "w AND 0x100 = 0"
  defines "c \<equiv> xxp_checksum buf r plen phcs" and "fix_it \<equiv> w AND 0x1E00 \<noteq> 0"
  shows "VerifyUdpChecksum (flat buf len) len 0 r w = Some (xxp_verified phcs c saved fix_it r,
    flat (if fix_it then set16 buf (xsum_at r) c else buf) len)"
proof -
  have x: "hsize_of r + 6 + 1 < length buf" using known_xxpD(1) [OF k] t by (simp add: xsum_at_def)
  have xa: "xsum_at r = hsize_of r + 6" using t by (simp add: xsum_at_def)
  have g: "get16 buf (hsize_of r + 6) = Some saved" using saved by (simp add: xa)
  have s: "set16 buf (hsize_of r + 6) saved = buf" using g by (rule set16_same)
  have cc: "CheckSumCalculator (flat (set16 buf (hsize_of r + 6) phcs) len) (ucast (ipHeaderSize r)) (ucast plen) = Some c"
    using xxp_checksum_calc [OF k plen, of "set16 buf (hsize_of r + 6) phcs"]
    by (simp add: c_def xxp_checksum_def xa)
  have cs: "CheckSumCalculator (flat buf len) (ucast (ipHeaderSize r)) (ucast plen) = Some c"
    if "CompareNetCheckSumOnEndSystem phcs saved"
    using cc compare_ne_0 [OF phcs(2) that] s by simp
  show ?thesis
    using x known_xxpD(3,4) [OF k] t w
    by (auto simp: VerifyUdpChecksum_def g plen phcs CalculateUdpChecksumGivenPseudoCS_def cc cs s xa
      xxp_verified_def fix_it_def Let_def simp del: get16_in)
qed

subsection \<open>The IPv4 header checksum\<close>

definition ip4_checksum :: "bytes \<Rightarrow> parsing_result \<Rightarrow> u16" where
  "ip4_checksum buf r = rfc1071 (take (hsize_of r) (set16 buf 10 0))"

definition ip4_verified :: "u16 \<Rightarrow> u16 \<Rightarrow> bool \<Rightarrow> parsing_result \<Rightarrow> parsing_result" where
  "ip4_verified c saved fix_it known = (
     let res = known\<lparr> ipCheckSum := (if CompareNetCheckSumOnEndSystem c saved then ppresCSOK else ppresCSBad) \<rparr>
     in if fix_it then res\<lparr> fixedIpCS := (ipCheckSum res = ppresCSBad) \<rparr> else res)"

definition parsed_ip4 :: "bytes \<Rightarrow> u32 \<Rightarrow> parsing_result \<Rightarrow> bool" where
  "parsed_ip4 buf len r \<longleftrightarrow> parsed buf len True r \<and> unat len \<le> length buf \<and> ipStatus r = ppresIPV4 \<and>
     ipCheckSum r \<noteq> ppresIPTooShort"

lemma parsed_ip4D:
  assumes "parsed_ip4 buf len r"
  shows "20 \<le> hsize_of r" "hsize_of r \<le> length buf" "IP_HEADER_LENGTH (buf ! 0) = ucast (ipHeaderSize r)"
    "20 \<le> length buf" "buf ! 0 \<noteq> 0" "hsize_of r \<le> unat len"
proof -
  show p: "20 \<le> hsize_of r" "hsize_of r \<le> length buf" "IP_HEADER_LENGTH (buf ! 0) = ucast (ipHeaderSize r)"
    "20 \<le> length buf" "hsize_of r \<le> unat len"
    using assms by (auto simp: parsed_ip4_def parsed_def)
  show "buf ! 0 \<noteq> 0"
  proof
    assume "buf ! 0 = 0"
    then have "ucast (ipHeaderSize r) = (0 :: u32)" using p(3) by (simp add: IP_HEADER_LENGTH_def)
    then show False using p(1) unat_ucast_8_32 [of "ipHeaderSize r"] by simp
  qed
qed

lemma word_sum_eq_0: "word_sum xs = 0 \<longleftrightarrow> (\<forall>b\<in>set xs. b = 0)"
  by (induction xs rule: word_sum.induct) (auto simp: unat_eq_0)

lemma VerifyIpChecksum_exact:
  assumes p: "parsed_ip4 buf len r" and saved: "get16 buf 10 = Some saved"
  defines "c \<equiv> ip4_checksum buf r"
  shows "VerifyIpChecksum buf r fix_it = Some (ip4_verified c saved fix_it r,
    if fix_it then set16 buf 10 c else buf)"
proof -
  note d = parsed_ip4D [OF p]
  have "get8 (set16 buf 10 0) 0 = Some (buf ! 0)"
    using d(4) by (subst get8_in) (auto simp: set16_nth)
  moreover have "CheckSumCalculatorFlat (set16 buf 10 0) (IP_HEADER_LENGTH (buf ! 0)) = Some c"
    using d(2,3) by (subst CheckSumCalculatorFlat_rfc1071) (simp_all add: c_def ip4_checksum_def)
  ultimately have "CalculateIpChecksum buf = Some (set16 buf 10 c)"
    using d(4) by (simp add: CalculateIpChecksum_def)
  moreover have "ipCheckSum r \<noteq> 1" using p by (simp add: parsed_ip4_def)
  ultimately show ?thesis
    using d(4) saved set16_same [OF saved] by (simp add: VerifyIpChecksum_def ip4_verified_def Let_def del: get16_in)
qed

lemma ip4_checksum_ne: "parsed_ip4 buf len r \<Longrightarrow> ip4_checksum buf r \<noteq> 0xFFFF"
proof -
  assume p: "parsed_ip4 buf len r"
  note d = parsed_ip4D [OF p]
  let ?t = "take (hsize_of r) (set16 buf 10 0)"
  have "0 < length buf" using d(4) by linarith
  then have "0 < length ?t" using d(1) by simp
  then have "?t ! 0 \<in> set ?t" by (rule nth_mem)
  moreover have "?t ! 0 = buf ! 0" using d(1) by (simp add: set16_nth)
  ultimately show ?thesis
    unfolding ip4_checksum_def rfc1071_nonzero word_sum_eq_0 using d(5) by metis
qed

lemma parsed_frame:
  assumes "parsed ip len vl r" "packet_frame r ip ip'"
  shows "parsed ip' len vl r"
  using assms GetXxpHeaderAndPayloadLen_frame [OF assms] packet_frame_hd [OF assms(2,1)]
  unfolding parsed_def by force

lemma ip4_frame: "ipStatus r = ppresIPV4 \<Longrightarrow> packet_frame r buf (set16 buf 10 w)"
  by (simp add: packet_frame_def set16_def)

lemma parsed_ip4_verified: "parsed buf len vl (ip4_verified c saved fix_it r) = parsed buf len vl r"
  if "ipStatus r = ppresIPV4"
  using that by (simp add: parsed_def ip4_verified_def Let_def GetXxpHeaderAndPayloadLen_def xxp_ok_def)

lemma ip4_verified_keeps [simp]:
  "ipStatus (ip4_verified c saved f r) = ipStatus r" "xxpStatus (ip4_verified c saved f r) = xxpStatus r"
  "TcpUdp (ip4_verified c saved f r) = TcpUdp r" "ipHeaderSize (ip4_verified c saved f r) = ipHeaderSize r"
  by (simp_all add: ip4_verified_def Let_def)

subsection \<open>The whole verification\<close>

lemma verify_xxp_returns:
  assumes "parsed buf len True r" "unat len \<le> length buf"
  shows "\<exists>r' b. verify_xxp (flat buf len) len 0 flags r a1 a2 a3 a4 = Some (r', flat b len) \<and>
    length b = length buf"
proof (cases "xxpStatus r = ppresXxpKnown")
  case True
  then have k: "known_xxp buf len r" using assms by (simp add: known_xxp_def)
  show ?thesis
    using VerifyTcpChecksum_returns [OF k, of "flags AND (0x100 OR a2)"]
      VerifyUdpChecksum_returns [OF k, of "flags AND (0x100 OR a4)"] True
    by (cases "TcpUdp r") (auto simp: verify_xxp_def)
next
  case False
  then show ?thesis by (simp add: verify_xxp_def)
qed

lemma ParaNdis_CheckSumVerifyFlat_returns:
  assumes "unat len \<le> length buf" "unat len < 63496"
  shows "\<exists>r b. ParaNdis_CheckSumVerifyFlat buf len flags True = Some (r, b) \<and> length b = length buf"
proof -
  obtain r where q: "QualifyIpPacket buf len True = Some r" and a: "accepted r \<longrightarrow> parsed buf len True r"
    using QualifyIpPacket_ok [OF assms, of True] by blast
  show ?thesis
  proof (cases "accepted r")
    case False
    then show ?thesis
      by (auto simp: ParaNdis_CheckSumVerifyFlat_def ParaNdis_CheckSumVerify_def q accepted_def)
  next
    case True
    then have p: "parsed buf len True r" using a by blast
    consider "ipStatus r = 3" | "ipStatus r = 2" "flags AND 1 = 0" | "ipStatus r = 2" "flags AND 1 \<noteq> 0"
      using p by (auto simp: parsed_def)
    then show ?thesis
    proof cases
      case 1
      then show ?thesis
        using verify_xxp_returns [OF p assms(1), of flags "8" "0x800" "0x10" "0x1000"] True
        by (auto simp: ParaNdis_CheckSumVerifyFlat_def ParaNdis_CheckSumVerify_def q accepted_def)
    next
      case 2
      then show ?thesis
        using verify_xxp_returns [OF p assms(1), of flags "2" "0x200" "4" "0x400"] True
        by (auto simp: ParaNdis_CheckSumVerifyFlat_def ParaNdis_CheckSumVerify_def q accepted_def)
    next
      case 3
      then have p4: "parsed_ip4 buf len r" using True p assms by (simp add: parsed_ip4_def accepted_def)
      then obtain saved where saved: "get16 buf 10 = Some saved" using parsed_ip4D(4) [OF p4] by simp
      let ?f = "flags AND 0x80 \<noteq> 0"
      let ?b = "if ?f then set16 buf 10 (ip4_checksum buf r) else buf"
      let ?r = "ip4_verified (ip4_checksum buf r) saved ?f r"
      have "parsed ?b len True ?r"
        unfolding parsed_ip4_verified [OF 3(1)]
        using parsed_frame [OF p ip4_frame [OF 3(1)]] p by simp
      then show ?thesis
        using verify_xxp_returns [of ?b len ?r flags "2" "0x200" "4" "0x400"] assms(1) True 3
          VerifyIpChecksum_exact [OF p4 saved, where fix_it = ?f]
        by (auto simp: ParaNdis_CheckSumVerifyFlat_def ParaNdis_CheckSumVerify_def q accepted_def
          simp del: get16_in)
    qed
  qed
qed

text \<open>
  Checking every checksum of a packet, and fixing them when \<open>fix_it\<close> holds.
\<close>

definition all_flags :: "bool \<Rightarrow> u32" where
  "all_flags fix_it = (if fix_it then 0x1E9F else 0x1F)"

definition ip_stage :: "bool \<Rightarrow> bytes \<Rightarrow> parsing_result \<Rightarrow> bytes" where
  "ip_stage fix_it buf r =
     (if ipStatus r = ppresIPV4 \<and> fix_it then set16 buf 10 (ip4_checksum buf r) else buf)"

lemma xxp_verify_exact:
  assumes k: "known_xxp buf len r" and plen: "GetXxpHeaderAndPayloadLen buf r = Some plen"
    and phcs: "CalculateIpPseudoHeaderChecksum buf r plen = Some phcs" "phcs \<noteq> 0"
    and saved: "get16 buf (xsum_at r) = Some saved"
    and bits: "all_flags fix_it AND a1 \<noteq> 0" "all_flags fix_it AND a3 \<noteq> 0"
      "(all_flags fix_it AND (0x100 OR a2)) AND 0x100 = 0" "(all_flags fix_it AND (0x100 OR a4)) AND 0x100 = 0"
      "(all_flags fix_it AND (0x100 OR a2)) AND 0x1E00 \<noteq> 0 \<longleftrightarrow> fix_it"
      "(all_flags fix_it AND (0x100 OR a4)) AND 0x1E00 \<noteq> 0 \<longleftrightarrow> fix_it"
  shows "verify_xxp (flat buf len) len 0 (all_flags fix_it) r a1 a2 a3 a4 =
    Some (xxp_verified phcs (xxp_checksum buf r plen phcs) saved fix_it r,
      flat (if fix_it then set16 buf (xsum_at r) (xxp_checksum buf r plen phcs) else buf) len)"
proof (cases "TcpUdp r")
  case True
  then show ?thesis
    using VerifyUdpChecksum_exact [OF k _ plen phcs saved bits(4)] bits(2,6) k
    by (simp add: verify_xxp_def known_xxp_def)
next
  case False
  then show ?thesis
    using VerifyTcpChecksum_exact [OF k _ plen phcs saved bits(3)] bits(1,5) k
    by (simp add: verify_xxp_def known_xxp_def)
qed

lemma flag_bits:
  "all_flags b AND 1 \<noteq> 0" "all_flags b AND 0x80 \<noteq> 0 \<longleftrightarrow> b"
  "all_flags b AND 2 \<noteq> 0" "all_flags b AND 4 \<noteq> 0" "all_flags b AND 8 \<noteq> 0" "all_flags b AND 0x10 \<noteq> 0"
  "(all_flags b AND (0x100 OR 0x200)) AND 0x100 = 0" "(all_flags b AND (0x100 OR 0x400)) AND 0x100 = 0"
  "(all_flags b AND (0x100 OR 0x800)) AND 0x100 = 0" "(all_flags b AND (0x100 OR 0x1000)) AND 0x100 = 0"
  "(all_flags b AND (0x100 OR 0x200)) AND 0x1E00 \<noteq> 0 \<longleftrightarrow> b"
  "(all_flags b AND (0x100 OR 0x400)) AND 0x1E00 \<noteq> 0 \<longleftrightarrow> b"
  "(all_flags b AND (0x100 OR 0x800)) AND 0x1E00 \<noteq> 0 \<longleftrightarrow> b"
  "(all_flags b AND (0x100 OR 0x1000)) AND 0x1E00 \<noteq> 0 \<longleftrightarrow> b"
  by (simp_all add: all_flags_def)

lemma xsum_at_verified [simp]: "xsum_at (ip4_verified c s f r) = xsum_at r"
  by (simp add: xsum_at_def)

lemma xxp_checksum_verified [simp]: "xxp_checksum buf (ip4_verified c s f r) = xxp_checksum buf r"
  by (simp add: xxp_checksum_def fun_eq_iff)

lemma pseudo_verified [simp]:
  "GetXxpHeaderAndPayloadLen buf (ip4_verified c s f r) = GetXxpHeaderAndPayloadLen buf r"
  "CalculateIpPseudoHeaderChecksum buf (ip4_verified c s f r) = CalculateIpPseudoHeaderChecksum buf r"
  by (simp_all add: GetXxpHeaderAndPayloadLen_def CalculateIpPseudoHeaderChecksum_def fun_eq_iff)

lemma verify_flat_exact:
  fixes fix_it :: bool
  assumes q: "QualifyIpPacket buf len True = Some r" "accepted r"
    and k: "known_xxp buf len r" and plen: "GetXxpHeaderAndPayloadLen buf r = Some plen" "plen \<noteq> 0"
    and phcs: "CalculateIpPseudoHeaderChecksum buf r plen = Some phcs"
    and saved: "get16 buf (xsum_at r) = Some saved" and s4: "get16 buf 10 = Some saved4"
  defines "b1 \<equiv> ip_stage fix_it buf r"
  defines "r1 \<equiv> if ipStatus r = ppresIPV4 then ip4_verified (ip4_checksum buf r) saved4 fix_it r else r"
  defines "c \<equiv> xxp_checksum b1 r plen phcs"
  shows "ParaNdis_CheckSumVerifyFlat buf len (all_flags fix_it) True =
    Some (xxp_verified phcs c saved fix_it r1, if fix_it then set16 b1 (xsum_at r) c else b1)"
proof -
  have p: "parsed buf len True r" and len: "unat len \<le> length buf" and xk: "xxpStatus r = 2"
    using k by (auto simp: known_xxp_def)
  have ne: "phcs \<noteq> 0"
    using CalculateIpPseudoHeaderChecksum_ok [OF p len, of plen] phcs plen(2) by auto
  show ?thesis
  proof (cases "ipStatus r = 2")
    case False
    then have st: "ipStatus r = 3" using p by (auto simp: parsed_def)
    then have "verify_xxp (flat buf len) len 0 (all_flags fix_it) r 8 0x800 0x10 0x1000 =
      Some (xxp_verified phcs c saved fix_it r1, flat (if fix_it then set16 b1 (xsum_at r) c else b1) len)"
      using xxp_verify_exact [OF k plen(1) phcs ne saved flag_bits(5,6,9,10,13,14) [of fix_it]]
      by (simp add: b1_def r1_def c_def ip_stage_def)
    then show ?thesis
      using q st by (simp add: ParaNdis_CheckSumVerifyFlat_def ParaNdis_CheckSumVerify_def accepted_def)
  next
    case True
    have p4: "parsed_ip4 buf len r" using True p len q(2) by (simp add: parsed_ip4_def accepted_def)
    have b1: "b1 = (if fix_it then set16 buf 10 (ip4_checksum buf r) else buf)"
      using True by (simp add: b1_def ip_stage_def)
    have fr: "packet_frame r buf b1" using ip4_frame [OF True] by (simp add: b1 packet_frame_def)
    have "parsed b1 len True r1"
      using parsed_frame [OF p fr] True by (simp add: r1_def parsed_ip4_verified)
    then have k1: "known_xxp b1 len r1" using len xk fr True by (simp add: known_xxp_def r1_def packet_frame_def)
    have x: "11 + 1 < xsum_at r" using parsed_ip4D(1) [OF p4] by (simp add: xsum_at_def)
    have g: "get16 b1 (xsum_at r1) = Some saved"
      using saved x True by (simp add: b1 r1_def get_set16_other del: get16_in)
    have e: "GetXxpHeaderAndPayloadLen b1 r1 = Some plen" "CalculateIpPseudoHeaderChecksum b1 r1 plen = Some phcs"
      using GetXxpHeaderAndPayloadLen_frame [OF p fr] plen(1) True phcs fr
        CalculateIpPseudoHeaderChecksum_ok [OF p len, of plen] by (auto simp: r1_def)
    have "verify_xxp (flat b1 len) len 0 (all_flags fix_it) r1 2 0x200 4 0x400 =
      Some (xxp_verified phcs c saved fix_it r1, flat (if fix_it then set16 b1 (xsum_at r) c else b1) len)"
      using xxp_verify_exact [OF k1 e ne g flag_bits(3,4,7,8,11,12) [of fix_it]] True
      by (simp add: c_def r1_def)
    then show ?thesis
      using q True VerifyIpChecksum_exact [OF p4 s4, of fix_it]
      by (simp add: ParaNdis_CheckSumVerifyFlat_def ParaNdis_CheckSumVerify_def accepted_def flag_bits r1_def b1
        del: get16_in)
  qed
qed

subsection \<open>Fixing, then verifying\<close>

lemma compare_same: "c \<noteq> 0xFFFF \<Longrightarrow> CompareNetCheckSumOnEndSystem c c"
  by (simp add: CompareNetCheckSumOnEndSystem_def)

lemma drop_set16: "i + 1 < h \<Longrightarrow> drop h (set16 buf i w) = drop h buf"
  by (simp add: set16_def)

lemma take_set16: "h \<le> i \<Longrightarrow> take h (set16 buf i w) = take h buf"
  by (simp add: set16_def)

lemma set16_commute: "i + 1 < j \<Longrightarrow> set16 (set16 buf i v) j w = set16 (set16 buf j w) i v"
  by (simp add: set16_def list_update_swap)

lemma xxp_checksum_ne:
  assumes "known_xxp buf len r" "phcs \<noteq> 0"
    "(if TcpUdp r = ppresIsTCP then 18 else 8) \<le> unat plen"
  shows "xxp_checksum buf r plen phcs \<noteq> 0xFFFF"
proof -
  let ?b = "set16 buf (xsum_at r) phcs" and ?k = "xsum_at r - hsize_of r"
  let ?t = "take (unat plen) (drop (hsize_of r) ?b)"
  have x: "xsum_at r + 1 < length ?b" using known_xxpD(1) [OF assms(1)] by simp
  have k: "xsum_at r = hsize_of r + ?k" "?k + 1 < unat plen"
    using assms(3) by (auto simp: xsum_at_def split: if_splits)
  have le: "hsize_of r \<le> xsum_at r" by (simp add: xsum_at_def)
  have l: "?k + 1 < length ?t" using x k by simp
  have "?t ! ?k = ?b ! xsum_at r" "?t ! (?k + 1) = ?b ! (xsum_at r + 1)"
    using x k(2) le by (simp_all add: nth_drop)
  moreover have "?t ! ?k \<in> set ?t" "?t ! (?k + 1) \<in> set ?t" by (rule nth_mem, use l in linarith)+
  moreover have "?b ! xsum_at r \<noteq> 0 \<or> ?b ! (xsum_at r + 1) \<noteq> 0"
  proof (rule ccontr)
    assume "\<not> ?thesis"
    then have "get16 ?b (xsum_at r) = Some 0" using x by (simp add: le16_def)
    then show False using known_xxpD(1) [OF assms(1)] assms(2) by (simp del: get16_in)
  qed
  ultimately show ?thesis unfolding xxp_checksum_def rfc1071_nonzero word_sum_eq_0 by metis
qed

lemma fixed_verifies:
  assumes q: "QualifyIpPacket buf len True = Some r" "accepted r"
    and k: "known_xxp buf len r" and short: "unat len < 63496"
    and plen: "GetXxpHeaderAndPayloadLen buf r = Some plen"
      "(if TcpUdp r = ppresIsTCP then 18 else 8) \<le> unat plen"
    and run: "ParaNdis_CheckSumVerifyFlat buf len (all_flags True) True = Some (r', buf')"
  shows "packet_frame r buf buf' \<and> (\<exists>r''.
    ParaNdis_CheckSumVerifyFlat buf' len (all_flags False) True = Some (r'', buf') \<and>
    ipCheckSum r'' = ppresCSOK \<and> xxpCheckSum r'' = ppresCSOK)"
proof -
  have p: "parsed buf len True r" and len: "unat len \<le> length buf" and xk: "xxpStatus r = 2"
    using k by (auto simp: known_xxp_def)
  have p0: "plen \<noteq> 0" using plen(2) by (auto split: if_splits)
  obtain phcs where phcs: "CalculateIpPseudoHeaderChecksum buf r plen = Some phcs" "phcs \<noteq> 0"
    "\<And>ip'. packet_frame r buf ip' \<Longrightarrow> CalculateIpPseudoHeaderChecksum ip' r plen = Some phcs"
    using CalculateIpPseudoHeaderChecksum_ok [OF p len, of plen] p0 by blast
  have x: "xsum_at r + 1 < length buf" using known_xxpD(1) [OF k] .
  have h: "20 \<le> hsize_of r" "20 \<le> length buf" using p len by (auto simp: parsed_def)
  then have x11: "10 + 1 < xsum_at r" "10 + 1 < hsize_of r" "hsize_of r \<le> xsum_at r"
    by (auto simp: xsum_at_def)
  define b1 where "b1 = ip_stage True buf r"
  define c where "c = xxp_checksum b1 r plen phcs"
  have len1: "length b1 = length buf" by (simp add: b1_def ip_stage_def)
  have b: "buf' = set16 b1 (xsum_at r) c"
    using verify_flat_exact [OF q k plen(1) p0 phcs(1), where fix_it = True] run x h(2)
    by (simp add: b1_def c_def)
  have f1: "packet_frame r buf b1" by (auto simp: b1_def ip_stage_def packet_frame_def set16_def)
  have f: "packet_frame r buf buf'"
    using f1 by (auto simp: b packet_frame_def xsum_at_def set16_def)
  have c1: "xxp_checksum buf r plen phcs = c"
    using x11 by (auto simp: c_def xxp_checksum_def b1_def ip_stage_def set16_commute [of 10] drop_set16)
  have c': "xxp_checksum buf' r plen phcs = c" by (simp add: b c_def xxp_checksum_def)
  have q': "QualifyIpPacket buf' len True = Some r"
    using QualifyIpPacket_ok [OF len short, of True] q f by auto
  have p': "parsed buf' len True r" using parsed_frame [OF p f] .
  have k': "known_xxp buf' len r" using p' xk len len1 by (simp add: known_xxp_def b)
  have s: "get16 buf' (xsum_at r) = Some c" using x len1 by (simp add: b del: get16_in)
  obtain s4 where s4: "get16 buf' 10 = Some s4" using h(2) len1 by (simp add: b)
  have cne: "c \<noteq> 0xFFFF" unfolding c1 [symmetric] by (rule xxp_checksum_ne [OF k phcs(2) plen(2)])
  have ip4: "ip4_checksum buf' r = ip4_checksum buf r \<and> s4 = ip4_checksum buf r \<and>
    ip4_checksum buf r \<noteq> 0xFFFF" if st: "ipStatus r = 2"
  proof -
    have b1': "b1 = set16 buf 10 (ip4_checksum buf r)" using st by (simp add: b1_def ip_stage_def)
    have "get16 buf' 10 = Some (ip4_checksum buf r)"
      using x11(1) h(2) by (simp add: b b1' get_set16_other del: get16_in)
    moreover have "ip4_checksum buf' r = ip4_checksum buf r"
      using x11 by (simp add: ip4_checksum_def b b1' set16_commute [of 10, symmetric] take_set16)
    moreover have "parsed_ip4 buf len r" using st p len q(2) by (simp add: parsed_ip4_def accepted_def)
    ultimately show ?thesis using s4 ip4_checksum_ne by simp
  qed
  have "ip_stage False buf' r = buf'" by (simp add: ip_stage_def)
  then have "\<exists>r''. ParaNdis_CheckSumVerifyFlat buf' len (all_flags False) True = Some (r'', buf') \<and>
    ipCheckSum r'' = ppresCSOK \<and> xxpCheckSum r'' = ppresCSOK"
    using verify_flat_exact [OF q' q(2) k' _ p0 phcs(3) [OF f] s s4, where fix_it = False]
      GetXxpHeaderAndPayloadLen_frame [OF p f] plen(1) c' compare_same [OF cne] ip4 p
    by (auto simp: xxp_verified_def ip4_verified_def parsed_def dest: compare_same)
  with f show ?thesis ..
qed

subsection \<open>Extension headers that never end\<close>

text \<open>
  \<open>ext_steps\<close> runs the loop over the extension headers for a number of iterations; \<open>Inl\<close> says
  that it has not left the loop yet. The headers of \<open>ext_cycle\<close> are 32 maximal extension headers
  whose total length is the range of the 16-bit \<open>ipHeaderSize\<close>.
\<close>

primrec ext_steps :: "nat \<Rightarrow> bytes \<Rightarrow> u32 \<Rightarrow> u16 \<Rightarrow> ext_state \<Rightarrow> (ext_state + ext_state) option" where
  "ext_steps 0 ip len full s = Some (Inl s)"
| "ext_steps (Suc n) ip len full s = (if fst s = 59 then Some (Inr s) else do {
     r \<leftarrow> qualify_ext ip len full s;
     case r of Inl s' \<Rightarrow> ext_steps n ip len full s' | Inr s' \<Rightarrow> Some (Inr s') })"

definition ext_cycle :: "bytes \<Rightarrow> bool" where
  "ext_cycle ip \<longleftrightarrow> 63536 \<le> length ip \<and>
     list_all (\<lambda>k. ip ! (40 + 2048 * k) = 0 \<and> ip ! (41 + 2048 * k) = 255) [0..<32]"

definition cycle_at :: "nat \<Rightarrow> u16" where
  "cycle_at k = of_nat (40 + 2048 * k)"

lemma unat_cycle_at: "k < 32 \<Longrightarrow> unat (cycle_at k) = 40 + 2048 * k"
  by (simp only: cycle_at_def unat_of_nat) simp

lemma cycle_at_next: "cycle_at k + 8 + ucast (255 :: u8) * 8 = cycle_at (Suc k mod 32)" if "k < 32"
proof (cases "k = 31")
  case True
  show ?thesis unfolding True cycle_at_def by simp
next
  case False
  then have s: "Suc k mod 32 = Suc k" using that by simp
  have "ucast (255 :: u8) = (255 :: u16)" by simp
  moreover have "40 + 2048 * Suc k = 40 + 2048 * k + 2048" by simp
  ultimately show ?thesis unfolding s cycle_at_def by (simp del: mult_Suc_right)
qed

lemma ext_cycle_step:
  assumes "ext_cycle ip" "63536 \<le> unat len" "unat len \<le> length ip" "k < 32"
  shows "qualify_ext ip len full (0, cycle_at k, res) = Some (Inl (0, cycle_at (Suc k mod 32), res))"
proof -
  have u: "unat (cycle_at k) = 40 + 2048 * k" using unat_cycle_at assms(4) .
  have b: "ip ! (40 + 2048 * k) = 0" "ip ! (41 + 2048 * k) = 255"
    using assms(1,4) by (auto simp: ext_cycle_def list_all_iff)
  have "(ucast (cycle_at k) :: u32) + 8 \<le> len" using hsize_plus [of 8 "cycle_at k" len] assms u by simp
  moreover have "get8 ip (unat (cycle_at k)) = Some 0" "get8 ip (unat (cycle_at k) + 1) = Some 255"
    using assms(2-4) b by (simp_all add: u)
  ultimately show ?thesis
    using cycle_at_next [OF assms(4)] by (simp add: qualify_ext_def is_ip6_extension_def)
qed

lemma ext_cycle_steps:
  assumes "ext_cycle ip" "63536 \<le> unat len" "unat len \<le> length ip"
  shows "k < 32 \<Longrightarrow> ext_steps n ip len full (0, cycle_at k, res) =
    Some (Inl (0, cycle_at ((k + n) mod 32), res))"
proof (induction n arbitrary: k)
  case 0 then show ?case by simp
next
  case (Suc n)
  have "Suc k mod 32 < 32" by simp
  from Suc.IH [OF this] show ?case
    using ext_cycle_step [OF assms Suc.prems] by (simp add: mod_simps)
qed

lemma ext_cycle_diverges:
  assumes "ext_cycle ip" "63536 \<le> unat len" "unat len \<le> length ip" and k: "k < 32"
  shows "qualify_ext_loop ip len full (0, cycle_at k, res) = None"
proof -
  let ?P = "\<lambda>ip' len' full' s t. ip' = ip \<longrightarrow> len' = len \<longrightarrow> (\<forall>k < 32. s \<noteq> (0, cycle_at k, res))"
  have "?P ip' len' full' s t" if "qualify_ext_loop ip' len' full' s = Some t" for ip' len' full' s t
  proof (rule qualify_ext_loop.raw_induct [where P = ?P, OF _ that], intro impI allI notI)
    fix loop ip' len' full' s t k
    assume ih: "\<And>ip' len' full' s t. loop ip' len' full' s = Some t \<Longrightarrow> ?P ip' len' full' s t"
      and run: "(if fst s = 59 then Some s else do {
        r \<leftarrow> qualify_ext ip' len' full' s;
        case r of Inl s' \<Rightarrow> loop ip' len' full' s' | Inr s' \<Rightarrow> Some s' }) = Some t"
      and s: "ip' = ip" "len' = len" "k < (32 :: nat)" "s = (0, cycle_at k, res)"
    have "loop ip len full' (0, cycle_at (Suc k mod 32), res) = Some t"
      using run ext_cycle_step [OF assms(1-3) s(3)] by (simp add: s)
    moreover have "Suc k mod 32 < 32" by simp
    ultimately show False using ih by blast
  qed
  from this [of ip len full "(0, cycle_at k, res)"] show ?thesis
    using k by (cases "qualify_ext_loop ip len full (0, cycle_at k, res)") auto
qed

end
