(* ===== verification/NetPacketProofs.thy ===== *)
theory NetPacketProofs
  imports NetRssProofs SwOffloadVerify
begin

text \<open>
  The analysis of a received packet and the hash computed from it: both return for every packet,
  and how far beyond the packet they read.
\<close>

unbundle bit_operations_syntax

subsection \<open>IPv6 extension headers\<close>

lemma get8_lt: "i < length xs \<Longrightarrow> get8 xs i = Some (xs ! i)"
  by simp

lemma unat_byte_len:
  "unat (ucast (b :: u8) + 2 :: u32) = unat b + 2" "unat (ucast b :: u32) = unat b"
  "unat (ucast b + 1 :: u32) = unat b + 1" "unat ((ucast b + 1) * 8 :: u32) = unat b * 8 + 8"
proof -
  have b: "unat b \<le> 255" using unsigned_less [of b, where ?'a = nat] by simp
  show u: "unat (ucast b :: u32) = unat b" using b by (simp add: unsigned_ucast_eq take_bit_eq_mod)
  show "unat (ucast b + 2 :: u32) = unat b + 2" "unat (ucast b + 1 :: u32) = unat b + 1"
    "unat ((ucast b + 1) * 8 :: u32) = unat b * 8 + 8"
    using b u by (simp_all add: unat_word_ariths)
qed

lemma option_at_ok:
  assumes "hdr + unat len \<le> length ip6" "len \<noteq> 0"
  shows "\<exists>r. option_at ip6 hdr len home = Some r \<and>
    (\<forall>ol home'. r = Some (ol, home') \<longrightarrow> 1 \<le> unat ol \<and> (home' = home \<or> home' = Some (hdr + 2) \<and> unat ol = 18))"
proof -
  have "0 < unat len" using assms(2) by (simp add: unat_gt_0)
  then have 0: "get8 ip6 hdr = Some (ip6 ! hdr)" using assms(1) by (intro get8_lt) linarith
  have 1: "get8 ip6 (hdr + 1) = Some (ip6 ! (hdr + 1))" if "\<not> len < 2"
    using that assms by (simp add: word_less_nat_alt)
  show ?thesis unfolding option_at_def 0 using 1 by (auto simp: unat_byte_len)
qed

lemma dest_ext_ok:
  assumes "hdr + unat len \<le> length ip6" "\<forall>a. home = Some a \<longrightarrow> a + 16 \<le> hdr + unat len"
  shows "\<exists>ok home'. AnalyzeIP6DestinationExtension ip6 hdr len home = Some (ok, home') \<and>
    (ok \<longrightarrow> (\<forall>a. home' = Some a \<longrightarrow> a + 16 \<le> hdr + unat len))"
  using assms
proof (induction "unat len" arbitrary: hdr len home rule: less_induct)
  case less
  show ?case
  proof (cases "len = 0")
    case True
    then show ?thesis using less.prems by (subst AnalyzeIP6DestinationExtension.simps) auto
  next
    case False
    obtain r where r: "option_at ip6 hdr len home = Some r"
      "\<And>ol home'. r = Some (ol, home') \<Longrightarrow> 1 \<le> unat ol \<and> (home' = home \<or> home' = Some (hdr + 2) \<and> unat ol = 18)"
      using option_at_ok [OF less.prems(1) False] by blast
    show ?thesis
    proof (cases r)
      case None
      then show ?thesis using False r(1) by (subst AnalyzeIP6DestinationExtension.simps) auto
    next
      case (Some p)
      obtain ol home' where p: "p = (ol, home')" by fastforce
      note o = r(2) [OF Some [unfolded p]]
      show ?thesis
      proof (cases "len < ol")
        case True
        then show ?thesis using False r(1) Some p by (subst AnalyzeIP6DestinationExtension.simps) auto
      next
        case le: False
        then have u: "unat (len - ol) = unat len - unat ol" "unat ol \<le> unat len"
          by (simp_all add: unat_sub word_le_nat_alt not_less)
        have *: "hdr + unat ol + unat (len - ol) = hdr + unat len" using u by simp
        have "unat (len - ol) < unat len" using u o by simp
        moreover have "\<forall>a. home' = Some a \<longrightarrow> a + 16 \<le> hdr + unat len"
          using o less.prems(2) u(2) by auto
        ultimately show ?thesis
          using less.hyps [of "len - ol" "hdr + unat ol" home', unfolded *] less.prems(1) False r(1) Some p le
          by (subst AnalyzeIP6DestinationExtension.simps) simp
      qed
    qed
  qed
qed

lemma routing_ext_ok:
  assumes "hdr + unat len \<le> length ip6"
  shows "\<exists>ok dest. AnalyzeIP6RoutingExtension ip6 hdr len = Some (ok, dest) \<and>
    (\<forall>a. dest = Some a \<longrightarrow> a + 16 \<le> hdr + unat len)"
proof (cases "len < 24")
  case True then show ?thesis by (auto simp: AnalyzeIP6RoutingExtension_def)
next
  case False
  then have "24 \<le> unat len" by (simp add: word_less_nat_alt)
  moreover from this have "get8 ip6 (hdr + 2) = Some (ip6 ! (hdr + 2))" "get8 ip6 (hdr + 3) = Some (ip6 ! (hdr + 3))"
    using assms by (simp_all add: get8_lt)
  ultimately show ?thesis using False unfolding AnalyzeIP6RoutingExtension_def by auto
qed

text \<open>The addresses found so far lie inside the headers skipped so far.\<close>

definition ip6_hdr_ok :: "ip6_state \<Rightarrow> bool" where
  "ip6_hdr_ok s \<longleftrightarrow> (case s of (hlen, next, home, dest) \<Rightarrow> 40 \<le> unat hlen \<and>
     (home \<noteq> 0 \<longrightarrow> unat home + 16 \<le> unat hlen) \<and> (dest \<noteq> 0 \<longrightarrow> unat dest + 16 \<le> unat hlen))"

lemma offset_of_ok: "\<forall>a. addr = Some a \<longrightarrow> a + 16 \<le> n \<Longrightarrow> n < 2 ^ 32 \<Longrightarrow> offset_of addr \<noteq> 0 \<Longrightarrow> unat (offset_of addr) + 16 \<le> n"
  by (auto simp: offset_of_def unat_of_nat_small split: option.splits)

lemma skip_ok:
  assumes "unat len + 2044 \<le> length ip6" "unat len < 2 ^ 31"
  shows "SkipIP6ExtensionHeader ip6 len hlen = Some None \<or>
    (\<exists>hlen' next. SkipIP6ExtensionHeader ip6 len hlen = Some (Some (hlen', next)) \<and>
       unat hlen + unat (hlen' - hlen) = unat hlen' \<and> unat hlen + 8 \<le> unat hlen' \<and> unat hlen + 4 \<le> unat len \<and>
       unat hlen' \<le> unat len + 2044)"
proof (cases "unat len < unat hlen + 4")
  case True then show ?thesis by (simp add: SkipIP6ExtensionHeader_def)
next
  case False
  let ?n = "ip6 ! (unat hlen + 1)"
  let ?e = "(ucast ?n + 1) * 8 :: u32"
  have n: "unat ?n \<le> 255" using unsigned_less [of ?n, where ?'a = nat] by simp
  have u: "unat (hlen + ?e) = unat hlen + (unat ?n * 8 + 8)"
    using n False assms(2) unfolding unat_byte_len(4) [symmetric]
    by (subst unat_plus_small) (simp_all only: unat_byte_len(4), simp)
  have "get8 ip6 (unat hlen) = Some (ip6 ! unat hlen)" "get8 ip6 (unat hlen + 1) = Some ?n"
    using False assms(1) by (simp_all add: get8_lt)
  then have "SkipIP6ExtensionHeader ip6 len hlen = Some (Some (hlen + ?e, ip6 ! unat hlen))"
    using False by (simp add: SkipIP6ExtensionHeader_def)
  moreover have "hlen + ?e - hlen = ?e" by simp
  ultimately show ?thesis using False n u unat_byte_len(4) [of ?n] by auto
qed

lemma ip6_ext_skipped:
  assumes skip: "SkipIP6ExtensionHeader ip6 len hlen = Some (Some (hlen', nh'))"
      "unat hlen + unat (hlen' - hlen) = unat hlen'" "unat hlen \<le> unat hlen'"
    and in_buf: "unat hlen' \<le> length ip6" and ok: "ip6_hdr_ok (hlen, nh, home, dest)"
    and nh: "nh \<in> {60, 43, 0, 51, 135}"
  shows "(\<exists>r. analyze_ip6_ext ip6 len (hlen, nh, home, dest) = Some (Inr (False, r))) \<or>
    (\<exists>home' dest'. analyze_ip6_ext ip6 len (hlen, nh, home, dest) = Some (Inl (hlen', nh', home', dest')) \<and>
       ip6_hdr_ok (hlen', nh', home', dest'))"
proof -
  have old: "40 \<le> unat hlen'" "home \<noteq> 0 \<Longrightarrow> unat home + 16 \<le> unat hlen'" "dest \<noteq> 0 \<Longrightarrow> unat dest + 16 \<le> unat hlen'"
    using ok skip(3) by (auto simp: ip6_hdr_ok_def)
  have in_buf': "unat hlen + unat (hlen' - hlen) \<le> length ip6" using skip(2) in_buf by simp
  have small: "unat hlen' < 2 ^ 32" using unsigned_less [of hlen', where ?'a = nat] by simp
  obtain ok1 a1 where d: "AnalyzeIP6DestinationExtension ip6 (unat hlen) (hlen' - hlen) None = Some (ok1, a1)"
    "ok1 \<Longrightarrow> \<forall>a. a1 = Some a \<longrightarrow> a + 16 \<le> unat hlen'"
    using dest_ext_ok [OF in_buf', of None] skip(2) by auto
  obtain ok2 a2 where ro: "AnalyzeIP6RoutingExtension ip6 (unat hlen) (hlen' - hlen) = Some (ok2, a2)"
    "\<forall>a. a2 = Some a \<longrightarrow> a + 16 \<le> unat hlen'"
    using routing_ext_ok [OF in_buf'] skip(2) by auto
  consider "nh = 60" "\<not> ok1" | "nh = 60" ok1 | "nh = 43" "\<not> ok2" | "nh = 43" ok2 | "nh \<in> {0, 51, 135}"
    using nh by auto
  then show ?thesis
  proof cases
    case 1 then show ?thesis using skip(1) d(1) by (simp add: analyze_ip6_ext_def)
  next
    case 2
    then have "ip6_hdr_ok (hlen', nh', offset_of a1, dest)"
      using old offset_of_ok [OF d(2) small] by (auto simp: ip6_hdr_ok_def)
    then show ?thesis using 2 skip(1) d(1) by (simp add: analyze_ip6_ext_def)
  next
    case 3 then show ?thesis using skip(1) ro(1) by (simp add: analyze_ip6_ext_def)
  next
    case 4
    then have "ip6_hdr_ok (hlen', nh', home, offset_of a2)"
      using old offset_of_ok [OF ro(2) small] by (auto simp: ip6_hdr_ok_def)
    then show ?thesis using 4 skip(1) ro(1) by (simp add: analyze_ip6_ext_def)
  next
    case 5
    then have "ip6_hdr_ok (hlen', nh', home, dest)" using old by (auto simp: ip6_hdr_ok_def)
    then show ?thesis using 5 skip(1) by (auto simp: analyze_ip6_ext_def)
  qed
qed

lemma ip6_ext_not_skipped:
  "SkipIP6ExtensionHeader ip6 len hlen = Some None \<Longrightarrow> nh \<in> {60, 43, 0, 51, 135} \<Longrightarrow>
    analyze_ip6_ext ip6 len (hlen, nh, home, dest) = Some (Inr (False, hlen, nh, home, dest))"
  "nh \<notin> {60, 43, 0, 51, 135} \<Longrightarrow>
    analyze_ip6_ext ip6 len (hlen, nh, home, dest) = Some (Inr (True, hlen, nh, home, dest))"
  by (auto simp: analyze_ip6_ext_def)

lemma ip6_loop_step:
  "analyze_ip6_ext ip6 len s = Some (Inr r) \<Longrightarrow> analyze_ip6_loop ip6 len s = Some r"
  "analyze_ip6_ext ip6 len s = Some (Inl s') \<Longrightarrow> analyze_ip6_loop ip6 len s = analyze_ip6_loop ip6 len s'"
  by (subst analyze_ip6_loop.simps, simp)+

lemma ip6_loop_ok:
  assumes "unat len + 2044 \<le> length ip6" "unat len < 2 ^ 31" "ip6_hdr_ok (hlen, nh, home, dest)"
  shows "\<exists>ok s. analyze_ip6_loop ip6 len (hlen, nh, home, dest) = Some (ok, s) \<and> (ok \<longrightarrow> ip6_hdr_ok s)"
  using assms
proof (induction "unat len + 2044 - unat hlen" arbitrary: hlen nh home dest rule: less_induct)
  case less
  show ?case
  proof (cases "nh \<in> {60, 43, 0, 51, 135}")
    case False
    then show ?thesis using less.prems(3) ip6_loop_step(1) [OF ip6_ext_not_skipped(2)] by blast
  next
    case nh: True
    show ?thesis
    proof (cases "SkipIP6ExtensionHeader ip6 len hlen = Some None")
      case True
      then show ?thesis using nh ip6_loop_step(1) [OF ip6_ext_not_skipped(1)] by blast
    next
      case False
      then obtain hlen' nh' where k: "SkipIP6ExtensionHeader ip6 len hlen = Some (Some (hlen', nh'))"
        "unat hlen + unat (hlen' - hlen) = unat hlen'" "unat hlen + 8 \<le> unat hlen'" "unat hlen + 4 \<le> unat len"
        "unat hlen' \<le> unat len + 2044"
        using skip_ok [OF less.prems(1,2), of hlen] by blast
      have "unat hlen \<le> unat hlen'" "unat hlen' \<le> length ip6" "unat len + 2044 - unat hlen' < unat len + 2044 - unat hlen"
        using k less.prems(1) by linarith+
      with ip6_ext_skipped [OF k(1,2) _ _ less.prems(3) nh] show ?thesis
        using ip6_loop_step less.hyps less.prems(1,2) by metis
    qed
  qed
qed

subsection \<open>The whole analysis\<close>

text \<open>What the analysis of the Ethernet header and of the IP header establishes.\<close>

definition l2_ok :: "nat \<Rightarrow> u32 \<Rightarrow> net_packet_info \<Rightarrow> bool" where
  "l2_ok head len info \<longleftrightarrow> headersBuffer info = head \<and> dataLength info = len \<and>
     (L2HdrLen info = 14 \<or> L2HdrLen info = 18) \<and> unat (L2HdrLen info) \<le> unat len \<and>
     L2PayloadLen info = len - L2HdrLen info"

definition l3_ok :: "nat \<Rightarrow> net_packet_info \<Rightarrow> bool" where
  "l3_ok n info \<longleftrightarrow> unat (L2HdrLen info) \<le> 18 \<and> (let hs = unat (L2HdrLen info) + unat (L3HdrLen info) in
     if isIP4 info then 20 \<le> unat (L3HdrLen info) \<and> hs \<le> n
     else if isIP6 info then 40 \<le> unat (L3HdrLen info) \<and> unat (L3HdrLen info) \<le> 252 \<and>
       unat (ip6HomeAddrOffset info) + 16 \<le> hs \<and> unat (ip6DestAddrOffset info) + 16 \<le> hs
     else True)"

lemma get_bytes_lt: "i + n \<le> length xs \<Longrightarrow> get_bytes xs i n = Some (take n (drop i xs))"
  by (simp add: get_bytes_def)

lemma AnalyzeL2Hdr_ok:
  assumes "head + unat len \<le> length buf" "headersBuffer info = head" "dataLength info = len"
  shows "\<exists>ok info'. AnalyzeL2Hdr eth buf info = Some (ok, info') \<and> (ok \<longrightarrow> l2_ok head len info')"
proof (cases "len < 14")
  case True
  then show ?thesis using assms by (auto simp: AnalyzeL2Hdr_def Let_def)
next
  case False
  then have l: "14 \<le> unat len" by (simp add: word_less_nat_alt)
  have r: "get_bytes buf head 6 = Some (take 6 (drop head buf))"
    "get8 buf (head + 12) = Some (buf ! (head + 12))" "get8 buf (head + 13) = Some (buf ! (head + 13))"
    "get16 buf (head + 12) = Some (le16 (buf ! (head + 12)) (buf ! (head + 12 + 1)))"
    using assms(1) l by (simp_all add: get_bytes_lt get8_lt)
  have v: "get8 buf (head + 14) = Some (buf ! (head + 14))" "get8 buf (head + 15) = Some (buf ! (head + 15))"
    "get16 buf (head + 16) = Some (le16 (buf ! (head + 16)) (buf ! (head + 16 + 1)))" "18 \<le> unat len" if "\<not> len < 18"
    using assms(1) that by (simp_all add: get8_lt word_less_nat_alt)
  show ?thesis
  proof (cases "buf ! (head + 12) = 0x81 \<and> buf ! (head + 13) = 0")
    case True
    then show ?thesis using False v r assms(2,3) unfolding AnalyzeL2Hdr_def
      by (cases "len < 18") (auto simp add: Let_def l2_ok_def AnalyzeL3Proto_def simp del: get8_in get16_in)
  next
    case nv: False
    then show ?thesis using False r assms(2,3) l unfolding AnalyzeL2Hdr_def
      by (auto simp add: Let_def l2_ok_def AnalyzeL3Proto_def simp del: get8_in get16_in)
  qed
qed


lemma analyze_ip4_ok:
  assumes "head + unat len \<le> length buf" "l2_ok head len info" "isIP4 info" "unat len < 2 ^ 31"
  shows "\<exists>ok info'. analyze_ip4 buf info = Some (ok, info') \<and> (ok \<longrightarrow> l3_ok (unat len) info')"
proof -
  define h where "h = head + unat (L2HdrLen info)"
  let ?v = "buf ! h"
  have u: "unat (L2HdrLen info + 20) = unat (L2HdrLen info) + 20" "unat (L2HdrLen info) \<le> 18"
    using assms(2) by (auto simp: l2_ok_def)
  have iph: "unat (IP_HEADER_LENGTH ?v) \<le> 60" "unat (L2HdrLen info + IP_HEADER_LENGTH ?v) = unat (L2HdrLen info) + unat (IP_HEADER_LENGTH ?v)"
  proof -
    show "unat (IP_HEADER_LENGTH ?v) \<le> 60" using and_le_15 [of ?v] unfolding ip4_hsize by linarith
    then show "unat (L2HdrLen info + IP_HEADER_LENGTH ?v) = unat (L2HdrLen info) + unat (IP_HEADER_LENGTH ?v)"
      using u(2) by (intro unat_plus_small) simp
  qed
  have r: "get8 buf h = Some ?v" "get16 buf (h + 6) = Some (le16 (buf ! (h + 6)) (buf ! (h + 6 + 1)))"
    "get8 buf (h + 9) = Some (buf ! (h + 9))" if "\<not> len < L2HdrLen info + 20"
    using that assms(1) u by (simp_all add: h_def get8_lt word_less_nat_alt)
  show ?thesis
    using assms(2,3) u iph r unfolding analyze_ip4_def
    by (auto simp: Let_def l2_ok_def l3_ok_def AnalyzeL4Proto_def h_def [symmetric] word_less_nat_alt simp del: get8_in get16_in)
qed

lemma if_ok: "(c \<Longrightarrow> \<exists>ok x. a = Some (ok, x) \<and> (ok \<longrightarrow> P x)) \<Longrightarrow>
  (\<not> c \<Longrightarrow> \<exists>ok x. b = Some (ok, x) \<and> (ok \<longrightarrow> P x)) \<Longrightarrow>
  \<exists>ok x. (if c then a else b) = Some (ok, x) \<and> (ok \<longrightarrow> P x)"
  by simp

lemma analyze_ip6_ok:
  assumes "head + unat len + 2044 \<le> length buf" "l2_ok head len info" "\<not> isIP4 info" "isIP6 info" "unat len < 2 ^ 31"
  shows "\<exists>ok info'. analyze_ip6 buf info = Some (ok, info') \<and> (ok \<longrightarrow> l3_ok (unat len) info')"
proof -
  define h where "h = head + unat (L2HdrLen info)"
  define pl where "pl = L2PayloadLen info"
  have u: "unat (L2HdrLen info) \<le> 18" "unat (L2HdrLen info) \<le> unat len" using assms(2) by (auto simp: l2_ok_def)
  have "pl = len - L2HdrLen info" using assms(2) by (simp add: l2_ok_def pl_def)
  then have p: "unat pl = unat len - unat (L2HdrLen info)" using u by (simp add: unat_sub word_le_nat_alt)
  have b: "unat pl + 2044 \<le> length (drop h buf)" "unat pl < 2 ^ 31" using assms(1,5) p u by (simp_all add: h_def)
  have g: "get8 buf h = Some (buf ! h)" using b(1) by (intro get8_lt) (simp add: h_def)
  have six: "get8 (drop h buf) 6 = Some (drop h buf ! 6)" using b(1) by (intro get8_lt) simp
  have k: "ip6_hdr_ok (40, x, 0, 0)" for x by (simp add: ip6_hdr_ok_def)
  have "\<exists>ok s. AnalyzeIP6Hdr (drop h buf) pl = Some (ok, s) \<and> (ok \<longrightarrow> ip6_hdr_ok s)"
  proof (cases "pl < 40")
    case True
    then show ?thesis by (auto simp: AnalyzeIP6Hdr_def)
  next
    case False
    then have "AnalyzeIP6Hdr (drop h buf) pl = analyze_ip6_loop (drop h buf) pl (40, drop h buf ! 6, 0, 0)"
      unfolding AnalyzeIP6Hdr_def six by simp
    then show ?thesis using ip6_loop_ok [OF b k] by simp
  qed
  then obtain ok s where s: "AnalyzeIP6Hdr (drop h buf) pl = Some (ok, s)" "ok \<longrightarrow> ip6_hdr_ok s" by blast
  obtain hlen nh home dest where "s = (hlen, nh, home, dest)" by (cases s)
  note a = s [unfolded this]
  have o: "unat (L2HdrLen info + x) + 16 \<le> unat (L2HdrLen info) + unat hlen" if "unat x + 16 \<le> unat hlen" "unat hlen \<le> 252" for x
    using that u(1) by (subst unat_plus_small) simp_all
  let ?i = "info\<lparr> L3HdrLen := hlen, ip6HomeAddrOffset := (if home \<noteq> 0 then L2HdrLen info + home else 0),
    ip6DestAddrOffset := (if dest \<noteq> 0 then L2HdrLen info + dest else 0), isFragment := (nh = 44) \<rparr>"
  have hb: "headersBuffer info + unat (L2HdrLen info) = h" using assms(2) by (simp add: l2_ok_def h_def)
  have e: "analyze_ip6 buf info = (if drop_bit 4 (buf ! h AND 0xF0) \<noteq> 6 then Some (False, info)
    else if \<not> ok \<or> 252 < hlen then Some (False, info\<lparr> L3HdrLen := hlen \<rparr>)
    else Some (True, if nh \<noteq> 44 then AnalyzeL4Proto nh ?i else ?i))"
    unfolding analyze_ip6_def hb Let_def g pl_def [symmetric] by (simp add: a(1))
  have "l3_ok (unat len) ?i" if ok "\<not> 252 < hlen"
  proof -
    have h252: "unat hlen \<le> 252" using that(2) by (simp add: word_le_nat_alt not_less)
    show ?thesis using a(2) that(1) o [OF _ h252] u(1) h252 assms(3,4) by (simp add: l3_ok_def Let_def ip6_hdr_ok_def)
  qed
  moreover have "l3_ok n (AnalyzeL4Proto nh i) = l3_ok n i" for n i by (simp add: l3_ok_def AnalyzeL4Proto_def)
  ultimately have "l3_ok (unat len) (if c then AnalyzeL4Proto nh ?i else ?i)" if ok "\<not> 252 < hlen" for c
    using that by (cases c) (simp_all only: if_True if_False simp_thms)
  then show ?thesis unfolding e by (intro if_ok) blast+
qed

lemma analyze_ok:
  assumes "head + unat len + 2044 \<le> length buf" "unat len < 2 ^ 31"
  shows "\<exists>ok info. ParaNdis_AnalyzeReceivedPacket eth buf head len = Some (ok, info) \<and> (ok \<longrightarrow> l3_ok (unat len) info)"
proof -
  let ?i = "zero_packet_info\<lparr> headersBuffer := head, dataLength := len \<rparr>"
  have l: "head + unat len \<le> length buf" using assms(1) by simp
  obtain ok info where a: "AnalyzeL2Hdr eth buf ?i = Some (ok, info)" "ok \<Longrightarrow> l2_ok head len info"
    using AnalyzeL2Hdr_ok [OF l, of ?i eth] by auto
  have e: "ParaNdis_AnalyzeReceivedPacket eth buf head len = (if \<not> ok then Some (False, info) else AnalyzeL3Hdr buf info)"
    by (simp add: ParaNdis_AnalyzeReceivedPacket_def a(1))
  consider "\<not> ok" | ok "isIP4 info" | ok "\<not> isIP4 info" "isIP6 info" | ok "\<not> isIP4 info" "\<not> isIP6 info" by blast
  then show ?thesis
  proof cases
    case 1 then show ?thesis unfolding e by auto
  next
    case 2
    show ?thesis using 2 analyze_ip4_ok [OF l a(2) [OF 2(1)] 2(2) assms(2)]
      unfolding e AnalyzeL3Hdr_def by (simp only: if_True if_False not_True_eq_False)
  next
    case 3
    show ?thesis using 3 analyze_ip6_ok [OF assms(1) a(2) [OF 3(1)] 3(2,3) assms(2)]
      unfolding e AnalyzeL3Hdr_def by (simp only: if_True if_False not_True_eq_False)
  next
    case 4
    have "l3_ok (unat len) info" using a(2) 4 by (auto simp: l2_ok_def l3_ok_def)
    then show ?thesis using 4 unfolding e AnalyzeL3Hdr_def by auto
  qed
qed

subsection \<open>The hash of an analysed packet\<close>

lemma hash_ip4_ok:
  assumes "l3_ok n info" "isIP4 info" "n + 2044 \<le> length data" "40 \<le> length key"
  shows "\<exists>info'. hash_xxp4 ndis key data info t = Some info'" "\<exists>info'. hash_ip4 ndis key data info = Some info'"
proof -
  let ?l2 = "unat (L2HdrLen info)" and ?l3 = "unat (L3HdrLen info)"
  have l: "?l2 \<le> 18" "20 \<le> ?l3" "?l2 + ?l3 \<le> n" using assms(1,2) by (auto simp: l3_ok_def)
  have u: "unat (L2HdrLen info + 12) = ?l2 + 12" using l(1) by (subst unat_plus_small) simp_all
  show "\<exists>info'. hash_xxp4 ndis key data info t = Some info'" "\<exists>info'. hash_ip4 ndis key data info = Some info'"
    using l assms(3,4) by (simp_all add: hash_xxp4_def hash_ip4_def u get_bytes_lt ToeplitzHash_ok)
qed

lemma if_both: "\<exists>x. a = Some x \<and> P x \<Longrightarrow> \<exists>x. b = Some x \<and> P x \<Longrightarrow> \<exists>x. (if c then a else b) = Some x \<and> P x"
  by simp

lemma hash_ip6_ok:
  assumes "l3_ok n info" "\<not> isIP4 info" "isIP6 info" "2044 \<le> length data" "40 \<le> length key"
  shows "\<exists>info'. hash_xxp6 ndis key data info x t t' = Some info'" "\<exists>info'. hash_ip6 ndis key data info x = Some info'"
proof -
  let ?l2 = "unat (L2HdrLen info)" and ?l3 = "unat (L3HdrLen info)"
  have l: "?l2 \<le> 18" "40 \<le> ?l3" "?l3 \<le> 252" "unat (ip6HomeAddrOffset info) + 16 \<le> ?l2 + ?l3"
    "unat (ip6DestAddrOffset info) + 16 \<le> ?l2 + ?l3"
    using assms(1-3) by (auto simp: l3_ok_def Let_def)
  have u: "unat (L2HdrLen info + 8) = ?l2 + 8" "unat (L2HdrLen info + 24) = ?l2 + 24"
    using l(1) by (subst unat_plus_small; simp)+
  have b: "unat (ip6HomeAddrOffset info) + 16 \<le> length data" "unat (ip6DestAddrOffset info) + 16 \<le> length data"
    "?l2 + 8 + 16 \<le> length data" "?l2 + 24 + 16 \<le> length data" "?l2 + ?l3 + 4 \<le> length data"
    using l assms(4) by linarith+
  have "\<exists>a. GetIP6SrcAddrForHash data info x = Some a \<and> length a = 16"
    unfolding GetIP6SrcAddrForHash_def u by (rule if_both) (use b(1,3) in \<open>simp_all add: get_bytes_lt\<close>)
  moreover have "\<exists>a. GetIP6DstAddrForHash data info x = Some a \<and> length a = 16"
    unfolding GetIP6DstAddrForHash_def u by (rule if_both) (use b(2,4) in \<open>simp_all add: get_bytes_lt\<close>)
  ultimately obtain src dst where src: "GetIP6SrcAddrForHash data info x = Some src" "length src = 16"
    and dst: "GetIP6DstAddrForHash data info x = Some dst" "length dst = 16" by blast
  show "\<exists>info'. hash_xxp6 ndis key data info x t t' = Some info'" "\<exists>info'. hash_ip6 ndis key data info x = Some info'"
    using b(5) assms(5) src dst by (simp_all add: hash_xxp6_def hash_ip6_def get_bytes_lt ToeplitzHash_ok)
qed

lemma if_ex: "(c \<Longrightarrow> \<exists>x. a = Some x) \<Longrightarrow> (\<not> c \<Longrightarrow> \<exists>x. b = Some x) \<Longrightarrow> \<exists>x. (if c then a else b) = Some x"
  by simp

lemma rss_hash_ok:
  assumes "l3_ok n info" "n + 2044 \<le> length data" "40 \<le> length (HashSecretKey (ActiveHashingSettings rss))"
  shows "\<exists>info'. ParaNdis6_RSSAnalyzeReceivedPacket ndis rss data info = Some info'"
proof -
  have d: "2044 \<le> length data" using assms(2) by simp
  show ?thesis
    unfolding ParaNdis6_RSSAnalyzeReceivedPacket_def RSSCalcHash_Unsafe_def Let_def
    by (intro if_ex hash_ip4_ok [OF assms(1) _ assms(2,3)] hash_ip6_ok [OF assms(1) _ _ d assms(3)] option.distinct) simp_all
qed

end
