(* ===== verification/NetRssTables.thy ===== *)
theory NetRssTables
  imports NetRssProofs SwOffloadVerify
begin

text \<open>
  The invariant of the receive side scaling settings, and that a request to change them keeps it:
  the passes that assign queues to the entries of the indirection table, the default queue, the
  transmit map, the message to the device and the reset of the classification.
\<close>

unbundle bit_operations_syntax

subsection \<open>Invariants\<close>

text \<open>The documented behaviour of the system call: a processor index is invalid or below the number of processors.\<close>

definition procs_ok :: "ndis_rss \<Rightarrow> rss_env \<Rightarrow> bool" where
  "procs_ok ndis env \<longleftrightarrow> (\<forall>p. KeGetProcessorIndexFromNumber env p \<noteq> INVALID_PROCESSOR_INDEX ndis \<longrightarrow>
     KeGetProcessorIndexFromNumber env p < ProcessorCount env)"

text \<open>Entry \<open>i\<close> of a table of processor numbers names a processor.\<close>

definition entry_valid :: "ndis_rss \<Rightarrow> rss_env \<Rightarrow> bytes \<Rightarrow> nat \<Rightarrow> bool" where
  "entry_valid ndis env table i \<longleftrightarrow> (case proc_at table i of None \<Rightarrow> False
     | Some p \<Rightarrow> KeGetProcessorIndexFromNumber env p \<noteq> INVALID_PROCESSOR_INDEX ndis)"

text \<open>A queue of the first \<open>n\<close>, or no queue.\<close>

definition queue_below :: "nat \<Rightarrow> u8 \<Rightarrow> bool" where
  "queue_below n q \<longleftrightarrow> q = PARANDIS_RECEIVE_NO_QUEUE \<or> unat q < n"

text \<open>The first pass over the table, after \<open>k\<close> entries and with \<open>rq\<close> queues given away.\<close>

definition filled :: "ndis_rss \<Rightarrow> rss_env \<Rightarrow> nat \<Rightarrow> nat \<Rightarrow> scaling_settings \<Rightarrow> nat \<Rightarrow> bool" where
  "filled ndis env N k s rq \<longleftrightarrow> rq \<le> N \<and>
     (\<exists>m. CPUIndexMapping s = Some m \<and> length m = unat (ProcessorCount env) \<and> (\<forall>q\<in>set m. queue_below rq q)) \<and>
     (\<forall>i<k. queue_below rq (QueueIndirectionTable s ! i) \<and>
        (QueueIndirectionTable s ! i \<noteq> PARANDIS_RECEIVE_NO_QUEUE \<longrightarrow> entry_valid ndis env (IndirectionTable s) i)) \<and>
     (if rq = 0 then FirstQueueIndirectionIndex s = INVALID_INDIRECTION_INDEX \<and>
        (\<forall>i<k. \<not> entry_valid ndis env (IndirectionTable s) i)
      else unat (FirstQueueIndirectionIndex s) < k \<and>
        QueueIndirectionTable s ! unat (FirstQueueIndirectionIndex s) \<noteq> PARANDIS_RECEIVE_NO_QUEUE)"

text \<open>The passes over the table keep the sizes.\<close>

definition same_shape :: "scaling_settings \<Rightarrow> scaling_settings \<Rightarrow> bool" where
  "same_shape s s' \<longleftrightarrow> length (IndirectionTable s') = length (IndirectionTable s) \<and>
     length (QueueIndirectionTable s') = length (QueueIndirectionTable s) \<and>
     IndirectionTableSize s' = IndirectionTableSize s \<and> RSSHashMask s' = RSSHashMask s \<and>
     CPUIndexMappingSize s' = CPUIndexMappingSize s"

text \<open>The second pass, after \<open>k\<close> of \<open>n\<close> entries.\<close>

definition reassigned :: "ndis_rss \<Rightarrow> rss_env \<Rightarrow> nat \<Rightarrow> nat \<Rightarrow> nat \<Rightarrow> scaling_settings \<Rightarrow> bool" where
  "reassigned ndis env N n k s \<longleftrightarrow>
     (\<forall>i<n. queue_below N (QueueIndirectionTable s ! i) \<and>
        (QueueIndirectionTable s ! i \<noteq> PARANDIS_RECEIVE_NO_QUEUE \<longrightarrow> entry_valid ndis env (IndirectionTable s) i)) \<and>
     (\<forall>i<k. QueueIndirectionTable s ! i \<noteq> PARANDIS_RECEIVE_NO_QUEUE) \<and>
     unat (FirstQueueIndirectionIndex s) < n \<and>
     QueueIndirectionTable s ! unat (FirstQueueIndirectionIndex s) \<noteq> PARANDIS_RECEIVE_NO_QUEUE"

text \<open>The map from processors to queues.\<close>

definition mapping_ok :: "nat \<Rightarrow> scaling_settings \<Rightarrow> bool" where
  "mapping_ok N s \<longleftrightarrow> (case CPUIndexMapping s of None \<Rightarrow> CPUIndexMappingSize s = 0
     | Some m \<Rightarrow> length m = unat (CPUIndexMappingSize s) \<and> (\<forall>q\<in>set m. queue_below N q))"

text \<open>Settings in use: every entry the hash mask can select is in the table and names a queue.\<close>

definition scaling_ok :: "nat \<Rightarrow> scaling_settings \<Rightarrow> bool" where
  "scaling_ok N s \<longleftrightarrow> length (IndirectionTable s) = 4 * length (QueueIndirectionTable s) \<and>
     unat (RSSHashMask s) < length (QueueIndirectionTable s) \<and>
     unat (IndirectionTableSize s div 4) \<le> length (QueueIndirectionTable s) \<and>
     (FirstQueueIndirectionIndex s \<noteq> INVALID_INDIRECTION_INDEX \<longrightarrow>
       (\<forall>i \<le> unat (RSSHashMask s). unat (QueueIndirectionTable s ! i) < N)) \<and>
     (DefaultQueue s = PARANDIS_RECEIVE_UNCLASSIFIED_PACKET \<or> queue_below N (DefaultQueue s)) \<and> mapping_ok N s"

text \<open>The secret key fits its array.\<close>

definition key_ok :: "ndis_rss \<Rightarrow> hashing_settings \<Rightarrow> bool" where
  "key_ok ndis h \<longleftrightarrow> length (HashSecretKey h) = unat (SECRET_KEY_MAX_SIZE ndis) \<and>
     unat (HashSecretKeySize h) \<le> unat (SECRET_KEY_MAX_SIZE ndis)"

text \<open>The settings of an adapter with at most 127 receive queues.\<close>

definition rss_ok :: "ndis_rss \<Rightarrow> rss_params \<Rightarrow> bool" where
  "rss_ok ndis rss \<longleftrightarrow> (let N = unat (ReceiveQueuesNumber rss); s = RSSScalingSettings rss in
     0 < N \<and> N \<le> 127 \<and> scaling_ok N (ActiveRSSScalingSettings rss) \<and>
     length (IndirectionTable s) = unat (INDIRECTION_TABLE_MAX_SIZE ndis) \<and>
     length (IndirectionTable s) = 4 * length (QueueIndirectionTable s) \<and>
     key_ok ndis (ReceiveHashingSettings rss) \<and> key_ok ndis (RSSHashingSettings rss) \<and>
     key_ok ndis (ActiveHashingSettings rss))"

text \<open>A request whose table and key lie inside its buffer, with a processor the system knows in the table.\<close>

definition request_fits :: "ndis_rss \<Rightarrow> rss_env \<Rightarrow> scale_parameters \<Rightarrow> bool" where
  "request_fits ndis env P \<longleftrightarrow>
     (\<not> flag P (FLAG_ITABLE_UNCHANGED ndis) \<longrightarrow>
        unat (p_IndirectionTableOffset P) + unat (p_IndirectionTableSize P) \<le> length (p_bytes P) \<and>
        list_ex (entry_valid ndis env (drop (unat (p_IndirectionTableOffset P)) (p_bytes P)))
          [0..<unat (p_IndirectionTableSize P div 4)]) \<and>
     (\<not> flag P (FLAG_HASH_KEY_UNCHANGED ndis) \<longrightarrow>
        unat (p_HashSecretKeyOffset P) + unat (p_HashSecretKeySize P) \<le> length (p_bytes P))"

text \<open>The settings after a table of the request was taken over.\<close>

definition new_table :: "ndis_rss \<Rightarrow> rss_env \<Rightarrow> scale_parameters \<Rightarrow> nat \<Rightarrow> scaling_settings \<Rightarrow> bool" where
  "new_table ndis env P N s \<longleftrightarrow> scaling_ok N s \<and> IndirectionTableSize s = p_IndirectionTableSize P \<and>
     (\<forall>i < unat (IndirectionTableSize s div 4). entry_valid ndis env (IndirectionTable s) i)"

text \<open>Every entry of the stored table names a processor.\<close>

definition table_valid :: "ndis_rss \<Rightarrow> rss_env \<Rightarrow> scaling_settings \<Rightarrow> bool" where
  "table_valid ndis env s \<longleftrightarrow> unat (IndirectionTableSize s) \<le> length (IndirectionTable s) \<and>
     (\<forall>i < unat (IndirectionTableSize s div 4). entry_valid ndis env (IndirectionTable s) i)"

text \<open>The transmit map has the length that is recorded for it.\<close>

definition map_ok :: "rss_adapter \<Rightarrow> bool" where
  "map_ok ctx \<longleftrightarrow> RSS2QueueLength ctx \<noteq> 0 \<longrightarrow>
     (\<exists>m. RSS2QueueMap ctx = Some m \<and> length m = unat (RSS2QueueLength ctx))"

text \<open>Every classified buffer belongs to one of the path bundles.\<close>

definition buffers_ok :: "rss_adapter \<Rightarrow> bool" where
  "buffers_ok ctx \<longleftrightarrow> (\<forall>b\<in>set (concat (ReceiveQueues ctx)). fst b < length (UnclassifiedQueues ctx))"

text \<open>The invariant of the adapter.\<close>

definition rss_adapter_ok :: "ndis_rss \<Rightarrow> rss_env \<Rightarrow> rss_adapter \<Rightarrow> bool" where
  "rss_adapter_ok ndis env ctx \<longleftrightarrow> rss_ok ndis (RSSParameters ctx) \<and>
     table_valid ndis env (RSSScalingSettings (RSSParameters ctx)) \<and> map_ok ctx \<and> buffers_ok ctx"

text \<open>The documented behaviour of the system: processor indices in range, blocks of the
  requested size; and the transmit map can be allocated.\<close>

definition rss_env_ok :: "ndis_rss \<Rightarrow> rss_env \<Rightarrow> bool" where
  "rss_env_ok ndis env \<longleftrightarrow> procs_ok ndis env \<and> alloc_queue_map env \<and>
     (\<forall>n b. alloc_rss_config env n = Some b \<longrightarrow> length b = unat n)"

text \<open>What is assumed of a request: its buffer has the stated length, the sums of offsets and
  sizes do not wrap, a table in it has a known processor, and a table left unchanged exists.\<close>

definition request_ok :: "ndis_rss \<Rightarrow> rss_env \<Rightarrow> rss_adapter \<Rightarrow> scale_parameters \<Rightarrow> u32 \<Rightarrow> bool" where
  "request_ok ndis env ctx P len \<longleftrightarrow> unat len \<le> length (p_bytes P) \<and>
     unat (p_IndirectionTableOffset P) + unat (p_IndirectionTableSize P) < 2 ^ 32 \<and>
     unat (p_HashSecretKeyOffset P) + unat (p_HashSecretKeySize P) < 2 ^ 32 \<and>
     (if flag P (FLAG_ITABLE_UNCHANGED ndis)
      then 4 \<le> IndirectionTableSize (ActiveRSSScalingSettings (RSSParameters ctx))
      else list_ex (entry_valid ndis env (drop (unat (p_IndirectionTableOffset P)) (p_bytes P)))
        [0..<unat (p_IndirectionTableSize P div 4)])"

text \<open>The checks before the request is looked at in detail.\<close>

definition rss_checks :: "ndis_rss \<Rightarrow> rss_adapter \<Rightarrow> scale_parameters \<Rightarrow> u32 \<Rightarrow> bool" where
  "rss_checks ndis ctx P len \<longleftrightarrow> \<not> len < sizeof_header ndis \<and> \<not> len < MinimalRssParametersLength ndis (p_Revision P) \<and>
    \<not> (RSSMode (RSSParameters ctx) = PARANDIS_RSS_HASHING \<and> \<not> flag P (FLAG_DISABLE_RSS ndis) \<and> p_HashInformation P \<noteq> 0) \<and>
    \<not> (\<not> flag P (FLAG_HASH_INFO_UNCHANGED ndis OR FLAG_DISABLE_RSS ndis) \<and> \<not> IsValidHashInfo ndis (p_HashInformation P))"

subsection \<open>Filling the table\<close>

lemma proc_at_in: "4 * i + 4 \<le> length t \<Longrightarrow> \<exists>p. proc_at t i = Some p"
  by (simp add: proc_at_def)

lemma filled_next:
  assumes "filled ndis env N k s rq" "k < length (QueueIndirectionTable s)" "queue_below rq q"
    "q \<noteq> PARANDIS_RECEIVE_NO_QUEUE \<longrightarrow> entry_valid ndis env (IndirectionTable s) k"
    "rq = 0 \<longrightarrow> \<not> entry_valid ndis env (IndirectionTable s) k"
  shows "filled ndis env N (Suc k) (s\<lparr> QueueIndirectionTable := (QueueIndirectionTable s)[k := q] \<rparr>) rq"
  using assms by (auto simp: filled_def nth_list_update less_Suc_eq split: if_splits)

lemma filled_assign:
  assumes f: "filled ndis env N k s rq" and k: "k < length (QueueIndirectionTable s)"
    and m: "CPUIndexMapping s = Some m" and q: "unat q = rq" "rq < N" "q \<noteq> PARANDIS_RECEIVE_NO_QUEUE"
    and v: "entry_valid ndis env (IndirectionTable s) k"
    and first: "first = (if rq = 0 then of_nat k else FirstQueueIndirectionIndex s)" "k < 2 ^ 16"
  shows "filled ndis env N (Suc k) (s\<lparr> FirstQueueIndirectionIndex := first, CPUIndexMapping := Some (m[c := q]),
    QueueIndirectionTable := (QueueIndirectionTable s)[k := q] \<rparr>) (rq + 1)"
proof -
  have m': "\<forall>x\<in>set (m[c := q]). queue_below (rq + 1) x"
    using f m q set_update_subset_insert [of m c q] by (fastforce simp: filled_def queue_below_def)
  have "\<forall>i<Suc k. queue_below (rq + 1) ((QueueIndirectionTable s)[k := q] ! i) \<and>
    ((QueueIndirectionTable s)[k := q] ! i \<noteq> PARANDIS_RECEIVE_NO_QUEUE \<longrightarrow> entry_valid ndis env (IndirectionTable s) i)"
    using f k q v by (auto simp: filled_def queue_below_def nth_list_update less_Suc_eq)
  moreover have "unat first < Suc k \<and> (QueueIndirectionTable s)[k := q] ! unat first \<noteq> PARANDIS_RECEIVE_NO_QUEUE"
    using f k q(3) first by (auto simp: filled_def nth_list_update unat_of_nat_small)
  ultimately show ?thesis using f m m' q(2) by (auto simp: filled_def)
qed

lemma fill_entry_ok:
  assumes f: "filled ndis env N k s (unat rq)" and p: "procs_ok ndis env"
    and N: "unat n = N" "0 < N" "N \<le> 127"
    and k: "k < length (QueueIndirectionTable s)" "4 * k + 4 \<le> length (IndirectionTable s)" "k < 2 ^ 16"
  shows "\<exists>s' rq'. fill_entry ndis env n k (s, rq) = Some (s', rq') \<and> filled ndis env N (Suc k) s' (unat rq') \<and>
    same_shape s s' \<and> IndirectionTable s' = IndirectionTable s"
proof -
  obtain m where m: "CPUIndexMapping s = Some m" "length m = unat (ProcessorCount env)" "\<forall>q\<in>set m. queue_below (unat rq) q"
    using f by (auto simp: filled_def)
  obtain pr where pr: "proc_at (IndirectionTable s) k = Some pr" using proc_at_in [OF k(2)] by blast
  define cpu where "cpu = KeGetProcessorIndexFromNumber env pr"
  show ?thesis
  proof (cases "cpu = INVALID_PROCESSOR_INDEX ndis")
    case True
    let ?s = "s\<lparr> QueueIndirectionTable := (QueueIndirectionTable s)[k := PARANDIS_RECEIVE_NO_QUEUE] \<rparr>"
    have "fill_entry ndis env n k (s, rq) = Some (?s, rq)"
      using k(1) by (simp add: fill_entry_def pr cpu_def [symmetric] Let_def True)
    moreover have "filled ndis env N (Suc k) ?s (unat rq)" 
      using filled_next [OF f k(1)] True by (simp add: queue_below_def entry_valid_def pr cpu_def)
    moreover have "same_shape s ?s" by (simp add: same_shape_def)
    ultimately show ?thesis by simp
  next
    case False
    then have valid: "entry_valid ndis env (IndirectionTable s) k" by (simp add: entry_valid_def pr cpu_def)
    have c: "unat cpu < length m" using p False m(2) by (auto simp: procs_ok_def cpu_def word_less_nat_alt)
    then have q: "rd m cpu = Some (m ! unat cpu)" by simp
    consider (old) "m ! unat cpu \<noteq> - 2" | (none) "m ! unat cpu = - 2" "rq = n" | (assign) "m ! unat cpu = - 2" "rq \<noteq> n" by blast
    then show ?thesis
    proof cases
      case old
      let ?s = "s\<lparr> QueueIndirectionTable := (QueueIndirectionTable s)[k := m ! unat cpu] \<rparr>"
      have "fill_entry ndis env n k (s, rq) = Some (?s, rq)"
        using k(1) False old by (simp add: fill_entry_def pr cpu_def [symmetric] Let_def m(1) q)
      moreover have "queue_below (unat rq) (m ! unat cpu)" using m(3) c by simp
      moreover from this have "unat rq \<noteq> 0" using old by (auto simp: queue_below_def)
      ultimately have "fill_entry ndis env n k (s, rq) = Some (?s, rq)" "filled ndis env N (Suc k) ?s (unat rq)"
        using filled_next [OF f k(1)] valid by simp_all
      then show ?thesis by (simp add: same_shape_def)
    next
      case none
      let ?s = "s\<lparr> QueueIndirectionTable := (QueueIndirectionTable s)[k := - 2] \<rparr>"
      have "rq \<noteq> 0" using none(2) N by auto
      then have "fill_entry ndis env n k (s, rq) = Some (?s, rq)"
        using k(1) False none by (simp add: fill_entry_def pr cpu_def [symmetric] Let_def m(1) q)
      moreover have "filled ndis env N (Suc k) ?s (unat rq)"
        using filled_next [OF f k(1)] \<open>rq \<noteq> 0\<close> by (simp add: queue_below_def unat_eq_0)
      ultimately show ?thesis by (simp add: same_shape_def)
    next
      case assign
      define first where "first = (if unat rq = 0 then of_nat k else FirstQueueIndirectionIndex s)"
      let ?s = "s\<lparr> FirstQueueIndirectionIndex := first, CPUIndexMapping := Some (m[unat cpu := rq]),
        QueueIndirectionTable := (QueueIndirectionTable s)[k := rq] \<rparr>"
      have lt: "unat rq < N" using f assign(2) N(1) by (auto simp: filled_def word_unat_eq_iff)
      then have u: "unat (rq + 1) = unat rq + 1" using N(3) by (subst unat_plus_small) simp_all
      have ne: "rq \<noteq> - 2" using lt N(3) by auto
      have "fill_entry ndis env n k (s, rq) = Some (?s, rq + 1)"
        using k(1) False assign c
        by (simp add: fill_entry_def pr cpu_def [symmetric] Let_def m(1) q first_def unat_eq_0)
      moreover have "filled ndis env N (Suc k) ?s (unat (rq + 1))"
        unfolding u by (rule filled_assign [OF f k(1) m(1) refl lt ne valid first_def k(3)])
      ultimately show ?thesis by (simp add: same_shape_def)
    qed
  qed
qed

lemma fill_entries_ok:
  assumes p: "procs_ok ndis env" and N: "unat n = N" "0 < N" "N \<le> 127"
  shows "k \<le> m \<Longrightarrow> filled ndis env N k s (unat rq) \<Longrightarrow> m \<le> length (QueueIndirectionTable s) \<Longrightarrow>
    4 * m \<le> length (IndirectionTable s) \<Longrightarrow> m \<le> 2 ^ 16 \<Longrightarrow>
    \<exists>s' rq'. fill_entries ndis env n [k..<m] (s, rq) = Some (s', rq') \<and> filled ndis env N m s' (unat rq') \<and>
      same_shape s s' \<and> IndirectionTable s' = IndirectionTable s"
proof (induction "m - k" arbitrary: k s rq)
  case 0
  then show ?case by (simp add: same_shape_def)
next
  case (Suc d)
  have k: "k < m" "[k..<m] = k # [Suc k..<m]" using Suc.hyps(2) by (simp_all add: upt_conv_Cons)
  have "k < length (QueueIndirectionTable s)" "4 * k + 4 \<le> length (IndirectionTable s)" "k < 2 ^ 16"
    using k(1) Suc.prems by linarith+
  from fill_entry_ok [OF Suc.prems(2) p N this]
  obtain s1 rq1 where 1: "fill_entry ndis env n k (s, rq) = Some (s1, rq1)"
    "filled ndis env N (Suc k) s1 (unat rq1)" "same_shape s s1" "IndirectionTable s1 = IndirectionTable s" by blast
  have "d = m - Suc k" "Suc k \<le> m" "m \<le> length (QueueIndirectionTable s1)" "4 * m \<le> length (IndirectionTable s1)"
    using Suc.hyps(2) k(1) Suc.prems 1(3) by (simp_all add: same_shape_def)
  from Suc.hyps(1) [OF this(1,2) 1(2) this(3,4) Suc.prems(5)]
  show ?case using 1 k(2) by (auto simp: same_shape_def)
qed

lemma proc_at_eq: "4 * i + 4 \<le> length t \<Longrightarrow> proc_at t i =
  Some \<lparr> Group = le16 (t ! (4 * i)) (t ! (4 * i + 1)), Number = t ! (4 * i + 2), Reserved = t ! (4 * i + 3) \<rparr>"
  by (simp add: proc_at_def)

lemma proc_at_copy:
  assumes "4 * k + 4 \<le> length t" "4 * f + 4 \<le> length t"
    and t': "t' = take (4 * k) t @ take 4 (drop (4 * f) t) @ drop (4 * k + 4) t"
  shows "length t' = length t" "proc_at t' k = proc_at t f"
    "i \<noteq> k \<Longrightarrow> 4 * i + 4 \<le> length t \<Longrightarrow> proc_at t' i = proc_at t i"
proof -
  show l: "length t' = length t" using assms by simp
  have nth: "t' ! j = (if 4 * k \<le> j \<and> j < 4 * k + 4 then t ! (4 * f + (j - 4 * k)) else t ! j)" if "j < length t" for j
  proof -
    define p where "p = take 4 (drop (4 * f) t)"
    have p: "length p = 4" "\<And>j. j < 4 \<Longrightarrow> p ! j = t ! (4 * f + j)" using assms(2) by (simp_all add: p_def)
    show ?thesis unfolding t' p_def [symmetric] using assms(1) that p by (auto simp: nth_append)
  qed
  have "t' ! (4 * k + j) = t ! (4 * f + j)" if "j < 4" for j using nth [of "4 * k + j"] that assms(1) by simp
  from this [of 0] this [of 1] this [of 2] this [of 3] show "proc_at t' k = proc_at t f"
    using assms(1,2) l by (simp add: proc_at_eq)
  show "proc_at t' i = proc_at t i" if "i \<noteq> k" "4 * i + 4 \<le> length t"
  proof -
    have "t' ! (4 * i + j) = t ! (4 * i + j)" if "j < 4" for j
    proof -
      have "\<not> (4 * k \<le> 4 * i + j \<and> 4 * i + j < 4 * k + 4)" using that \<open>i \<noteq> k\<close> by linarith
      then show ?thesis using nth [of "4 * i + j"] that \<open>4 * i + 4 \<le> length t\<close> by (simp only: if_False)
    qed
    from this [of 0] this [of 1] this [of 2] this [of 3] show ?thesis using that l by (simp add: proc_at_eq)
  qed
qed

lemma reassign_entry_ok:
  assumes r: "reassigned ndis env N n k s" and N: "0 < N" and k: "k < n"
    and n: "n \<le> length (QueueIndirectionTable s)" "4 * n \<le> length (IndirectionTable s)"
  shows "\<exists>s'. reassign_entry k s = Some s' \<and> reassigned ndis env N n (Suc k) s' \<and> same_shape s s' \<and>
    CPUIndexMapping s' = CPUIndexMapping s \<and> FirstQueueIndirectionIndex s' = FirstQueueIndirectionIndex s"
proof -
  let ?Q = "QueueIndirectionTable s" and ?t = "IndirectionTable s" and ?f = "unat (FirstQueueIndirectionIndex s)"
  have q: "nth_opt ?Q k = Some (?Q ! k)" using k n(1) by simp
  show ?thesis
  proof (cases "?Q ! k = - 2")
    case False
    then have "reassign_entry k s = Some s" by (simp add: reassign_entry_def q)
    then show ?thesis using r False by (auto simp: reassigned_def same_shape_def less_Suc_eq)
  next
    case True
    define t where "t = take (4 * k) ?t @ take 4 (drop (4 * ?f) ?t) @ drop (4 * k + 4) ?t"
    let ?s = "s\<lparr> QueueIndirectionTable := ?Q[k := 0], IndirectionTable := t \<rparr>"
    have f: "?f < n" "entry_valid ndis env ?t ?f" using r by (auto simp: reassigned_def)
    have l: "4 * k + 4 \<le> length ?t" "4 * ?f + 4 \<le> length ?t" using k f(1) n(2) by linarith+
    note c = proc_at_copy [OF l t_def]
    have "get_bytes ?t (4 * ?f) 4 = Some (take 4 (drop (4 * ?f) ?t))" using l(2) by (simp add: get_bytes_def)
    then have e: "reassign_entry k s = Some ?s" using True l(1) by (simp add: reassign_entry_def q t_def)
    have "entry_valid ndis env t k" using f(2) by (simp add: entry_valid_def c(2))
    moreover have "entry_valid ndis env t i = entry_valid ndis env ?t i" if "i < n" "i \<noteq> k" for i
    proof -
      have "4 * i + 4 \<le> length ?t" using that n(2) by linarith
      from c(3) [OF that(2) this] show ?thesis by (simp add: entry_valid_def)
    qed
    ultimately have "reassigned ndis env N n (Suc k) ?s"
      using r N k n(1) by (auto simp: reassigned_def queue_below_def nth_list_update less_Suc_eq)
    then show ?thesis using e c(1) by (auto simp: same_shape_def)
  qed
qed

lemma reassign_entries_ok:
  assumes N: "0 < N"
  shows "k \<le> n \<Longrightarrow> reassigned ndis env N n k s \<Longrightarrow> n \<le> length (QueueIndirectionTable s) \<Longrightarrow>
    4 * n \<le> length (IndirectionTable s) \<Longrightarrow>
    \<exists>s'. reassign_entries [k..<n] s = Some s' \<and> reassigned ndis env N n n s' \<and> same_shape s s' \<and>
      CPUIndexMapping s' = CPUIndexMapping s \<and> FirstQueueIndirectionIndex s' = FirstQueueIndirectionIndex s"
proof (induction "n - k" arbitrary: k s)
  case 0
  then show ?case by (simp add: same_shape_def)
next
  case (Suc d)
  have k: "k < n" "[k..<n] = k # [Suc k..<n]" using Suc.hyps(2) by (simp_all add: upt_conv_Cons)
  from reassign_entry_ok [OF Suc.prems(2) N k(1) Suc.prems(3,4)]
  obtain s1 where 1: "reassign_entry k s = Some s1" "reassigned ndis env N n (Suc k) s1" "same_shape s s1"
    "CPUIndexMapping s1 = CPUIndexMapping s" "FirstQueueIndirectionIndex s1 = FirstQueueIndirectionIndex s" by blast
  have "d = n - Suc k" "Suc k \<le> n" "n \<le> length (QueueIndirectionTable s1)" "4 * n \<le> length (IndirectionTable s1)"
    using Suc.hyps(2) k(1) Suc.prems 1(3) by (simp_all add: same_shape_def)
  from Suc.hyps(1) [OF this(1,2) 1(2) this(3,4)]
  show ?case using 1 k(2) by (auto simp: same_shape_def)
qed

lemma FillCPUMappingArray_ok:
  fixes s :: scaling_settings
  defines "n \<equiv> unat (IndirectionTableSize s div 4)"
  assumes p: "procs_ok ndis env" and N: "unat num = N" "0 < N" "N \<le> 127"
    and m: "CPUIndexMapping s = Some (replicate (unat (ProcessorCount env)) PARANDIS_RECEIVE_NO_QUEUE)"
      "CPUIndexMappingSize s = ProcessorCount env"
    and l: "n \<le> length (QueueIndirectionTable s)" "4 * n \<le> length (IndirectionTable s)"
  shows "\<exists>s'. FillCPUMappingArray ndis env s num = Some s' \<and> same_shape s s' \<and> mapping_ok N s' \<and>
    (FirstQueueIndirectionIndex s' \<noteq> INVALID_INDIRECTION_INDEX \<longrightarrow>
      (\<forall>i<n. unat (QueueIndirectionTable s' ! i) < N \<and> entry_valid ndis env (IndirectionTable s') i)) \<and>
    (\<forall>i<n. entry_valid ndis env (IndirectionTable s) i \<longrightarrow> FirstQueueIndirectionIndex s' \<noteq> INVALID_INDIRECTION_INDEX)"
proof -
  let ?s0 = "s\<lparr> FirstQueueIndirectionIndex := - 1 \<rparr>"
  have n16: "n \<le> 2 ^ 16" using unsigned_less [of "IndirectionTableSize s div 4", where ?'a = nat] by (simp add: n_def)
  have "filled ndis env N 0 ?s0 (unat (0 :: u8))" using m(1) by (simp add: filled_def queue_below_def)
  from fill_entries_ok [OF p N le0 this _ _ n16] l
  obtain s1 rq where 1: "fill_entries ndis env num [0..<n] (?s0, 0) = Some (s1, rq)" "filled ndis env N n s1 (unat rq)"
    "same_shape ?s0 s1" "IndirectionTable s1 = IndirectionTable s" by auto
  have mono: "queue_below N q" if "queue_below (unat rq) q" for q
    using that 1(2) by (auto simp: filled_def queue_below_def)
  have sh: "same_shape s s1" using 1(3) by (simp add: same_shape_def)
  obtain m1 where m1: "CPUIndexMapping s1 = Some m1" "length m1 = unat (ProcessorCount env)"
    "\<And>q. q \<in> set m1 \<Longrightarrow> queue_below (unat rq) q" using 1(2) unfolding filled_def by blast
  have ok: "mapping_ok N s1" using m1(1,2) mono [OF m1(3)] sh m(2) by (simp add: mapping_ok_def same_shape_def)
  have e: "FillCPUMappingArray ndis env s num =
    (if FirstQueueIndirectionIndex s1 = - 1 then Some s1 else reassign_entries [0..<n] s1)"
    using 1(1) by (simp add: FillCPUMappingArray_def n_def)
  show ?thesis
  proof (cases "FirstQueueIndirectionIndex s1 = - 1")
    case True
    have "unat rq = 0"
    proof (rule ccontr)
      assume "unat rq \<noteq> 0"
      then have "unat (FirstQueueIndirectionIndex s1) < n" using 1(2) by (simp add: filled_def)
      then have "unat (- 1 :: u32) < n" using True by simp
      then show False using n16 by (simp add: unsigned_minus_1_eq_mask mask_eq_exp_minus_1)
    qed
    then have "\<forall>i<n. \<not> entry_valid ndis env (IndirectionTable s) i" using 1(2,4) by (simp add: filled_def)
    then show ?thesis using True e ok sh by simp
  next
    case False
    then have "reassigned ndis env N n 0 s1"
      using 1(2) by (auto simp: reassigned_def filled_def intro: mono split: if_splits)
    from reassign_entries_ok [OF N(2) le0 this] l sh
    obtain s2 where 2: "reassign_entries [0..<n] s1 = Some s2" "reassigned ndis env N n n s2" "same_shape s1 s2"
      "CPUIndexMapping s2 = CPUIndexMapping s1" "FirstQueueIndirectionIndex s2 = FirstQueueIndirectionIndex s1"
      by (auto simp: same_shape_def)
    have "mapping_ok N s2" using ok m1(1) 2(3,4) by (simp add: mapping_ok_def same_shape_def)
    moreover have "same_shape s s2" using sh 2(3) by (simp add: same_shape_def)
    ultimately show ?thesis using e False 2(1,2,5) by (auto simp: reassigned_def queue_below_def)
  qed
qed

subsection \<open>Taking over a table\<close>

lemma SetDefaultQueue_ok:
  assumes "mapping_ok N s"
  shows "\<exists>p q. SetDefaultQueue env s idx = Some (s\<lparr> DefaultProcessor := p, DefaultQueue := q \<rparr>) \<and>
    (q = PARANDIS_RECEIVE_UNCLASSIFIED_PACKET \<or> queue_below N q)"
proof (cases "if idx < CPUIndexMappingSize s then KeGetProcessorNumberFromIndex env idx else None")
  case None
  have "s\<lparr> DefaultQueue := - 1 \<rparr> = s\<lparr> DefaultProcessor := DefaultProcessor s, DefaultQueue := - 1 \<rparr>" by simp
  then show ?thesis using None unfolding SetDefaultQueue_def None option.case by blast
next
  case (Some p)
  then have idx: "idx < CPUIndexMappingSize s" by (simp split: if_splits)
  then have "CPUIndexMappingSize s \<noteq> 0" by auto
  then obtain m where m: "CPUIndexMapping s = Some m" "unat idx < length m" "\<And>q. q \<in> set m \<Longrightarrow> queue_below N q"
    using assms idx by (auto simp: mapping_ok_def word_less_nat_alt split: option.splits)
  have "SetDefaultQueue env s idx = Some (s\<lparr> DefaultProcessor := p, DefaultQueue := m ! unat idx \<rparr>)"
    unfolding SetDefaultQueue_def Some using m by simp
  moreover have "queue_below N (m ! unat idx)" using m by simp
  ultimately show ?thesis by blast
qed

lemma scaling_ok_default:
  "scaling_ok N s \<Longrightarrow> q = PARANDIS_RECEIVE_UNCLASSIFIED_PACKET \<or> queue_below N q \<Longrightarrow>
    scaling_ok N (s\<lparr> DefaultProcessor := p, DefaultQueue := q \<rparr>)"
  by (simp add: scaling_ok_def mapping_ok_def split: option.splits)

lemma classification_ok:
  assumes "scaling_ok N (ActiveRSSScalingSettings rss)"
  shows "\<exists>q p. ParaNdis6_RSSGetScalingDataForPacket rss info = Some (q, p) \<and>
    (unat q < N \<or> q = PARANDIS_RECEIVE_UNCLASSIFIED_PACKET \<or> RSSHash_Type info = 0 \<and> q = PARANDIS_RECEIVE_NO_QUEUE)"
proof -
  let ?s = "ActiveRSSScalingSettings rss"
  define i where "i = RSSHash_Value info AND RSSHashMask ?s"
  have le: "unat i \<le> unat (RSSHashMask ?s)" by (simp add: i_def word_and_le1 flip: word_le_nat_alt)
  then have l: "unat i < length (QueueIndirectionTable ?s)" "4 * unat i + 4 \<le> length (IndirectionTable ?s)"
    using assms by (auto simp: scaling_ok_def)
  have q: "rd (QueueIndirectionTable ?s) i = Some (QueueIndirectionTable ?s ! unat i)" using l(1) by simp
  obtain p where p: "proc_at (IndirectionTable ?s) (unat i) = Some p" using proc_at_in [OF l(2)] by blast
  show ?thesis
    using assms q p le
    by (auto simp: ParaNdis6_RSSGetScalingDataForPacket_def Let_def i_def [symmetric] scaling_ok_def queue_below_def)
qed

lemma rss_ok_parts:
  assumes "rss_ok ndis rss"
  shows "0 < unat (ReceiveQueuesNumber rss)" "unat (ReceiveQueuesNumber rss) \<le> 127"
    "scaling_ok (unat (ReceiveQueuesNumber rss)) (ActiveRSSScalingSettings rss)"
    "length (IndirectionTable (RSSScalingSettings rss)) = unat (INDIRECTION_TABLE_MAX_SIZE ndis)"
    "length (IndirectionTable (RSSScalingSettings rss)) = 4 * length (QueueIndirectionTable (RSSScalingSettings rss))"
    "key_ok ndis (ReceiveHashingSettings rss)" "key_ok ndis (RSSHashingSettings rss)"
    "key_ok ndis (ActiveHashingSettings rss)"
  using assms by (simp_all add: rss_ok_def Let_def)

lemma move_memory_ok:
  "at + n \<le> length src \<Longrightarrow> n \<le> length dst \<Longrightarrow>
    move_memory dst src at n = Some (take n (drop at src) @ drop n dst)"
  by (simp add: move_memory_def get_bytes_def)

lemma proc_at_prefix: "4 * i + 4 \<le> n \<Longrightarrow> n \<le> length xs \<Longrightarrow> proc_at (take n xs @ ys) i = proc_at xs i"
  by (simp add: proc_at_eq nth_append)

lemma set_new_table:
  assumes p: "procs_ok ndis env" and r: "rss_ok ndis rss" and req: "request_fits ndis env P"
    and flag: "\<not> flag P (FLAG_ITABLE_UNCHANGED ndis)" and len: "rss_lengths_ok ndis P len"
    and alloc: "alloc_cpu_mapping env"
  shows "\<exists>s. set_table ndis env P rss = Some (Some (rss\<lparr> RSSScalingSettings := s \<rparr>)) \<and>
    new_table ndis env P (unat (ReceiveQueuesNumber rss)) s \<and>
    length (IndirectionTable s) = unat (INDIRECTION_TABLE_MAX_SIZE ndis) \<and>
    length (IndirectionTable s) = 4 * length (QueueIndirectionTable s)"
proof -
  let ?S = "RSSScalingSettings rss" and ?N = "unat (ReceiveQueuesNumber rss)"
  define n where "n = unat (p_IndirectionTableSize P div 4)"
  define table where "table = take (unat (p_IndirectionTableSize P)) (drop (unat (p_IndirectionTableOffset P)) (p_bytes P)) @
    drop (unat (p_IndirectionTableSize P)) (IndirectionTable ?S)"
  define s0 where "s0 = ?S\<lparr> CPUIndexMapping := Some (replicate (unat (ProcessorCount env)) PARANDIS_RECEIVE_NO_QUEUE),
    CPUIndexMappingSize := ProcessorCount env, IndirectionTableSize := p_IndirectionTableSize P,
    IndirectionTable := table, RSSHashMask := ucast (p_IndirectionTableSize P div 4) - 1 \<rparr>"
  note rp = rss_ok_parts [OF r]
  have size: "unat (p_IndirectionTableSize P) \<le> length (IndirectionTable ?S)" "p_IndirectionTableSize P div 4 \<noteq> 0"
    using len flag by (auto simp: rss_lengths_ok_def rp(4) word_le_nat_alt IsPowerOfTwo_def)
  have tl: "length table = length (IndirectionTable ?S)" using size(1) req flag by (auto simp: table_def request_fits_def min_def)
  have n4: "4 * n \<le> unat (p_IndirectionTableSize P)" by (simp add: n_def unat_div)
  have n0: "0 < n" using size(2) by (simp add: n_def unat_gt_0)
  have mask: "unat (RSSHashMask s0) = n - 1"
    using n0 by (simp add: s0_def n_def unat_sub word_le_nat_alt)
  have l: "n \<le> length (QueueIndirectionTable s0)" "4 * n \<le> length (IndirectionTable s0)"
    using n4 size(1) tl rp(5) by (auto simp: s0_def)
  have m0: "CPUIndexMapping s0 = Some (replicate (unat (ProcessorCount env)) PARANDIS_RECEIVE_NO_QUEUE)"
    "CPUIndexMappingSize s0 = ProcessorCount env" by (simp_all add: s0_def)
  have n: "unat (IndirectionTableSize s0 div 4) = n" by (simp add: s0_def n_def)
  obtain s1 where 1: "FillCPUMappingArray ndis env s0 (ReceiveQueuesNumber rss) = Some s1" "same_shape s0 s1" "mapping_ok ?N s1"
    "FirstQueueIndirectionIndex s1 \<noteq> - 1 \<longrightarrow>
      (\<forall>i<n. unat (QueueIndirectionTable s1 ! i) < ?N \<and> entry_valid ndis env (IndirectionTable s1) i)"
    "\<forall>i<n. entry_valid ndis env (IndirectionTable s0) i \<longrightarrow> FirstQueueIndirectionIndex s1 \<noteq> - 1"
    using FillCPUMappingArray_ok [OF p refl rp(1,2) m0, unfolded n, OF l] by blast
  have first: "FirstQueueIndirectionIndex s1 \<noteq> - 1"
  proof -
    obtain i where i: "i < n" "entry_valid ndis env (drop (unat (p_IndirectionTableOffset P)) (p_bytes P)) i"
      using req flag by (auto simp: request_fits_def n_def list_ex_iff)
    have "4 * i + 4 \<le> unat (p_IndirectionTableSize P)" using i(1) n4 by linarith
    then have "proc_at table i = proc_at (drop (unat (p_IndirectionTableOffset P)) (p_bytes P)) i"
      unfolding table_def using req flag by (intro proc_at_prefix) (auto simp: request_fits_def)
    then have "entry_valid ndis env table i" using i(2) by (simp add: entry_valid_def)
    then show ?thesis using 1(5) i(1) by (simp add: s0_def)
  qed
  obtain pr q where 2: "SetDefaultQueue env s1 (default_cpu_index ndis env P) =
      Some (s1\<lparr> DefaultProcessor := pr, DefaultQueue := q \<rparr>)" "q = - 1 \<or> queue_below ?N q"
    using SetDefaultQueue_ok [OF 1(3)] by blast
  let ?s = "s1\<lparr> DefaultProcessor := pr, DefaultQueue := q \<rparr>"
  have mv: "move_memory (IndirectionTable ?S) (p_bytes P) (unat (p_IndirectionTableOffset P))
    (unat (p_IndirectionTableSize P)) = Some table"
    using req flag size(1) by (simp add: table_def request_fits_def move_memory_ok)
  have "set_table ndis env P rss = Some (Some (rss\<lparr> RSSScalingSettings := ?s \<rparr>))"
    using flag alloc 1(1) 2(1)
    by (simp add: set_table_def AllocateCPUMappingArray_def mv s0_def [symmetric])
  moreover have sh: "length (IndirectionTable s1) = length table" "length (QueueIndirectionTable s1) = length (QueueIndirectionTable ?S)"
    "unat (RSSHashMask s1) = n - 1" "IndirectionTableSize s1 = p_IndirectionTableSize P"
    using 1(2) mask by (simp_all add: same_shape_def s0_def)
  moreover have "scaling_ok ?N (s1\<lparr> DefaultProcessor := pr, DefaultQueue := q \<rparr>)"
  proof -
    have "n - 1 < length (QueueIndirectionTable s1)" using sh(2) l(1) n0 by (simp add: s0_def)
    moreover have "\<forall>i\<le>n - 1. i < n" using n0 by auto
    moreover have "n \<le> length (QueueIndirectionTable s1)" using sh(2) l(1) by (simp add: s0_def)
    ultimately show ?thesis
      using 1(3,4) 2(2) sh tl rp(5) by (simp add: scaling_ok_def mapping_ok_def n_def [symmetric] split: option.splits)
  qed
  ultimately show ?thesis
    using 1(4) first tl rp(4,5) by (intro exI [of _ ?s]) (simp add: new_table_def n_def [symmetric])
qed

subsection \<open>Publishing the settings\<close>

lemma request_fitsI:
  assumes "request_ok ndis env ctx P len" "rss_lengths_ok ndis P len"
  shows "request_fits ndis env P"
proof -
  have u: "unat (o' + ucast s :: u32) = unat o' + unat s" if "unat o' + unat s < 2 ^ 32" for o' :: u32 and s :: u16
    using that by (subst unat_plus_small) simp_all
  show ?thesis using assms
    by (auto simp: request_fits_def request_ok_def rss_lengths_ok_def word_le_nat_alt u split: if_splits)
qed

lemma requeue_exact:
  "\<forall>b\<in>set bs. fst b < length un \<Longrightarrow>
    requeue bs un = Some (map (\<lambda>i. un ! i @ filter (\<lambda>b. fst b = i) bs) [0..<length un])"
proof (induction bs arbitrary: un)
  case Nil
  show ?case by (simp add: map_nth)
next
  case (Cons b bs)
  have "requeue bs (un[fst b := un ! fst b @ [b]]) =
    Some (map (\<lambda>i. un[fst b := un ! fst b @ [b]] ! i @ filter (\<lambda>b. fst b = i) bs) [0..<length un])"
    using Cons.IH [of "un[fst b := un ! fst b @ [b]]"] Cons.prems by simp
  then show ?case using Cons.prems by (auto simp: nth_list_update)
qed

lemma reset_exact:
  "buffers_ok ctx \<Longrightarrow> ParaNdis_ResetRxClassification ctx =
    Some (ctx\<lparr> ReceiveQueues := map (\<lambda>_. []) (ReceiveQueues ctx),
      UnclassifiedQueues := map (\<lambda>i. UnclassifiedQueues ctx ! i @
        filter (\<lambda>b. fst b = i) (concat (ReceiveQueues ctx))) [0..<length (UnclassifiedQueues ctx)] \<rparr>)"
  unfolding buffers_ok_def ParaNdis_ResetRxClassification_def by (simp only: requeue_exact) simp

lemma mset_concat_append:
  "k < length un \<Longrightarrow> mset (concat (un[k := un ! k @ [b]])) = add_mset b (mset (concat un))"
proof (induction un arbitrary: k)
  case Nil
  then show ?case by simp
next
  case (Cons x un)
  then show ?case by (cases k) simp_all
qed

lemma requeue_mset: "requeue bs un = Some un' \<Longrightarrow> mset (concat un') = mset (concat un) + mset bs"
  by (induction bs un rule: requeue.induct) (auto simp: mset_concat_append split: if_splits)

lemma index_bundles_length: "index_bundles ndis env bs t = Some t' \<Longrightarrow> length t' = length t"
  by (induction ndis env bs t rule: index_bundles.induct) (auto simp: Let_def split: if_splits)

lemma fill_queue_map_ok:
  assumes "procs_ok ndis env" "length t = unat (ProcessorCount env)"
  shows "\<forall>i\<in>set is. entry_valid ndis env table i \<and> i < length qmap \<Longrightarrow>
    \<exists>m. fill_queue_map env table t is qmap = Some m \<and> length m = length qmap"
proof (induction "is" arbitrary: qmap)
  case Nil
  show ?case by simp
next
  case (Cons i "is")
  obtain p where p: "proc_at table i = Some p" "KeGetProcessorIndexFromNumber env p \<noteq> INVALID_PROCESSOR_INDEX ndis"
    using Cons.prems by (auto simp: entry_valid_def split: option.splits)
  then have "unat (KeGetProcessorIndexFromNumber env p) < length t"
    using assms by (auto simp: procs_ok_def word_less_nat_alt)
  then obtain b where "rd t (KeGetProcessorIndexFromNumber env p) = Some b" by simp
  then show ?case using p(1) Cons.prems Cons.IH [of "qmap[i := unat b]"] by simp
qed

lemma setup_map_ok:
  assumes "procs_ok ndis env" "alloc_queue_map env" "map_ok ctx"
    "table_valid ndis env (RSSScalingSettings (RSSParameters ctx))"
  shows "\<exists>st l m. ParaNdis_SetupRSSQueueMap ndis env ctx = Some (st, ctx\<lparr> RSS2QueueLength := l, RSS2QueueMap := m \<rparr>) \<and>
    map_ok (ctx\<lparr> RSS2QueueLength := l, RSS2QueueMap := m \<rparr>)"
proof -
  let ?s = "RSSScalingSettings (RSSParameters ctx)"
  define n where "n = IndirectionTableSize ?s div 4"
  define ctx1 where "ctx1 = (if RSS2QueueLength ctx \<noteq> 0 \<and> RSS2QueueLength ctx < n then ctx\<lparr> RSS2QueueLength := 0 \<rparr> else ctx)"
  define ctx2 where "ctx2 = (if RSS2QueueLength ctx1 = 0
    then ctx1\<lparr> RSS2QueueLength := n, RSS2QueueMap := Some (replicate (unat n) 0) \<rparr> else ctx1)"
  obtain l m where c2: "ctx2 = ctx\<lparr> RSS2QueueLength := l, RSS2QueueMap := Some m \<rparr>" "length m = unat l" "n \<le> l"
  proof (cases "RSS2QueueLength ctx1 = 0")
    case True
    then show thesis using that [of "replicate (unat n) 0" n] by (auto simp: ctx2_def ctx1_def)
  next
    case False
    then have c1: "ctx1 = ctx" "RSS2QueueLength ctx \<noteq> 0" "n \<le> RSS2QueueLength ctx"
      by (auto simp: ctx1_def not_less split: if_splits)
    obtain m where m: "RSS2QueueMap ctx = Some m" "length m = unat (RSS2QueueLength ctx)"
      using assms(3) c1(2) by (auto simp: map_ok_def)
    then show thesis using that [of m "RSS2QueueLength ctx"] c1 by (simp add: ctx2_def)
  qed
  define q0 where "q0 = replicate (unat n) 0 @ drop (unat n) m"
  have q0: "length q0 = length m" using c2(2,3) by (simp add: q0_def word_le_nat_alt)
  show ?thesis
  proof (cases "alloc_cpu_index_table env \<and>
      index_bundles ndis env (enumerate 0 (PathBundles ctx)) (replicate (unat (ProcessorCount env)) 0) \<noteq> None")
    case False
    have "ctx = ctx\<lparr> RSS2QueueLength := RSS2QueueLength ctx, RSS2QueueMap := RSS2QueueMap ctx \<rparr>" by simp
    moreover have "\<exists>st. ParaNdis_SetupRSSQueueMap ndis env ctx = Some (st, ctx)"
      using False by (auto simp: ParaNdis_SetupRSSQueueMap_def Let_def)
    ultimately show ?thesis using assms(3) by metis
  next
    case True
    then obtain t where t: "index_bundles ndis env (enumerate 0 (PathBundles ctx)) (replicate (unat (ProcessorCount env)) 0) = Some t"
      by blast
    have "\<forall>i\<in>set [0..<unat n]. entry_valid ndis env (IndirectionTable ?s) i \<and> i < length q0"
      using assms(4) q0 c2(2,3) by (auto simp: table_valid_def n_def word_le_nat_alt)
    from fill_queue_map_ok [OF assms(1) _ this] index_bundles_length [OF t]
    obtain q where q: "fill_queue_map env (IndirectionTable ?s) t [0..<unat n] q0 = Some q" "length q = length q0" by auto
    have m2: "RSS2QueueMap ctx2 = Some m" "\<not> length m < unat n" using c2 by (simp_all add: word_le_nat_alt)
    have "ParaNdis_SetupRSSQueueMap ndis env ctx = (
      if RSS2QueueLength ctx1 = 0 \<and> RSS2QueueMap ctx2 = None then Some (NDIS_STATUS_RESOURCES, ctx2)
      else do {
        qmap \<leftarrow> (if n = 0 then Some [] else RSS2QueueMap ctx2);
        qmap \<leftarrow> (if length qmap < unat n then None else Some (replicate (unat n) 0 @ drop (unat n) qmap));
        qmap \<leftarrow> fill_queue_map env (IndirectionTable ?s) t [0..<unat n] qmap;
        Some (NDIS_STATUS_SUCCESS, if n = 0 then ctx2 else ctx2\<lparr> RSS2QueueMap := Some qmap \<rparr>) })"
      using True t assms(2)
      unfolding ParaNdis_SetupRSSQueueMap_def Let_def ctx2_def ctx1_def n_def
      by (simp only: simp_thms if_True if_False option.case)
    then have "ParaNdis_SetupRSSQueueMap ndis env ctx =
      Some (NDIS_STATUS_SUCCESS, if n = 0 then ctx2 else ctx2\<lparr> RSS2QueueMap := Some q \<rparr>)"
      using m2 q(1) by (cases "n = 0") (simp_all add: q0_def)
    moreover have "map_ok ctx2" "map_ok (ctx2\<lparr> RSS2QueueMap := Some q \<rparr>)"
      using c2 q(2) q0 by (simp_all add: map_ok_def)
    ultimately show ?thesis unfolding c2(1) by (cases "n = 0") auto
  qed
qed

lemma put8_in: "i < length buf \<Longrightarrow> put8 buf i b = Some (buf[i := b])"
  by (simp add: put8_def)

lemma put_key_ok:
  "\<forall>i\<in>set is. i < length key \<and> at + i < length cfg \<Longrightarrow>
    \<exists>cfg'. put_key is key at cfg = Some cfg' \<and> length cfg' = length cfg"
proof (induction "is" arbitrary: cfg)
  case Nil
  show ?case by simp
next
  case (Cons i "is")
  then show ?case using Cons.IH [of "cfg[at + i := key ! i]"] by (simp add: put8_in)
qed

lemma resolve_table_ok:
  "\<forall>i\<in>set is. 4 * i + 4 \<le> length table \<and> 8 + 2 * i + 1 < length cfg \<Longrightarrow>
    \<exists>f cfg'. resolve_table bundles table is fb cfg = Some (f, cfg') \<and> length cfg' = length cfg"
proof (induction "is" arbitrary: fb cfg)
  case Nil
  show ?case by simp
next
  case (Cons i "is")
  obtain p where p: "proc_at table i = Some p" using proc_at_in [of i table] Cons.prems by auto
  obtain q fb' where r: "ResolveQueue bundles p fb = (q, fb')" by fastforce
  have "put16 cfg (8 + 2 * i) q = Some (set16 cfg (8 + 2 * i) q)" using Cons.prems by (intro put16_in) simp
  then show ?case using Cons.IH [of "set16 cfg (8 + 2 * i) q" fb'] Cons.prems p r by simp
qed

lemma put32_in: "i + 3 < length buf \<Longrightarrow> \<exists>b. put32 buf i w = Some b \<and> length b = length buf"
  by (simp add: put32_def)

lemma fill_rss_config_ok:
  assumes "length cfg = 15 + 2 * unat tlen + unat klen" "tlen \<noteq> 0"
    "4 * unat tlen \<le> length (IndirectionTable (ActiveRSSScalingSettings (RSSParameters ctx)))"
    "unat klen \<le> length (HashSecretKey (ActiveHashingSettings (RSSParameters ctx)))"
  shows "\<exists>cfg'. fill_rss_config ndis ctx tlen klen cfg = Some cfg' \<and> length cfg' = length cfg"
proof -
  let ?s = "ActiveRSSScalingSettings (RSSParameters ctx)" and ?hs = "ActiveHashingSettings (RSSParameters ctx)"
  define tx where "tx = 8 + 2 * (unat (tlen - 1) + 1)"
  have "1 \<le> unat tlen" using assms(2) by (simp add: Suc_leI unat_gt_0)
  then have tx: "tx = 8 + 2 * unat tlen" by (simp add: tx_def unat_sub word_le_nat_alt)
  obtain q fb where q: "ResolveQueue (PathBundles ctx) (DefaultProcessor ?s) 0 = (q, fb)" by fastforce
  define c1 where "c1 = set16 (set16 cfg 4 (tlen - 1)) 6 q"
  have "\<forall>i\<in>set [0..<unat tlen]. 4 * i + 4 \<le> length (IndirectionTable ?s) \<and> 8 + 2 * i + 1 < length c1"
    using assms(1,3) by (auto simp: c1_def)
  from resolve_table_ok [OF this, of "PathBundles ctx" fb]
  obtain f c2 where c2: "resolve_table (PathBundles ctx) (IndirectionTable ?s) [0..<unat tlen] fb c1 = Some (f, c2)"
    "length c2 = length cfg" by (auto simp: c1_def)
  define c3 where "c3 = (set16 c2 tx (of_nat (length (PathBundles ctx))))[tx + 2 := klen]"
  have "\<forall>i\<in>set [0..<unat klen]. i < length (HashSecretKey ?hs) \<and> tx + 3 + i < length c3"
    using assms(1,4) c2(2) by (auto simp: c3_def tx)
  from put_key_ok [OF this]
  obtain c4 where c4: "put_key [0..<unat klen] (HashSecretKey ?hs) (tx + 3) c3 = Some c4" "length c4 = length cfg"
    using c2(2) by (auto simp: c3_def)
  have p: "put16 cfg 4 (tlen - 1) = Some (set16 cfg 4 (tlen - 1))" "put16 (set16 cfg 4 (tlen - 1)) 6 q = Some c1"
    "put16 c2 tx (of_nat (length (PathBundles ctx))) = Some (set16 c2 tx (of_nat (length (PathBundles ctx))))"
    "put8 (set16 c2 tx (of_nat (length (PathBundles ctx)))) (tx + 2) klen = Some c3"
    using assms(1) c2(2) by (simp_all add: c1_def c3_def tx put8_in)
  have "fill_rss_config ndis ctx tlen klen cfg = put32 c4 0 (TranslateHashTypes ndis (HashInformation ?hs))"
    unfolding fill_rss_config_def Let_def tx_def [symmetric] q by (simp add: p c2(1) c4(1) del: add_2_eq_Suc')
  then show ?thesis using put32_in [of 0 c4] c4(2) assms(1) by simp
qed

lemma rss_config_size_ok: "unat (rss_config_size tlen klen) = 15 + 2 * unat tlen + unat klen"
proof -
  have "unat klen \<le> 255" "unat tlen \<le> 65535"
    using unsigned_less [of klen, where ?'a = nat] unsigned_less [of tlen, where ?'a = nat] by simp_all
  moreover have "unat (ucast klen :: u32) = unat klen" by (rule unat_ucast_8_32)
  ultimately show ?thesis unfolding rss_config_size_def by (simp add: unat_word_ariths)
qed

lemma unat_key_byte: "unat (ucast w :: u8) \<le> unat (w :: u16)"
  by (simp add: unsigned_ucast_eq take_bit_eq_mod)

lemma set_device_ok:
  assumes "rss_env_ok ndis env" "rss_ok ndis (RSSParameters ctx)"
    "RSSMode (RSSParameters ctx) \<noteq> PARANDIS_RSS_DISABLED \<longrightarrow>
      4 \<le> IndirectionTableSize (ActiveRSSScalingSettings (RSSParameters ctx))"
  shows "\<exists>msgs. SetDeviceRSSSettings ndis env ctx off = Some (ctx\<lparr> ControlMessages := msgs \<rparr>)"
proof -
  let ?a = "ActiveRSSScalingSettings (RSSParameters ctx)" and ?h = "ActiveHashingSettings (RSSParameters ctx)"
  define tlen where "tlen = (if \<not> bRSSSupportedByDevice ctx then 1 else IndirectionTableSize ?a div 4)"
  define klen where "klen = (ucast (HashSecretKeySize ?h) :: u8)"
  have same: "\<exists>msgs. Some ctx = Some (ctx\<lparr> ControlMessages := msgs \<rparr>)" by (rule exI [of _ "ControlMessages ctx"]) simp
  consider "\<not> bRSSSupportedByDevice ctx \<and> \<not> bHashReportedByDevice ctx"
    | "bRSSSupportedByDevice ctx \<or> bHashReportedByDevice ctx" "RSSMode (RSSParameters ctx) = PARANDIS_RSS_DISABLED \<or> off"
    | "bRSSSupportedByDevice ctx \<or> bHashReportedByDevice ctx" "\<not> (RSSMode (RSSParameters ctx) = PARANDIS_RSS_DISABLED \<or> off)"
    by blast
  then show ?thesis
  proof cases
    case 1 then show ?thesis using same by (simp add: SetDeviceRSSSettings_def)
  next
    case 2
    then show ?thesis by (auto simp: SetDeviceRSSSettings_def Let_def)
  next
    case 3
    then have "4 \<le> unat (IndirectionTableSize ?a)" using assms(3) by (auto simp: word_le_nat_alt)
    moreover have "length (IndirectionTable ?a) = 4 * length (QueueIndirectionTable ?a)"
      "unat (RSSHashMask ?a) < length (QueueIndirectionTable ?a)"
      "unat (IndirectionTableSize ?a div 4) \<le> length (QueueIndirectionTable ?a)"
      using rss_ok_parts(3) [OF assms(2)] by (auto simp: scaling_ok_def)
    ultimately have tlen: "tlen \<noteq> 0" "4 * unat tlen \<le> length (IndirectionTable ?a)"
      by (auto simp: tlen_def unat_div unat_gt_0 [symmetric] word_unat_eq_iff)
    have klen: "unat klen \<le> length (HashSecretKey ?h)"
      using rss_ok_parts(8) [OF assms(2)] unat_key_byte [of "HashSecretKeySize ?h"] by (simp add: key_ok_def klen_def)
    show ?thesis
    proof (cases "alloc_rss_config env (rss_config_size tlen klen)")
      case None
      then show ?thesis using 3 same by (simp add: SetDeviceRSSSettings_def Let_def tlen_def [symmetric] klen_def [symmetric])
    next
      case (Some cfg)
      then have "length cfg = 15 + 2 * unat tlen + unat klen" using assms(1) rss_config_size_ok by (auto simp: rss_env_ok_def)
      from fill_rss_config_ok [OF this tlen klen] obtain cfg' where "fill_rss_config ndis ctx tlen klen cfg = Some cfg'" by blast
      then show ?thesis using 3 Some by (auto simp: SetDeviceRSSSettings_def Let_def tlen_def [symmetric] klen_def [symmetric])
    qed
  qed
qed

lemma rss_publish_ok:
  assumes env: "rss_env_ok ndis env" and ok: "rss_adapter_ok ndis env ctx"
    and mode: "RSSMode (RSSParameters ctx) \<noteq> PARANDIS_RSS_DISABLED \<longrightarrow>
      4 \<le> IndirectionTableSize (ActiveRSSScalingSettings (RSSParameters ctx))"
  shows "\<exists>st ctx'. rss_publish ndis env ctx = Some (st, ctx') \<and> rss_adapter_ok ndis env ctx' \<and>
    RSSParameters ctx' = RSSParameters ctx \<and> concat (ReceiveQueues ctx') = []"
proof -
  obtain rq un where 1: "ParaNdis_ResetRxClassification ctx = Some (ctx\<lparr> ReceiveQueues := rq, UnclassifiedQueues := un \<rparr>)"
    "concat rq = []"
    using reset_exact [of ctx] ok by (auto simp: rss_adapter_ok_def)
  let ?c1 = "ctx\<lparr> ReceiveQueues := rq, UnclassifiedQueues := un \<rparr>"
  have "map_ok ?c1" "table_valid ndis env (RSSScalingSettings (RSSParameters ?c1))"
    using ok by (auto simp: rss_adapter_ok_def map_ok_def)
  with setup_map_ok [of ndis env ?c1] env
  obtain st l m where 2: "ParaNdis_SetupRSSQueueMap ndis env ?c1 = Some (st, ?c1\<lparr> RSS2QueueLength := l, RSS2QueueMap := m \<rparr>)"
    "map_ok (?c1\<lparr> RSS2QueueLength := l, RSS2QueueMap := m \<rparr>)" by (auto simp: rss_env_ok_def)
  let ?c2 = "?c1\<lparr> RSS2QueueLength := l, RSS2QueueMap := m \<rparr>"
  obtain msgs where 3: "SetDeviceRSSSettings ndis env ?c2 False = Some (?c2\<lparr> ControlMessages := msgs \<rparr>)"
    using set_device_ok [OF env, of ?c2] ok mode by (auto simp: rss_adapter_ok_def)
  let ?c3 = "if st = NDIS_STATUS_SUCCESS then (if bPollModeEnabled ctx
    then ?c2\<lparr> ControlMessages := msgs, PollAffinityUpdates := PollAffinityUpdates ctx + 1 \<rparr>
    else ?c2\<lparr> ControlMessages := msgs \<rparr>) else ?c2"
  have "rss_publish ndis env ctx = Some (st, ?c3)" by (simp add: rss_publish_def 1(1) 2(1) 3)
  moreover have "rss_adapter_ok ndis env ?c3" "RSSParameters ?c3 = RSSParameters ctx" "concat (ReceiveQueues ?c3) = []"
    using ok 1(2) 2(2) by (auto simp: rss_adapter_ok_def map_ok_def buffers_ok_def)
  ultimately show ?thesis by blast
qed

subsection \<open>The request\<close>

lemma set_hashing_ok:
  assumes "key_ok ndis hs" "request_fits ndis env P" "rss_lengths_ok ndis P len"
  shows "\<exists>hs'. set_hashing ndis P hs = Some hs' \<and> key_ok ndis hs'"
proof (cases "flag P (FLAG_HASH_KEY_UNCHANGED ndis)")
  case True
  then show ?thesis using assms(1) by (auto simp: set_hashing_def key_ok_def Let_def)
next
  case False
  have "unat (p_HashSecretKeySize P) \<le> unat (SECRET_KEY_MAX_SIZE ndis)"
    using assms(3) False by (auto simp: rss_lengths_ok_def word_le_nat_alt)
  moreover have "unat (p_HashSecretKeyOffset P) + unat (p_HashSecretKeySize P) \<le> length (p_bytes P)"
    using assms(2) False by (simp add: request_fits_def)
  ultimately show ?thesis
    using assms(1) False by (auto simp: set_hashing_def key_ok_def Let_def move_memory_ok min_def)
qed

lemma set_table_ok:
  assumes env: "procs_ok ndis env" and ok: "rss_ok ndis rss" "table_valid ndis env (RSSScalingSettings rss)"
    and req: "request_fits ndis env P" "rss_lengths_ok ndis P len"
    and old: "flag P (FLAG_ITABLE_UNCHANGED ndis) \<longrightarrow> 4 \<le> IndirectionTableSize (ActiveRSSScalingSettings rss)"
    and hs: "key_ok ndis hs"
    and h: "h = None \<or> h = Some hs"
  shows "set_table ndis env P rss = Some None \<or>
    (\<exists>rss1. set_table ndis env P rss = Some (Some rss1) \<and> RSSHashingSettings rss1 = RSSHashingSettings rss \<and>
      (let rss2 = ApplySettings (rss1\<lparr> RSSHashingSettings := hs \<rparr>) PARANDIS_RSS_FULL h
         (if \<not> flag P (FLAG_ITABLE_UNCHANGED ndis) then Some (RSSScalingSettings rss1) else None)
       in rss_ok ndis rss2 \<and> table_valid ndis env (RSSScalingSettings rss2) \<and>
         4 \<le> IndirectionTableSize (ActiveRSSScalingSettings rss2)))"
proof (cases "flag P (FLAG_ITABLE_UNCHANGED ndis)")
  case True
  have m: "mapping_ok (unat (ReceiveQueuesNumber rss)) (ActiveRSSScalingSettings rss)"
    using rss_ok_parts(3) [OF ok(1)] by (simp add: scaling_ok_def)
  obtain p q where d: "SetDefaultQueue env (ActiveRSSScalingSettings rss) (default_cpu_index ndis env P) =
      Some ((ActiveRSSScalingSettings rss)\<lparr> DefaultProcessor := p, DefaultQueue := q \<rparr>)"
    "q = - 1 \<or> queue_below (unat (ReceiveQueuesNumber rss)) q" using SetDefaultQueue_ok [OF m] by blast
  note sc = scaling_ok_default [OF rss_ok_parts(3) [OF ok(1)] d(2), of p]
  show ?thesis
    using True d(1) old ok hs h sc rss_ok_parts [OF ok(1)]
    by (auto simp: set_table_def ApplySettings_def rss_ok_def Let_def)
next
  case False
  show ?thesis
  proof (cases "alloc_cpu_mapping env")
    case no: False
    then show ?thesis using False by (simp add: set_table_def AllocateCPUMappingArray_def)
  next
    case True
    obtain s where s: "set_table ndis env P rss = Some (Some (rss\<lparr> RSSScalingSettings := s \<rparr>))"
      "new_table ndis env P (unat (ReceiveQueuesNumber rss)) s"
      "length (IndirectionTable s) = unat (INDIRECTION_TABLE_MAX_SIZE ndis)"
      "length (IndirectionTable s) = 4 * length (QueueIndirectionTable s)"
      using set_new_table [OF env ok(1) req(1) False req(2) True] by blast
    have "unat (p_IndirectionTableSize P) \<le> unat (INDIRECTION_TABLE_MAX_SIZE ndis)" "p_IndirectionTableSize P div 4 \<noteq> 0"
      using req(2) False by (auto simp: rss_lengths_ok_def word_le_nat_alt IsPowerOfTwo_def)
    moreover have "4 \<le> p_IndirectionTableSize P" if "p_IndirectionTableSize P div 4 \<noteq> 0"
      using that by (auto simp: word_le_nat_alt word_unat_eq_iff unat_div not_less)
    ultimately show ?thesis
      using False s hs h rss_ok_parts [OF ok(1)]
      by (auto simp: ApplySettings_def rss_ok_def table_valid_def new_table_def Let_def)
  qed
qed

lemma set_parameters_on:
  assumes env: "rss_env_ok ndis env" and ok: "rss_adapter_ok ndis env ctx" and req: "request_ok ndis env ctx P len"
    and on: "rss_checks ndis ctx P len" "\<not> (flag P (FLAG_DISABLE_RSS ndis) \<or> p_HashInformation P = 0)"
      "rss_lengths_ok ndis P len"
  shows "\<exists>st n ctx'. ParaNdis6_RSSSetParameters ndis env ctx P len = Some (st, n, ctx') \<and> rss_adapter_ok ndis env ctx'"
proof -
  let ?rss = "RSSParameters ctx" and ?it = "flag P (FLAG_ITABLE_UNCHANGED ndis)"
  have p: "procs_ok ndis env" and r: "rss_ok ndis ?rss" "table_valid ndis env (RSSScalingSettings ?rss)"
    using env ok by (simp_all add: rss_env_ok_def rss_adapter_ok_def)
  note fits = request_fitsI [OF req on(3)]
  have old: "?it \<longrightarrow> 4 \<le> IndirectionTableSize (ActiveRSSScalingSettings ?rss)" using req by (simp add: request_ok_def)
  obtain hs where hs: "set_hashing ndis P (RSSHashingSettings ?rss) = Some hs" "key_ok ndis hs"
    using set_hashing_ok [OF rss_ok_parts(7) [OF r(1)] fits on(3)] by blast
  define h where "h = (if \<not> flag P (FLAG_HASH_INFO_UNCHANGED ndis) \<or> \<not> flag P (FLAG_HASH_KEY_UNCHANGED ndis) then Some hs else None)"
  have "h = None \<or> h = Some hs" by (simp add: h_def)
  from set_table_ok [OF p r fits on(3) old hs(2) this] show ?thesis
  proof (elim disjE exE conjE)
    assume "set_table ndis env P ?rss = Some None"
    then show ?thesis using on ok by (auto simp: ParaNdis6_RSSSetParameters_def rss_checks_def Let_def)
  next
    fix rss1 assume 1: "set_table ndis env P ?rss = Some (Some rss1)" "RSSHashingSettings rss1 = RSSHashingSettings ?rss"
    define rss2 where "rss2 = ApplySettings (rss1\<lparr> RSSHashingSettings := hs \<rparr>) PARANDIS_RSS_FULL h
      (if \<not> ?it then Some (RSSScalingSettings rss1) else None)"
    assume "let rss2 = ApplySettings (rss1\<lparr> RSSHashingSettings := hs \<rparr>) PARANDIS_RSS_FULL h
      (if \<not> ?it then Some (RSSScalingSettings rss1) else None)
     in rss_ok ndis rss2 \<and> table_valid ndis env (RSSScalingSettings rss2) \<and>
       4 \<le> IndirectionTableSize (ActiveRSSScalingSettings rss2)"
    then have 2: "rss_ok ndis rss2" "table_valid ndis env (RSSScalingSettings rss2)"
      "4 \<le> IndirectionTableSize (ActiveRSSScalingSettings rss2)" by (simp_all only: rss2_def Let_def)
    have "rss_adapter_ok ndis env (ctx\<lparr> RSSParameters := rss2 \<rparr>)"
      using ok 2 by (simp add: rss_adapter_ok_def map_ok_def buffers_ok_def)
    with rss_publish_ok [OF env, of "ctx\<lparr> RSSParameters := rss2 \<rparr>"] 2(3) obtain st ctx' where
      "rss_publish ndis env (ctx\<lparr> RSSParameters := rss2 \<rparr>) = Some (st, ctx')" "rss_adapter_ok ndis env ctx'" by auto
    moreover have "ParaNdis6_RSSSetParameters ndis env ctx P len = do {
        (status, ctx) \<leftarrow> rss_publish ndis env (ctx\<lparr> RSSParameters := rss2 \<rparr>);
        Some (status, if CheckNdisVersion_6_80 ndis then len
          else rss_request_length ndis P + MinimalRssParametersLength ndis (p_Revision P), ctx) }"
      using on 1 hs(1) unfolding ParaNdis6_RSSSetParameters_def rss2_def h_def Let_def rss_checks_def by auto
    ultimately show ?thesis by simp
  qed
qed

lemma set_parameters_ok:
  assumes env: "rss_env_ok ndis env" and ok: "rss_adapter_ok ndis env ctx" and req: "request_ok ndis env ctx P len"
  shows "\<exists>st n ctx'. ParaNdis6_RSSSetParameters ndis env ctx P len = Some (st, n, ctx') \<and> rss_adapter_ok ndis env ctx'"
proof -
  let ?rss = "RSSParameters ctx"
  let ?refused = "\<exists>st n. ParaNdis6_RSSSetParameters ndis env ctx P len = Some (st, n, ctx)"
  let ?checks = "rss_checks ndis ctx P len"
  consider (refused) "\<not> ?checks" | (off) ?checks "flag P (FLAG_DISABLE_RSS ndis) \<or> p_HashInformation P = 0"
    | (lengths) ?checks "\<not> (flag P (FLAG_DISABLE_RSS ndis) \<or> p_HashInformation P = 0)" "\<not> rss_lengths_ok ndis P len"
    | (on) ?checks "\<not> (flag P (FLAG_DISABLE_RSS ndis) \<or> p_HashInformation P = 0)" "rss_lengths_ok ndis P len" by blast
  then show ?thesis
  proof cases
    case refused
    then have ?refused by (auto simp: ParaNdis6_RSSSetParameters_def rss_checks_def Let_def)
    then show ?thesis using ok by blast
  next
    case off
    let ?c = "ctx\<lparr> RSSParameters := ApplySettings ?rss PARANDIS_RSS_DISABLED None None \<rparr>"
    have "rss_adapter_ok ndis env ?c" "RSSMode (RSSParameters ?c) = PARANDIS_RSS_DISABLED"
      using ok by (auto simp: rss_adapter_ok_def ApplySettings_def rss_ok_def map_ok_def buffers_ok_def Let_def)
    with rss_publish_ok [OF env, of ?c] obtain st ctx' where
      "rss_publish ndis env ?c = Some (st, ctx')" "rss_adapter_ok ndis env ctx'" by auto
    then show ?thesis using off by (auto simp: ParaNdis6_RSSSetParameters_def rss_checks_def Let_def)
  next
    case lengths
    then have ?refused by (simp add: ParaNdis6_RSSSetParameters_def rss_checks_def Let_def)
    then show ?thesis using ok by blast
  next
    case on
    then show ?thesis using set_parameters_on [OF env ok req] by blast
  qed
qed

end
