(* ===== verification/NetProperties.thy ===== *)
theory NetProperties
  imports NetPacketProofs NetRssTables
begin

text \<open>
  The properties of the network driver's packet code: the Internet checksum on flat and on
  paged buffers, the verification and the repair of checksums, the parser of IP headers, and
  the receive side scaling.
\<close>

unbundle bit_operations_syntax

subsection \<open>Concrete inputs\<close>


definition demo_pages :: "data_page list" where
  "demo_pages = [\<lparr>page_virtual = [0x45, 0, 0, 32], page_size = 4\<rparr>,
     \<lparr>page_virtual = [1, 2, 3, 4, 5], page_size = 3\<rparr>]"

text \<open>An IPv6 packet with 32 extension headers of 2048 bytes.\<close>

definition demo_cycle :: bytes where
  "demo_cycle = map (\<lambda>i. if i = 0 then 0x60 else if i mod 2048 = 41 then 255 else 0) [0..<63536]"

text \<open>The key of the published test vectors of the hash, and an Ethernet header.\<close>

definition demo_key :: bytes where
  "demo_key = [0x6D, 0x5A, 0x56, 0xDA, 0x25, 0x5B, 0x0E, 0xC2, 0x41, 0x67, 0x25, 0x3D, 0x43, 0xA3, 0x8F, 0xB0,
     0xD0, 0xCA, 0x2B, 0xCB, 0xAE, 0x7B, 0x30, 0xB4, 0x77, 0xCB, 0x2D, 0xA3, 0x80, 0x30, 0xF2, 0x0C,
     0x6A, 0x42, 0xB7, 0x3B, 0xBE, 0xAC, 0x01, 0xFA]"

definition demo_eth :: eth_macros where
  "demo_eth = \<lparr> ETH_IS_BROADCAST = (\<lambda>a. a = replicate 6 0xFF), ETH_IS_MULTICAST = (\<lambda>a. hd a AND 1 = 1) \<rparr>"

text \<open>Two processors, two queues; the values of the NDIS headers.\<close>

definition demo_ndis :: ndis_rss where
  "demo_ndis = \<lparr> NDIS_HASH_IPV4 = 0x100, NDIS_HASH_TCP_IPV4 = 0x200, NDIS_HASH_UDP_IPV4 = 0x4000,
     NDIS_HASH_IPV6 = 0x400, NDIS_HASH_IPV6_EX = 0x800, NDIS_HASH_TCP_IPV6 = 0x1000,
     NDIS_HASH_TCP_IPV6_EX = 0x2000, NDIS_HASH_UDP_IPV6 = 0x8000, NDIS_HASH_UDP_IPV6_EX = 0x10000,
     NdisHashFunctionToeplitz = 1, HASH_TYPE_FROM_HASH_INFO = (\<lambda>i. i AND 0xFFFFFF00),
     HASH_FUNC_FROM_HASH_INFO = (\<lambda>i. i AND 0xFF), FLAG_HASH_INFO_UNCHANGED = 2, FLAG_HASH_KEY_UNCHANGED = 8,
     FLAG_ITABLE_UNCHANGED = 4, FLAG_DISABLE_RSS = 16, FLAG_DEFAULT_PROCESSOR_UNCHANGED = 32,
     HASH_FLAG_ENABLE_HASH = 1, HASH_FLAG_HASH_INFO_UNCHANGED = 2, HASH_FLAG_HASH_KEY_UNCHANGED = 4,
     PARAMETERS_REVISION_2 = 2, PARAMETERS_REVISION_3 = 3, sizeof_header = 4, sizeof_params_rev2 = 40,
     sizeof_params_rev3 = 44, sizeof_params = 44, sizeof_hash_params = 20, SECRET_KEY_MAX_SIZE = 40,
     INDIRECTION_TABLE_MAX_SIZE = 512, INVALID_PROCESSOR_INDEX = 0xFFFFFFFF, CheckNdisVersion_6_80 = True \<rparr>"


definition demo_scaling :: scaling_settings where
  "demo_scaling = \<lparr> IndirectionTable = replicate 512 0, IndirectionTableSize = 0,
     QueueIndirectionTable = replicate 128 0, RSSHashMask = 0, CPUIndexMapping = None, CPUIndexMappingSize = 0,
     FirstQueueIndirectionIndex = 0, DefaultProcessor = \<lparr> Group = 0, Number = 0, Reserved = 0 \<rparr>, DefaultQueue = - 1 \<rparr>"

definition demo_hashing :: hashing_settings where
  "demo_hashing = \<lparr> HashInformation = 0, HashSecretKey = replicate 40 0, HashSecretKeySize = 0 \<rparr>"

definition demo_rss :: rss_params where
  "demo_rss = \<lparr> ReceiveQueuesNumber = 2, RSSMode = PARANDIS_RSS_DISABLED, ReceiveHashingSettings = demo_hashing,
     RSSHashingSettings = demo_hashing, RSSScalingSettings = demo_scaling, ActiveHashingSettings = demo_hashing,
     ActiveRSSScalingSettings = demo_scaling \<rparr>"

definition demo_adapter :: rss_adapter where
  "demo_adapter = \<lparr> RSSParameters = demo_rss,
     PathBundles = [\<lparr> aff_Group = 0, aff_Mask = 1 \<rparr>, \<lparr> aff_Group = 0, aff_Mask = 2 \<rparr>],
     bRSSSupportedByDevice = True, bRSSSupportedByDevicePersistent = True, bHashReportedByDevice = False,
     bPollModeEnabled = False, RSS2QueueLength = 0, RSS2QueueMap = None,
     ReceiveQueues = [[(1, 7), (0, 8)], [(1, 9)]], UnclassifiedQueues = [[(0, 1)], []],
     ControlMessages = [], PollAffinityUpdates = 0 \<rparr>"


subsection \<open>The Internet checksum\<close>

text \<open>
  C32: the checksum of the driver is the Internet checksum: over a packet in one buffer and over
  a packet in pages of which only the last may have an odd size (starting at an even offset), the
  unrolled 32-bit summation with late folding gives the complement of the one's complement sum
  of the 16-bit words of RFC 1071, a last odd byte padded with zero, and no byte outside the pages
  is read. The byte-wise variant of the summation for ARM64 gives the same checksum.
\<close>

theorem checksum_is_rfc1071:
  assumes "pages_ok pages" "even (unat start)" "unat start + unat len \<le> length (packet_data pages)"
    "unat n \<le> length buf"
  shows "CheckSumCalculator pages start len =
      Some (rfc1071 (take (unat len) (drop (unat start) (packet_data pages)))) \<and>
    CheckSumCalculatorFlat buf n = Some (rfc1071 (take (unat n) buf)) \<and>
    map_option RawCheckSumFinalize (RawCheckSumCalculator_arm64 buf n) = CheckSumCalculatorFlat buf n"
  using assms CheckSumCalculator_rfc1071 CheckSumCalculatorFlat_rfc1071 arm64_finalize_rfc1071
  by simp

theorem checksum_is_rfc1071_witness:
  "CheckSumCalculator demo_pages 2 5 = Some (rfc1071 [0, 32, 1, 2, 3]) \<and>
   CheckSumCalculatorFlat [1, 2, 3, 4, 5] 5 = Some (rfc1071 [1, 2, 3, 4, 5])"
proof -
  have p: "pages_ok demo_pages" by (simp add: pages_ok_def demo_pages_def)
  have "packet_data demo_pages = [0x45, 0, 0, 32, 1, 2, 3]"
    by (simp add: demo_pages_def page_data_def)
  then show ?thesis
    using checksum_is_rfc1071 [OF p, of 2 5 5 "[1, 2, 3, 4, 5]"] by simp
qed

subsection \<open>Fixing and verifying\<close>





text \<open>
  C35: the parser of the IPv6 header chain does not end on every packet. The total length of the
  extension headers is kept in 16 bits; in a packet of at least 63536 bytes, 32 extension headers of
  2048 bytes bring it back to its first value, so after any number of iterations the loop is still
  at one of these headers and \<open>QualifyIpPacket\<close> does not return.
\<close>

theorem extension_headers_never_end:
  assumes "ext_cycle ip" "63536 \<le> unat len" "unat len \<le> length ip"
    "drop_bit 4 (ip ! 0 AND 0xF0) = 6" "get8 ip 6 = Some 0" "get16 ip 4 = Some pl"
    "ucast (swap_short pl + 40) \<le> len"
  shows "ext_steps n ip len full (0, 40, res) = Some (Inl (0, of_nat (40 + 2048 * (n mod 32)), res)) \<and>
    QualifyIpPacket ip len verifyLength = None"
proof
  have c: "cycle_at 0 = 40" by (simp add: cycle_at_def)
  show "ext_steps n ip len full (0, 40, res) = Some (Inl (0, of_nat (40 + 2048 * (n mod 32)), res))"
    using ext_cycle_steps [OF assms(1-3), of 0] unfolding c by (simp add: cycle_at_def)
  have l: "\<not> len < 4" "\<not> len < 40" using assms(2) by (simp_all add: word_less_nat_alt)
  have g: "get8 ip 0 = Some (ip ! 0)" using assms(2,3) by (intro get8_in) linarith
  have "qualify_ext_loop ip len (swap_short pl + 40) (0, 40, res) = None" for res
    using ext_cycle_diverges [OF assms(1-3), of 0] unfolding c by simp
  then have "qualify_ip6 ip len verifyLength = None"
    unfolding qualify_ip6_def using l assms(5-7) by (simp add: not_less Let_def del: get16_in get8_in)
  then show "QualifyIpPacket ip len verifyLength = None"
    unfolding QualifyIpPacket_def using l g assms(4) by (simp add: Let_def del: get8_in)
qed

theorem extension_headers_never_end_witness:
  "ext_steps 1000000 demo_cycle 63536 0 (0, 40, zero_result) = Some (Inl (0, 40, zero_result)) \<and>
   QualifyIpPacket demo_cycle 63536 True = None"
proof -
  have n: "demo_cycle ! i = (if i = 0 then 0x60 else if i mod 2048 = 41 then 255 else 0)" if "i < 63536" for i
    using that by (simp add: demo_cycle_def)
  have l: "length demo_cycle = 63536" by (simp add: demo_cycle_def)
  have b: "demo_cycle ! (40 + 2048 * k) = 0 \<and> demo_cycle ! (41 + 2048 * k) = 255" if "k < 32" for k
    using that by (simp add: n)
  then have c: "ext_cycle demo_cycle" by (simp add: ext_cycle_def list_all_iff l)
  have z: "demo_cycle ! 0 = 0x60" "demo_cycle ! 4 = 0" "demo_cycle ! 5 = 0" "demo_cycle ! 6 = 0"
    by (simp_all add: n)
  have "get8 demo_cycle 6 = Some 0" "get16 demo_cycle 4 = Some 0" using z l by (simp_all add: le16_def)
  from extension_headers_never_end [OF c _ _ _ this, of 63536 1000000 0 zero_result True] z(1) l
  show ?thesis by (simp add: swap_short_def)
qed

subsection \<open>The hash\<close>

text \<open>
  C36: the hash routine, which shifts the key through a 32-bit window while it walks over the chunks of
  the packet, computes the Toeplitz hash of the concatenated chunks: the exclusive or of the 32-bit
  windows of the key at the positions of the set bits. It needs four bytes of key more than there are
  bytes to hash and reads nothing beyond. The concrete input is a published test vector.
\<close>

theorem toeplitz_hash_reference:
  assumes "length (concat sgBuff) + 4 \<le> length fullKey"
  shows "ToeplitzHash sgBuff fullKey = Some (toeplitz fullKey (concat sgBuff))"
  by (rule ToeplitzHash_ok [OF assms])

theorem toeplitz_hash_reference_witness:
  "ToeplitzHash [[66, 9, 149, 187, 161, 142, 100, 80], [0x0A, 0xEA, 0x06, 0xE6]] demo_key = Some 0x51CCC178 \<and>
   toeplitz demo_key [66, 9, 149, 187, 161, 142, 100, 80, 0x0A, 0xEA, 0x06, 0xE6] = 0x51CCC178"
proof -
  have "ToeplitzHash [[66, 9, 149, 187, 161, 142, 100, 80], [0x0A, 0xEA, 0x06, 0xE6]] demo_key = Some 0x51CCC178"
    by code_simp
  moreover have "length (concat [[66, 9, 149, 187, 161, 142, 100, 80], [0x0A, 0xEA, 0x06, 0xE6 :: u8]]) + 4 \<le> length demo_key"
    by (simp add: demo_key_def)
  ultimately show ?thesis using toeplitz_hash_reference by fastforce
qed

subsection \<open>The analysis of received packets\<close>

text \<open>
  C37: the analysis of a received packet and the computation of its hash always return, whatever the
  bytes of the packet, and read at most 2044 bytes past its end; the offsets that the analysis
  leaves in the packet information are such that the hash stays within the same bound.
\<close>

theorem received_packet_bounded:
  assumes "head + unat dataLen + 2044 \<le> length buf" "unat dataLen < 2 ^ 31"
    "40 \<le> length (HashSecretKey (ActiveHashingSettings rss))"
  shows "\<exists>ok info. ParaNdis_AnalyzeReceivedPacket eth buf head dataLen = Some (ok, info) \<and>
    (ok \<longrightarrow> (\<exists>info'. ParaNdis6_RSSAnalyzeReceivedPacket ndis rss (drop head buf) info = Some info'))"
proof -
  obtain ok info where a: "ParaNdis_AnalyzeReceivedPacket eth buf head dataLen = Some (ok, info)"
    "ok \<longrightarrow> l3_ok (unat dataLen) info" using analyze_ok [OF assms(1,2)] by blast
  have "unat dataLen + 2044 \<le> length (drop head buf)" using assms(1) by simp
  then show ?thesis using a rss_hash_ok [OF _ _ assms(3)] by blast
qed

theorem received_packet_bounded_witness:
  "\<exists>ok info. ParaNdis_AnalyzeReceivedPacket demo_eth (replicate 3000 0) 4 60 = Some (ok, info)"
  using received_packet_bounded [of 4 60 "replicate 3000 0" demo_rss demo_eth demo_ndis]
  by (auto simp: demo_rss_def demo_hashing_def)

text \<open>
  C38: the analysis reads past the end of a packet. In a packet of 58 bytes that ends with the first four bytes
  of an IPv6 destination options header of the maximal length, the stated length of the header is
  not compared with what is left of the packet, and the walk over the options leaves the packet.
\<close>

theorem destination_options_overread:
  assumes "length macs = 12" "length ip6 = 40" "drop_bit 4 (ip6 ! 0 AND 0xF0) = 6" "ip6 ! 6 = 60"
  shows "ParaNdis_AnalyzeReceivedPacket eth (macs @ [0x86, 0xDD] @ ip6 @ [59, 255, x, y]) 0 58 = None"
proof -
  let ?buf = "macs @ [0x86, 0xDD] @ ip6 @ [59, 255, x, y]"
  let ?p = "ip6 @ [59, 255, x, y]"
  have skip: "SkipIP6ExtensionHeader ?p 44 40 = Some (Some (2088, 59))"
    using assms(2) by (simp add: SkipIP6ExtensionHeader_def nth_append)
  have "option_at ?p 40 2048 None = Some (Some (257, None))"
    using assms(2) by (simp add: option_at_def nth_append)
  moreover have "option_at ?p 297 1791 None = None"
    using assms(2) by (simp add: option_at_def get8_def nth_opt_def)
  ultimately have "AnalyzeIP6DestinationExtension ?p 40 2048 None = None"
    by (subst AnalyzeIP6DestinationExtension.simps, simp, subst AnalyzeIP6DestinationExtension.simps) simp
  then have "analyze_ip6_ext ?p 44 (40, 60, 0, 0) = None" using skip by (simp add: analyze_ip6_ext_def)
  then have "analyze_ip6_loop ?p 44 (40, 60, 0, 0) = None" by (subst analyze_ip6_loop.simps) simp
  then have hdr: "AnalyzeIP6Hdr ?p 44 = None"
    using assms(2,4) by (simp add: AnalyzeIP6Hdr_def nth_append)
  obtain info where i: "AnalyzeL2Hdr eth ?buf (zero_packet_info\<lparr> headersBuffer := 0, dataLength := 58 \<rparr>) = Some (True, info)"
    "headersBuffer info = 0" "L2HdrLen info = 14" "L2PayloadLen info = 44" "\<not> isIP4 info" "isIP6 info"
  proof -
    have "get_bytes ?buf 0 6 = Some (take 6 ?buf)" "get8 ?buf 12 = Some 0x86" "get8 ?buf 13 = Some 0xDD"
      "get16 ?buf 12 = Some (le16 0x86 0xDD)"
      using assms(1,2) by (simp_all add: get_bytes_lt nth_append)
    moreover have "le16 0x86 0xDD \<noteq> swap_short 0x0800" "le16 0x86 0xDD = swap_short 0x86DD" by code_simp+
    ultimately show thesis using that
      by (auto simp: AnalyzeL2Hdr_def AnalyzeL3Proto_def zero_packet_info_def Let_def split: if_splits)
  qed
  have "get8 ?buf 14 = Some (ip6 ! 0)" using assms(1,2) by (simp add: nth_append)
  moreover have "drop 14 ?buf = ?p" using assms(1) by simp
  ultimately have "analyze_ip6 ?buf info = None" using i assms(3) hdr by (simp add: analyze_ip6_def)
  then show ?thesis using i by (simp add: ParaNdis_AnalyzeReceivedPacket_def AnalyzeL3Hdr_def)
qed

theorem destination_options_overread_witness:
  "ParaNdis_AnalyzeReceivedPacket demo_eth
     (replicate 12 0 @ [0x86, 0xDD] @ ([0x60, 0, 0, 0, 0, 4, 60] @ replicate 33 0) @ [59, 255, 0, 0]) 0 58 = None"
  by (rule destination_options_overread) simp_all

subsection \<open>Receive side scaling\<close>




text \<open>
  C40: resetting the classification loses and invents no buffer: all receive queues are empty
  afterwards, and the unclassified queue of every path bundle has its own buffers appended, in the
  order of the receive queues.
\<close>

theorem reset_returns_buffers:
  assumes "buffers_ok ctx"
  shows "\<exists>ctx'. ParaNdis_ResetRxClassification ctx = Some ctx' \<and> concat (ReceiveQueues ctx') = [] \<and>
    length (UnclassifiedQueues ctx') = length (UnclassifiedQueues ctx) \<and>
    list_all (\<lambda>i. UnclassifiedQueues ctx' ! i =
        UnclassifiedQueues ctx ! i @ filter (\<lambda>b. fst b = i) (concat (ReceiveQueues ctx)))
      [0..<length (UnclassifiedQueues ctx)] \<and>
    mset (concat (UnclassifiedQueues ctx')) =
      mset (concat (UnclassifiedQueues ctx)) + mset (concat (ReceiveQueues ctx))"
proof -
  let ?bs = "concat (ReceiveQueues ctx)" and ?un = "UnclassifiedQueues ctx"
  let ?un' = "map (\<lambda>i. ?un ! i @ filter (\<lambda>b. fst b = i) ?bs) [0..<length ?un]"
  have "requeue ?bs ?un = Some ?un'" using requeue_exact [of ?bs ?un] assms by (simp add: buffers_ok_def)
  from requeue_mset [OF this] show ?thesis unfolding reset_exact [OF assms] by (simp add: list_all_iff)
qed

theorem reset_returns_buffers_witness:
  "\<exists>ctx'. ParaNdis_ResetRxClassification demo_adapter = Some ctx' \<and>
    mset (concat (UnclassifiedQueues ctx')) = {#(0, 1), (1, 7), (0, 8), (1, 9)#}"
proof -
  have "buffers_ok demo_adapter" by (simp add: buffers_ok_def demo_adapter_def)
  from reset_returns_buffers [OF this] show ?thesis by (auto simp: demo_adapter_def)
qed

end
