(* ===== verification/Spec2Isabelle.thy ===== *)
theory Spec2Isabelle
  imports RingProperties PciProperties WdfProperties BalloonProperties NetProperties
begin

text \<open>
  A verification development for the virtio drivers for Windows guests
  (\<^verbatim>\<open>kvm-guest-drivers-windows\<close>). Paths below are relative to \<^verbatim>\<open>src/\<close>.

  \<^bold>\<open>The program.\<close> Every driver of the repository links the library in \<^verbatim>\<open>VirtIO/\<close>. Its lowest
  layer are the virtqueues, rings of descriptors in memory shared with the device, in a split
  and in a packed layout. Above them the PCI transport finds the device's registers, negotiates
  features, resets the device, reads its configuration and creates and deletes the queues. The
  framework library \<^verbatim>\<open>VirtIO/WDF/\<close> binds the transport to the operating system, keeps the DMA
  memory and gives the drivers their bring-up and tear-down calls. Two drivers above the library
  are covered: the balloon driver \<^verbatim>\<open>Balloon/sys/\<close>, which uses all layers, and the packet code of
  the network driver \<^verbatim>\<open>NetKVM/\<close>.

  \<^bold>\<open>Conventions.\<close> \<open>VioPrelude\<close> fixes the machine integers (\<open>u8\<close> to \<open>u64\<close> are words, so \<open>+\<close>
  wraps as in the source), the status codes and checked array accesses. A function with result
  type \<open>'a option\<close> returns \<open>None\<close> when the code would access an array out of range, call
  through a null table, stop the machine or run forever; a theorem that it returns \<open>Some\<close> is a
  theorem of memory safety and termination. The bus driver and the operating system are not
  part of the repository: they are records of state transformers over an abstract world
  (\<open>system_ops\<close>, \<open>wdf_os\<close>), and what is assumed of them are named hypotheses of the theorems
  that need them, each met by a simulated device in the witnesses.

  \<^bold>\<open>Virtqueues.\<close>
  \<^item> \<open>SplitRing\<close> translates \<^verbatim>\<open>VirtIO/VirtIORing.c\<close>: \<open>virtqueue_split\<close> is the structure with the
    ring memory inlined, one function per routine.
  \<^item> \<open>PackedRing\<close> translates \<^verbatim>\<open>VirtIO/VirtIORing-Packed.c\<close> in the same way.
  \<^item> \<open>VirtqueueSpec\<close> is the contract: an abstract queue \<open>avq\<close> of buffers that are offered, held
    by the device or returned, and the locales \<open>virtqueue\<close>, \<open>virtqueue_cb\<close> and
    \<open>virtqueue_cleanup\<close>, whose lemmas hold for every queue that keeps the contract.
  \<^item> \<open>DescPool\<close>, \<open>SplitRingProofs\<close>, \<open>SplitRingRefine\<close>, \<open>PackedRingProofs\<close> and
    \<open>PackedRingRefine\<close> hold the invariants and prove that both rings refine the abstract queue,
    as interpretations of the locales.
  \<^item> \<open>Virtqueue\<close> is the dispatch of \<^verbatim>\<open>VirtIO/VirtIO.h\<close> and the interpretation for both layouts;
    \<open>RingProperties\<close> states what follows.

  \<^bold>\<open>PCI transport.\<close> \<open>PciTypes\<close> (\<^verbatim>\<open>virtio_pci.h\<close>, \<^verbatim>\<open>virtio_pci_common.h\<close>), \<open>PciModern\<close>
  (\<^verbatim>\<open>VirtIOPCIModern.c\<close>), \<open>PciLegacy\<close> (\<^verbatim>\<open>VirtIOPCILegacy.c\<close>) and \<open>PciCommon\<close>
  (\<^verbatim>\<open>VirtIOPCICommon.c\<close>) translate the code. \<open>PciDiscovery\<close>, \<open>PciQueues\<close> and \<open>PciDevice\<close> prove
  that discovery stays in bounds, that queues are created and deleted completely, and what
  negotiation, reset and configuration reads guarantee; \<open>PciProperties\<close> states the properties.

  \<^bold>\<open>WDF library.\<close> \<open>WdfDma\<close> (\<^verbatim>\<open>WDF/Dma.c\<close>) and \<open>WdfDriver\<close> (\<^verbatim>\<open>WDF/Callbacks.c\<close>, \<^verbatim>\<open>MemPortIO.c\<close>,
  \<^verbatim>\<open>PCI.c\<close>, \<^verbatim>\<open>VirtIOWdf.c\<close>) translate the code; \<open>WdfDmaProofs\<close> and \<open>WdfProofs\<close> hold the lemmas,
  \<open>WdfProperties\<close> the properties. The present theory joins the layers: from initialisation over
  the creation of queues to traffic on them, and down again.

  \<^bold>\<open>Balloon driver.\<close> \<open>BalloonDriver\<close> translates \<^verbatim>\<open>Balloon/sys/\<close> (\<^verbatim>\<open>balloon.c\<close>, \<^verbatim>\<open>Device.c\<close>,
  \<^verbatim>\<open>memstat.c\<close>): the device context with its list of page descriptors, power transitions, the
  interrupt, the worker thread with inflating and deflating, and the statistics. The activity of
  the device while the thread waits is a parameter. \<open>BalloonProofs\<close> proves the accounting of pages
  over all operations, \<open>BalloonProperties\<close> states the properties from the addition of the device
  to its removal.

  \<^bold>\<open>Network driver.\<close> A packet is a list of bytes with checked accesses, a scattered packet a list of
  pages.
  \<^item> \<open>SwOffload\<close> and \<open>NetPacket\<close> translate \<^verbatim>\<open>NetKVM/Common/sw_offload.cpp\<close>: checksums, the IP parser,
    verification and repair; the analysis of received packets, with the filter of
    \<^verbatim>\<open>ParaNdis_RX.cpp\<close> and the checksum result of \<^verbatim>\<open>ParaNdis_Common.cpp\<close>.
  \<^item> \<open>NetRss\<close> translates \<^verbatim>\<open>NetKVM/wlh/ParaNdis6_RSS.cpp\<close>: the Toeplitz hash, the tables and the
    requests of receive side scaling. Constants of the NDIS headers are the fields of \<open>ndis_rss\<close>, the
    processors and allocations those of \<open>rss_env\<close>.
  \<^item> \<open>SwOffloadProofs\<close> proves the checksum equal to RFC 1071, \<open>SwOffloadVerify\<close> what the parser
    establishes, what verification computes, and that fixed packets verify. \<open>NetPacketProofs\<close> bounds
    the analysis of packets, \<open>NetRssProofs\<close> proves the hash equal to its bitwise definition, and
    \<open>NetRssTables\<close> that requests keep the invariant of the tables. \<open>NetProperties\<close> states the properties.

  \<^bold>\<open>Loops and bounds.\<close> Loops over data are structural recursion or have a termination proof.
  Loops that wait for the device (\<open>reset_wait\<close>, \<open>cread_loop\<close>) or follow a device-supplied list
  (\<open>vendor_caps_loop\<close>) are \<open>partial_function (option)\<close>, and the theorems say exactly when they
  return. \<open>fetch_all\<close> and \<open>detach_all\<close>, the loops of the drivers over a queue, have a bound
  that the theorems show to be one more than the number of buffers. The loops over IPv6 headers
  and options (\<open>qualify_ext_loop\<close>, \<open>analyze_ip6_loop\<close>, \<open>AnalyzeIP6DestinationExtension\<close>) are
  \<open>partial_function (option)\<close> as well: the first is shown to return for packets below 63496 bytes
  and not to return on a longer crafted packet, the others to return for packets below 2 GiB that
  are followed by 2044 readable bytes, which the options loop can reach into.

  \<^bold>\<open>Not modelled.\<close> Debug prints and tracing. Memory barriers are represented by the order of the
  writes only, locks by the atomicity of the operations that hold them. Of the balloon driver, the
  build with the user-mode service. Of the network driver, the adapter, transmit path, control
  path and requests, which allocate, queue and complete objects of the NDIS library. The graphics,
  file system, storage, serial, socket, input, entropy, panic, firmware configuration, shared memory
  and crypto drivers and the tools are not covered; they are mostly glue to frameworks (WDDM,
  WinFsp, StorPort, WDF request queues, HID, CNG) whose behaviour the repository does not define.
\<close>

subsection \<open>From bring-up to traffic\<close>






end
